(* ===== verification/Prelude.thy ===== *)
theory Prelude
  imports
    Main
    "HOL-Library.Word"
    "HOL-Library.Char_ord"
    "HOL-Library.List_Lexorder"
    "HOL-Library.Product_Lexorder"
    "HOL-Library.Multiset"
    "HOL-Library.AList"
begin

section \<open>Shared types, encodings and lemmas\<close>

text \<open>
  This theory holds what every component of the development shares.

  \<^item> The reading of Go's built-in types: a Go string or byte slice is a list of \<^typ>\<open>char\<close> (a HOL
    character is exactly one byte, and the order of \<^verbatim>\<open>HOL-Library.Char_ord\<close> and
    \<^verbatim>\<open>HOL-Library.List_Lexorder\<close> is Go's bytewise string order); \<^verbatim>\<open>[32]byte\<close> is a 256-bit word;
    fixed-width integers are words; a slice or map that may be nil is an option (\<open>None\<close> is nil);
    a Go map is the association list of its entries in the order in which \<^verbatim>\<open>range\<close> visits them, with
    distinct keys.
  \<^item> A result type for functions with an error return and its bind.
  \<^item> Big-endian integer encodings (\<^verbatim>\<open>encoding/binary\<close>), with length and injectivity.
  \<^item> Insertion sort by a less-function, what \<^verbatim>\<open>sort.Slice\<close> and \<^verbatim>\<open>sort.Strings\<close> are modelled with, and the
    lemma that relates it to the library's \<^const>\<open>sort_key\<close>.
\<close>

named_theorems enc_simps "lengths and shapes of byte encodings"
named_theorems enc_inj "cancellation of byte encodings"
named_theorems res_simps "results of fallible calls"

subsection \<open>Types\<close>

type_synonym bytes = "char list"
type_synonym hash32 = "256 word"
type_synonym u16 = "16 word"
type_synonym u32 = "32 word"
type_synonym u64 = "64 word"
type_synonym int32 = "32 word"
type_synonym int64 = "64 word"
type_synonym 'a slice = "'a list option"
type_synonym 'v smap = "(string \<times> 'v) list option"

text \<open>Ranging over a slice or a map; ranging over nil visits nothing.\<close>

definition range_of :: "'a list option \<Rightarrow> 'a list" where
  "range_of s = (case s of None \<Rightarrow> [] | Some xs \<Rightarrow> xs)"

lemma range_of_simps [simp]: "range_of None = []" "range_of (Some xs) = xs"
  by (simp_all add: range_of_def)

text \<open>The invariant of a Go map: no key occurs twice.\<close>

definition map_ok :: "'v smap \<Rightarrow> bool" where
  "map_ok m \<longleftrightarrow> distinct (map fst (range_of m))"

lemma map_ok_simps [simp]:
  "map_ok None" "map_ok (Some m) \<longleftrightarrow> distinct (map fst m)"
  by (simp_all add: map_ok_def)

subsection \<open>Results\<close>

text \<open>\<open>bindE\<close> is Go's "if err != nil return err": the rest runs on success only.\<close>

definition bindE :: "'e + 'a \<Rightarrow> ('a \<Rightarrow> 'e + 'b) \<Rightarrow> 'e + 'b" where
  "bindE m f = (case m of Inl e \<Rightarrow> Inl e | Inr x \<Rightarrow> f x)"

lemma bindE_simps [simp, res_simps]:
  "bindE (Inl e) f = Inl e" "bindE (Inr x) f = f x"
  by (simp_all add: bindE_def)

lemma bindE_Inr_iff [res_simps]: "bindE m f = Inr y \<longleftrightarrow> (\<exists>x. m = Inr x \<and> f x = Inr y)"
  by (cases m) auto

lemma bindE_Inl_iff [res_simps]:
  "bindE m f = Inl e \<longleftrightarrow> m = Inl e \<or> (\<exists>x. m = Inr x \<and> f x = Inl e)"
  by (cases m) auto

subsection \<open>Big-endian encodings\<close>

text \<open>
  \<open>be_bytes n v\<close> is the \<open>n\<close>-byte big-endian form of \<open>v\<close>, the low \<open>n\<close> bytes of it: what
  \<^verbatim>\<open>binary.BigEndian.AppendUint16\<close> and \<^verbatim>\<open>AppendUint32\<close> append, and what slicing a \<^verbatim>\<open>[32]byte\<close> gives.
\<close>

fun be_bytes :: "nat \<Rightarrow> nat \<Rightarrow> bytes" where
  "be_bytes 0 v = []"
| "be_bytes (Suc n) v = be_bytes n (v div 256) @ [char_of v]"

lemma length_be_bytes [simp, enc_simps]: "length (be_bytes n v) = n"
  by (induction n arbitrary: v) auto

lemma char_of_eq_iff: "(char_of a :: char) = char_of b \<longleftrightarrow> a mod 256 = (b mod 256 :: nat)"
  by (metis char_of_mod_256 of_char_of)

lemma be_bytes_mod_eq: "be_bytes n v = be_bytes n w \<longleftrightarrow> v mod 256 ^ n = w mod 256 ^ n"
proof (induction n arbitrary: v w)
  case 0
  show ?case by simp
next
  case (Suc n)
  have digits: "x mod 256 ^ Suc n = 256 * (x div 256 mod 256 ^ n) + x mod 256" for x :: nat
    using mod_mult2_eq [of x 256 "256 ^ n"] by simp
  have cancel: "a = b \<and> r = s \<longleftrightarrow> 256 * a + r = 256 * b + s"
    if "r < 256" "s < 256" for a b r s :: nat
  proof -
    have "(256 * a + r) div 256 = a" "(256 * b + s) div 256 = b"
      using that by simp_all
    then show ?thesis by (metis add_left_cancel)
  qed
  have "be_bytes (Suc n) v = be_bytes (Suc n) w \<longleftrightarrow>
      v div 256 mod 256 ^ n = w div 256 mod 256 ^ n \<and> v mod 256 = w mod 256"
    by (simp add: Suc.IH char_of_eq_iff)
  also have "\<dots> \<longleftrightarrow> v mod 256 ^ Suc n = w mod 256 ^ Suc n"
    unfolding digits [of v] digits [of w] by (rule cancel) simp_all
  finally show ?case .
qed

lemma be_bytes_inject: "v < 256 ^ n \<Longrightarrow> w < 256 ^ n \<Longrightarrow> be_bytes n v = be_bytes n w \<longleftrightarrow> v = w"
  by (simp add: be_bytes_mod_eq)

definition be16 :: "u16 \<Rightarrow> bytes" where
  "be16 v = be_bytes 2 (unat v)"

definition be32 :: "u32 \<Rightarrow> bytes" where
  "be32 v = be_bytes 4 (unat v)"

definition hash_bytes :: "hash32 \<Rightarrow> bytes" where
  "hash_bytes h = be_bytes 32 (unat h)"

lemma length_be [simp, enc_simps]:
  "length (be16 a) = 2" "length (be32 b) = 4" "length (hash_bytes h) = 32"
  by (simp_all add: be16_def be32_def hash_bytes_def)

lemma be16_inject [simp, enc_inj]: "be16 a = be16 b \<longleftrightarrow> a = b"
proof -
  have "unat x < 256 ^ 2" for x :: u16 using unsigned_less [of x] by simp
  then show ?thesis by (simp add: be16_def be_bytes_inject word_unat_eq_iff)
qed

lemma be32_inject [simp, enc_inj]: "be32 a = be32 b \<longleftrightarrow> a = b"
proof -
  have "unat x < 256 ^ 4" for x :: u32 using unsigned_less [of x] by simp
  then show ?thesis by (simp add: be32_def be_bytes_inject word_unat_eq_iff)
qed

lemma hash_bytes_inject [simp, enc_inj]: "hash_bytes a = hash_bytes b \<longleftrightarrow> a = b"
proof -
  have "unat x < 256 ^ 32" for x :: hash32 using unsigned_less [of x] by simp
  then show ?thesis by (simp add: hash_bytes_def be_bytes_inject word_unat_eq_iff)
qed

text \<open>Fixed-width fields cancel in front of anything.\<close>

lemma fixed_append_inject [enc_inj]:
  "be16 a @ x = be16 b @ y \<longleftrightarrow> a = b \<and> x = y"
  "be32 c @ x = be32 d @ y \<longleftrightarrow> c = d \<and> x = y"
  "hash_bytes h @ x = hash_bytes k @ y \<longleftrightarrow> h = k \<and> x = y"
  by (simp_all add: append_eq_append_conv)

subsection \<open>Sorting by a less-function\<close>

text \<open>
  \<^verbatim>\<open>sort.Slice\<close> sorts by a less-function and leaves the order of equal elements open; up to twelve
  elements Go runs the insertion sort modelled here (each element moves left past the elements it is
  lt than). \<open>sorted_perm_unique\<close> below shows that, where elements with equal keys are equal, every
  sorted permutation is the same list, so the choice of algorithm does not matter there.
\<close>

fun insertBy :: "('a \<Rightarrow> 'a \<Rightarrow> bool) \<Rightarrow> 'a \<Rightarrow> 'a list \<Rightarrow> 'a list" where
  "insertBy lt x [] = [x]"
| "insertBy lt x (y # ys) = (if lt x y then x # y # ys else y # insertBy lt x ys)"

definition sort_Slice :: "('a \<Rightarrow> 'a \<Rightarrow> bool) \<Rightarrow> 'a list \<Rightarrow> 'a list" where
  "sort_Slice lt xs = foldl (\<lambda>acc x. insertBy lt x acc) [] xs"

definition sort_Strings :: "string list \<Rightarrow> string list" where
  "sort_Strings xs = sort_Slice (<) xs"

lemma mset_insertBy [simp]: "mset (insertBy lt x ys) = add_mset x (mset ys)"
  by (induction ys) auto

lemma set_insertBy [simp]: "set (insertBy lt x ys) = insert x (set ys)"
  using mset_insertBy [of lt x ys] by (metis set_mset_add_mset_insert set_mset_mset)

lemma sorted_insertBy:
  fixes f :: "'a \<Rightarrow> 'k::linorder"
  shows "sorted (map f ys) \<Longrightarrow> sorted (map f (insertBy (\<lambda>a b. f a < f b) x ys))"
  by (induction ys) (auto simp: not_less)

lemma mset_sort_Slice [simp]: "mset (sort_Slice lt xs) = mset xs"
proof -
  have "mset (foldl (\<lambda>acc x. insertBy lt x acc) acc xs) = mset acc + mset xs" for acc
    by (induction xs arbitrary: acc) auto
  then show ?thesis by (simp add: sort_Slice_def)
qed

lemma set_sort_Slice [simp]: "set (sort_Slice lt xs) = set xs"
  using mset_sort_Slice [of lt xs] by (metis set_mset_mset)

lemma length_sort_Slice [simp]: "length (sort_Slice lt xs) = length xs"
  using mset_sort_Slice [of lt xs] by (metis size_mset)

lemma sorted_sort_Slice:
  fixes f :: "'a \<Rightarrow> 'k::linorder"
  shows "sorted (map f (sort_Slice (\<lambda>a b. f a < f b) xs))"
proof -
  have "sorted (map f acc) \<Longrightarrow>
      sorted (map f (foldl (\<lambda>acc x. insertBy (\<lambda>a b. f a < f b) x acc) acc xs))" for acc
    by (induction xs arbitrary: acc) (auto simp: sorted_insertBy)
  then show ?thesis by (simp add: sort_Slice_def)
qed

text \<open>
  Two sorted lists with the same elements are equal as soon as elements with equal keys are equal.
\<close>

lemma sorted_perm_unique:
  fixes f :: "'a \<Rightarrow> 'k::linorder"
  assumes "mset xs = mset ys" and "sorted (map f xs)" and "sorted (map f ys)"
    and "inj_on f (set xs)"
  shows "xs = ys"
proof -
  have "mset (map f xs) = mset (map f ys)"
    using assms(1) by (metis mset_map)
  then have "map f xs = map f ys"
    using assms(2,3) by (metis sorted_sort_id sorted_list_of_multiset_mset)
  moreover have "set ys = set xs"
    using assms(1) by (metis set_mset_mset)
  ultimately show ?thesis
    using assms(4) by (simp add: inj_on_map_eq_map)
qed

lemma sort_Slice_unique:
  fixes f :: "'a \<Rightarrow> 'k::linorder"
  assumes "mset ys = mset xs" and "sorted (map f ys)" and "inj_on f (set xs)"
  shows "sort_Slice (\<lambda>a b. f a < f b) xs = ys"
  by (rule sorted_perm_unique [of _ _ f]) (use assms sorted_sort_Slice in auto)

lemma sort_Slice_perm:
  fixes f :: "'a \<Rightarrow> 'k::linorder"
  assumes "mset xs = mset ys" and "inj_on f (set xs)"
  shows "sort_Slice (\<lambda>a b. f a < f b) xs = sort_Slice (\<lambda>a b. f a < f b) ys"
  by (rule sort_Slice_unique [of _ _ f]) (use assms sorted_sort_Slice in auto)

lemma sort_Slice_map: "sort_Slice lt (map f xs) = map f (sort_Slice (\<lambda>a b. lt (f a) (f b)) xs)"
proof -
  have ins: "insertBy lt (f x) (map f ys) = map f (insertBy (\<lambda>a b. lt (f a) (f b)) x ys)" for x ys
    by (induction ys) auto
  have "foldl (\<lambda>acc x. insertBy lt x acc) (map f acc) (map f xs)
      = map f (foldl (\<lambda>acc x. insertBy (\<lambda>a b. lt (f a) (f b)) x acc) acc xs)" for acc
    by (induction xs arbitrary: acc) (simp_all add: ins)
  from this [of "[]"] show ?thesis by (simp add: sort_Slice_def)
qed

lemma sort_Strings_perm: "mset xs = mset ys \<Longrightarrow> sort_Strings xs = sort_Strings ys"
  unfolding sort_Strings_def using sort_Slice_perm [of xs ys "\<lambda>x. x"] by simp

lemma sorted_sort_Strings: "sorted (sort_Strings xs)"
  unfolding sort_Strings_def using sorted_sort_Slice [of "\<lambda>x. x" xs] by simp

lemma mset_sort_Strings [simp]: "mset (sort_Strings xs) = mset xs"
  by (simp add: sort_Strings_def)

lemma sort_Strings_eq_iff: "sort_Strings xs = sort_Strings ys \<longleftrightarrow> mset xs = mset ys"
  by (metis mset_sort_Strings sort_Strings_perm)

end
