(* ===== verification/Sha256.thy ===== *)
theory Sha256
  imports Prelude
begin

section \<open>SHA-256\<close>

text \<open>
  The digest of Go's \<^verbatim>\<open>crypto/sha256\<close>, which every identifier, config hash, incarnation and signing
  digest of the program is computed with: the FIPS 180-4 function on byte strings, written the way
  the Go package computes it (pad, then fold the compression function over the 64-byte blocks). The
  result is a \<^typ>\<open>hash32\<close>, so the 32-byte width of a digest is a fact of its type.

  Nothing in the development assumes that the function is injective, which would be false: theorems
  that separate two digests state the alternative, a pair of different byte strings with the same
  digest (\<open>sha_collision\<close>).
\<close>

unbundle bit_operations_syntax

definition sha_K :: "u32 list" where
  "sha_K = [
     1116352408, 1899447441, 3049323471, 3921009573, 961987163, 1508970993,
     2453635748, 2870763221, 3624381080, 310598401, 607225278, 1426881987,
     1925078388, 2162078206, 2614888103, 3248222580, 3835390401, 4022224774,
     264347078, 604807628, 770255983, 1249150122, 1555081692, 1996064986,
     2554220882, 2821834349, 2952996808, 3210313671, 3336571891, 3584528711,
     113926993, 338241895, 666307205, 773529912, 1294757372, 1396182291,
     1695183700, 1986661051, 2177026350, 2456956037, 2730485921, 2820302411,
     3259730800, 3345764771, 3516065817, 3600352804, 4094571909, 275423344,
     430227734, 506948616, 659060556, 883997877, 958139571, 1322822218,
     1537002063, 1747873779, 1955562222, 2024104815, 2227730452, 2361852424,
     2428436474, 2756734187, 3204031479, 3329325298]"

definition rotr :: "nat \<Rightarrow> u32 \<Rightarrow> u32" where
  "rotr n x = drop_bit n x OR push_bit (32 - n) x"

definition big_sigma0 :: "u32 \<Rightarrow> u32" where
  "big_sigma0 x = rotr 2 x XOR rotr 13 x XOR rotr 22 x"

definition big_sigma1 :: "u32 \<Rightarrow> u32" where
  "big_sigma1 x = rotr 6 x XOR rotr 11 x XOR rotr 25 x"

definition small_sigma0 :: "u32 \<Rightarrow> u32" where
  "small_sigma0 x = rotr 7 x XOR rotr 18 x XOR drop_bit 3 x"

definition small_sigma1 :: "u32 \<Rightarrow> u32" where
  "small_sigma1 x = rotr 17 x XOR rotr 19 x XOR drop_bit 10 x"

definition sha_Ch :: "u32 \<Rightarrow> u32 \<Rightarrow> u32 \<Rightarrow> u32" where
  "sha_Ch x y z = (x AND y) XOR (NOT x AND z)"

definition sha_Maj :: "u32 \<Rightarrow> u32 \<Rightarrow> u32 \<Rightarrow> u32" where
  "sha_Maj x y z = (x AND y) XOR (x AND z) XOR (y AND z)"

text \<open>Padding: a one bit, zeros up to 56 modulo 64, and the length in bits as eight bytes.\<close>

definition sha_pad :: "bytes \<Rightarrow> bytes" where
  "sha_pad m = m @ [CHR 0x80] @ replicate ((119 - length m mod 64) mod 64) (CHR 0x00)
     @ be_bytes 8 (8 * length m)"

fun sha_words :: "bytes \<Rightarrow> u32 list" where
  "sha_words (a # b # c # d # r) =
     (of_char a * 16777216 + of_char b * 65536 + of_char c * 256 + of_char d) # sha_words r"
| "sha_words _ = []"

text \<open>The message schedule, newest word first: \<open>ws ! 15\<close> is the word sixteen steps back.\<close>

fun sha_schedule :: "nat \<Rightarrow> u32 list \<Rightarrow> u32 list" where
  "sha_schedule 0 ws = ws"
| "sha_schedule (Suc n) ws =
     sha_schedule n ((small_sigma1 (ws ! 1) + ws ! 6 + small_sigma0 (ws ! 14) + ws ! 15) # ws)"

type_synonym sha_state = "u32 \<times> u32 \<times> u32 \<times> u32 \<times> u32 \<times> u32 \<times> u32 \<times> u32"

fun sha_round :: "u32 \<times> u32 \<Rightarrow> sha_state \<Rightarrow> sha_state" where
  "sha_round (k, w) (a, b, c, d, e, f, g, h) =
     (let t1 = h + big_sigma1 e + sha_Ch e f g + k + w;
          t2 = big_sigma0 a + sha_Maj a b c
      in (t1 + t2, a, b, c, d + t1, e, f, g))"

fun sha_add :: "sha_state \<Rightarrow> sha_state \<Rightarrow> sha_state" where
  "sha_add (a, b, c, d, e, f, g, h) (a', b', c', d', e', f', g', h') =
     (a + a', b + b', c + c', d + d', e + e', f + f', g + g', h + h')"

definition sha_block :: "sha_state \<Rightarrow> bytes \<Rightarrow> sha_state" where
  "sha_block s blk =
     sha_add s (fold sha_round (zip sha_K (rev (sha_schedule 48 (rev (sha_words blk))))) s)"

function sha_blocks :: "sha_state \<Rightarrow> bytes \<Rightarrow> sha_state" where
  "sha_blocks s m = (if m = [] then s else sha_blocks (sha_block s (take 64 m)) (drop 64 m))"
  by pat_completeness auto
termination
  by (relation "measure (\<lambda>(s, m). length m)") auto

declare sha_blocks.simps [simp del]

definition sha_init :: sha_state where
  "sha_init = (1779033703, 3144134277, 1013904242, 2773480762,
     1359893119, 2600822924, 528734635, 1541459225)"

fun sha_digest :: "sha_state \<Rightarrow> hash32" where
  "sha_digest (a, b, c, d, e, f, g, h) =
     of_nat (foldl (\<lambda>acc w. acc * 2 ^ 32 + unat w) 0 [a, b, c, d, e, f, g, h])"

definition Sum256 :: "bytes \<Rightarrow> hash32" where
  "Sum256 m = sha_digest (sha_blocks sha_init (sha_pad m))"

text \<open>A pair of different byte strings with the same digest.\<close>

definition sha_collision :: "bytes \<Rightarrow> bytes \<Rightarrow> bool" where
  "sha_collision x y \<longleftrightarrow> x \<noteq> y \<and> Sum256 x = Sum256 y"

text \<open>The padded message is a whole number of blocks, so the block loop never sees a short one.\<close>

lemma sha_pad_whole_blocks: "64 dvd length (sha_pad m)"
proof -
  have "(r + 1 + (119 - r) mod 64 + 8) mod 64 = 0" if "r < 64" for r :: nat
  proof (cases "r \<le> 55")
    case True
    then have "119 - r = (55 - r) + 64" by simp
    then have "(119 - r) mod 64 = (55 - r) mod 64"
      by (simp only: mod_add_self2)
    then have "(119 - r) mod 64 = 55 - r" by simp
    with True show ?thesis by simp
  next
    case False
    with that have "(119 - r) mod 64 = 119 - r" by simp
    with False that show ?thesis by simp
  qed
  then have "(length m mod 64 + 1 + (119 - length m mod 64) mod 64 + 8) mod 64 = 0"
    by simp
  then have "(length m + (1 + (119 - length m mod 64) mod 64 + 8)) mod 64 = 0"
    by (metis (no_types, lifting) add.assoc mod_add_left_eq)
  moreover have "length (sha_pad m) = length m + (1 + (119 - length m mod 64) mod 64 + 8)"
    by (simp add: sha_pad_def)
  ultimately show ?thesis
    by (simp only: dvd_eq_mod_eq_0)
qed

text \<open>Equal digests mean equal inputs or an exhibited collision.\<close>

lemma Sum256_eqD: "Sum256 x = Sum256 y \<Longrightarrow> x = y \<or> sha_collision x y"
  by (auto simp: sha_collision_def)

end
