(* ===== verification/Sha256_Vector.thy ===== *)
theory Sha256_Vector
  imports Sha256
begin

section \<open>SHA-256 on a test vector\<close>

text \<open>
  The digest of Sha256 is the one of FIPS 180-4 on its one-block example, the message \<^verbatim>\<open>abc\<close>: padding, message
  schedule, sixty-four rounds and digest, computed in the kernel. Additions and rotations are carried out on
  integers and cut to 32 bits, so that every intermediate value is a numeral in range.
\<close>

unbundle bit_operations_syntax

definition add32 :: "u32 \<Rightarrow> u32 \<Rightarrow> u32" where
  "add32 x y = word_of_int (take_bit 32 (uint x + uint y))"

lemma add_eval: "x + y = add32 x y"
proof -
  have "take_bit 32 (uint x + uint y) = uint (x + y)" by (simp add: uint_word_ariths take_bit_eq_mod)
  then show ?thesis by (simp only: add32_def word_of_int_uint)
qed

lemma rotr_eval: "rotr n x = word_of_int (drop_bit n (uint x) OR take_bit 32 (push_bit (32 - n) (uint x)))"
proof -
  have "take_bit 32 (uint x) = uint x" by (simp add: take_bit_int_eq_self_iff uint_lt2p [of x, simplified])
  then have "uint (rotr n x) = drop_bit n (uint x) OR take_bit 32 (push_bit (32 - n) (uint x))"
    by (simp add: rotr_def unsigned_or_eq unsigned_drop_bit_eq unsigned_push_bit_eq)
  then show ?thesis by (metis word_of_int_uint)
qed

definition sha_t1 :: "u32 \<Rightarrow> u32 \<Rightarrow> u32 \<Rightarrow> u32 \<Rightarrow> u32 \<Rightarrow> u32 \<Rightarrow> u32" where
  "sha_t1 k w e f g h = add32 (add32 (add32 (add32 h (big_sigma1 e)) (sha_Ch e f g)) k) w"

definition sha_next :: "u32 \<Rightarrow> sha_state \<Rightarrow> sha_state" where
  "sha_next t1 s = (case s of (a, b, c, d, e, f, g, h) \<Rightarrow>
     (add32 t1 (add32 (big_sigma0 a) (sha_Maj a b c)), a, b, c, add32 d t1, e, f, g))"

lemma round_eval:
  "sha_round (k, w) (a, b, c, d, e, f, g, h) = sha_next (sha_t1 k w e f g h) (a, b, c, d, e, f, g, h)"
  by (simp add: Let_def sha_t1_def sha_next_def add_eval)

definition sha_word :: "u32 list \<Rightarrow> u32" where
  "sha_word ws = add32 (add32 (add32 (small_sigma1 (ws ! 1)) (ws ! 6)) (small_sigma0 (ws ! 14))) (ws ! 15)"

lemma schedule_eval:
  "sha_schedule (numeral k) ws = sha_schedule (pred_numeral k) (sha_word ws # ws)"
  "sha_schedule (Suc 0) ws = sha_word ws # ws"
  by (simp_all add: sha_word_def add_eval numeral_eq_Suc)

lemmas sha_eval =
  rotr_eval big_sigma0_def big_sigma1_def small_sigma0_def small_sigma1_def sha_Ch_def sha_Maj_def add32_def sha_word_def
  sha_t1_def sha_next_def

lemma byte_eval:
  "replicate (numeral k) x = x # replicate (pred_numeral k) x"
  "be_bytes (numeral k) v = be_bytes (pred_numeral k) (v div 256) @ [char_of v]"
  "be_bytes (Suc 0) v = [char_of v]"
  by (simp_all only: numeral_eq_Suc replicate.simps be_bytes.simps append_Nil)

lemma abc_words: "sha_words (sha_pad ''abc'') = [1633837952, 0, 0, 0, 0, 0, 0, 0, 0, 0, 0, 0, 0, 0, 0, 24]"
  by (simp add: sha_pad_def byte_eval char_of_def bit_Suc_0_iff)

lemma abc_schedule:
  "rev (sha_schedule 48 (rev [1633837952, 0, 0, 0, 0, 0, 0, 0, 0, 0, 0, 0, 0, 0, 0, 24])) =
   [1633837952, 0, 0, 0, 0, 0, 0, 0, 0, 0, 0, 0, 0, 0, 0, 24, 1633837952,
     983040, 2108187653, 1610613702, 1050508152, 25426944, 316456923,
     3806512014, 3357629466, 3073800610, 3854317833, 845560923, 2636160359,
     3968280267, 1881225380, 3552024379, 2482346367, 996719219, 2952069057,
     4043988066, 176896406, 1924104970, 2483675966, 610538786, 2672279444,
     4037431130, 1042573945, 657669027, 206005234, 2215296807, 2049510749,
     106709978, 4215179723, 3430291419, 3118885940, 2845390439, 2226839261,
     3256115900, 344409900, 2987358873, 4015503821, 3957764664, 2682456414,
     2025622859, 2755645205, 1720397816, 4004225740, 313650667]"
  by (simp add: schedule_eval sha_eval del: sha_schedule.simps(2))

lemma abc_block:
  "sha_block sha_init (sha_pad ''abc'') =
     (3128432319, 2399260650, 1094795486, 1571693091, 2953011619, 2518121116, 3021012833, 4060091821)"
  unfolding sha_block_def abc_words abc_schedule
  by (simp add: sha_K_def sha_init_def round_eval sha_eval add_eval del: sha_round.simps)

lemma Sum256_abc: "Sum256 ''abc'' = 0xba7816bf8f01cfea414140de5dae2223b00361a396177a9cb410ff61f20015ad"
proof -
  have "length (sha_pad ''abc'') = 64" by (simp add: sha_pad_def)
  then have "sha_blocks s (sha_pad ''abc'') = sha_block s (sha_pad ''abc'')" for s
    by (subst sha_blocks.simps) (auto simp: sha_blocks.simps)
  then show ?thesis by (simp add: Sum256_def abc_block)
qed

end
