(* ===== verification/Go_Json.thy ===== *)
theory Go_Json
  imports Prelude
begin

section \<open>The JSON encoder\<close>

text \<open>
  What \<^verbatim>\<open>json.Marshal\<close> of Go's \<^verbatim>\<open>encoding/json\<close> writes for the values this program hashes: compact
  output, HTML-escaped strings, object members in the order given (the callers fix it: declaration
  order for structs, sorted keys for maps). \<open>json_escape\<close> is the encoder's string loop: bytes below
  0x80 are escaped one by one, valid UTF-8 sequences are copied (but for U+2028 and U+2029), and
  a byte that starts no valid sequence becomes an escaped U+FFFD.

  The main result is that the encoding is uniquely readable: on values whose strings are valid UTF-8,
  two different values never render to the same bytes (\<open>render_inject\<close>). It rests on a reader for
  string bodies (\<open>unescape\<close>) that undoes the escaping.
\<close>

datatype json =
    JNull
  | JBool bool
  | JInt int
  | JStr string
  | JArr "json list"
  | JObj "(string \<times> json) list"

subsection \<open>Strings\<close>

abbreviation quote_char :: char where "quote_char \<equiv> CHR 0x22"
abbreviation backslash :: char where "backslash \<equiv> CHR 0x5C"

definition byte_in :: "char \<Rightarrow> nat \<Rightarrow> nat \<Rightarrow> bool" where
  "byte_in c lo hi \<longleftrightarrow> lo \<le> of_char c \<and> of_char c \<le> hi"

text \<open>
  The table of \<^verbatim>\<open>unicode/utf8\<close>: for a lead byte, the length of its sequence and the range of the
  second byte; every later byte is in 0x80 to 0xBF.
\<close>

definition utf8_lead :: "char \<Rightarrow> (nat \<times> nat \<times> nat) option" where
  "utf8_lead b =
     (if byte_in b 0xC2 0xDF then Some (2, 0x80, 0xBF)
      else if byte_in b 0xE0 0xE0 then Some (3, 0xA0, 0xBF)
      else if byte_in b 0xE1 0xEC then Some (3, 0x80, 0xBF)
      else if byte_in b 0xED 0xED then Some (3, 0x80, 0x9F)
      else if byte_in b 0xEE 0xEF then Some (3, 0x80, 0xBF)
      else if byte_in b 0xF0 0xF0 then Some (4, 0x90, 0xBF)
      else if byte_in b 0xF1 0xF3 then Some (4, 0x80, 0xBF)
      else if byte_in b 0xF4 0xF4 then Some (4, 0x80, 0x8F)
      else None)"

text \<open>The size of the multi-byte rune at the front, \<open>None\<close> where \<^verbatim>\<open>DecodeRune\<close> reports an error.\<close>

definition rune_len :: "char \<Rightarrow> bytes \<Rightarrow> nat option" where
  "rune_len b bs =
     (case utf8_lead b of
        None \<Rightarrow> None
      | Some (n, lo, hi) \<Rightarrow>
          (if n \<le> length bs + 1 \<and> byte_in (hd bs) lo hi
              \<and> list_all (\<lambda>c. byte_in c 0x80 0xBF) (take (n - 2) (tl bs))
           then Some n else None))"

definition hex_digit :: "nat \<Rightarrow> char" where
  "hex_digit d = (if d < 10 then char_of (48 + d) else char_of (87 + d))"

definition escape_ascii :: "char \<Rightarrow> bytes" where
  "escape_ascii b =
     (let n = of_char b :: nat in
      if b = backslash \<or> b = quote_char then [backslash, b]
      else if n = 8 then [backslash, CHR ''b'']
      else if n = 12 then [backslash, CHR ''f'']
      else if n = 10 then [backslash, CHR ''n'']
      else if n = 13 then [backslash, CHR ''r'']
      else if n = 9 then [backslash, CHR ''t'']
      else if n < 32 \<or> b = CHR ''<'' \<or> b = CHR ''>'' \<or> b = CHR ''&''
        then [backslash, CHR ''u'', CHR ''0'', CHR ''0'', hex_digit (n div 16), hex_digit (n mod 16)]
      else [b])"

definition escape_rune :: "bytes \<Rightarrow> bytes" where
  "escape_rune r =
     (if r = [CHR 0xE2, CHR 0x80, CHR 0xA8] then backslash # ''u2028''
      else if r = [CHR 0xE2, CHR 0x80, CHR 0xA9] then backslash # ''u2029''
      else r)"

function json_escape :: "bytes \<Rightarrow> bytes" where
  "json_escape [] = []"
| "json_escape (b # bs) =
     (if of_char b < (128 :: nat) then escape_ascii b @ json_escape bs
      else case rune_len b bs of
          None \<Rightarrow> (backslash # ''ufffd'') @ json_escape bs
        | Some n \<Rightarrow> escape_rune (take n (b # bs)) @ json_escape (drop (n - 1) bs))"
  by pat_completeness auto
termination
  by (relation "measure length") auto

definition json_quote :: "string \<Rightarrow> bytes" where
  "json_quote s = quote_char # json_escape s @ [quote_char]"

function utf8_valid :: "bytes \<Rightarrow> bool" where
  "utf8_valid [] \<longleftrightarrow> True"
| "utf8_valid (b # bs) \<longleftrightarrow>
     (if of_char b < (128 :: nat) then utf8_valid bs
      else case rune_len b bs of None \<Rightarrow> False | Some n \<Rightarrow> utf8_valid (drop (n - 1) bs))"
  by pat_completeness auto
termination
  by (relation "measure length") auto

subsection \<open>Numbers, arrays and objects\<close>

fun dec_nat :: "nat \<Rightarrow> string" where
  "dec_nat n = (if n < 10 then [char_of (48 + n)] else dec_nat (n div 10) @ [char_of (48 + n mod 10)])"

declare dec_nat.simps [simp del]

definition dec_int :: "int \<Rightarrow> string" where
  "dec_int i = (if i < 0 then CHR ''-'' # dec_nat (nat (- i)) else dec_nat (nat i))"

fun comma_sep :: "bytes list \<Rightarrow> bytes" where
  "comma_sep [] = []"
| "comma_sep (x # xs) = x @ concat (map (\<lambda>y. CHR '','' # y) xs)"

fun render :: "json \<Rightarrow> bytes" where
  "render JNull = ''null''"
| "render (JBool b) = (if b then ''true'' else ''false'')"
| "render (JInt i) = dec_int i"
| "render (JStr s) = json_quote s"
| "render (JArr js) = ''['' @ comma_sep (map render js) @ '']''"
| "render (JObj kvs) = ''{'' @ comma_sep (map (\<lambda>(k, v). json_quote k @ CHR '':'' # render v) kvs) @ ''}''"

fun json_ok :: "json \<Rightarrow> bool" where
  "json_ok (JStr s) \<longleftrightarrow> utf8_valid s"
| "json_ok (JArr js) \<longleftrightarrow> list_all json_ok js"
| "json_ok (JObj kvs) \<longleftrightarrow> list_all (\<lambda>(k, v). utf8_valid k \<and> json_ok v) kvs"
| "json_ok _ \<longleftrightarrow> True"

subsection \<open>Reading a string back\<close>

definition unhex :: "char \<Rightarrow> nat" where
  "unhex c = (if of_char c < (58 :: nat) then of_char c - 48 else of_char c - 87)"

definition unescape_single :: "char \<Rightarrow> char" where
  "unescape_single e =
     (if e = CHR ''b'' then CHR 0x08 else if e = CHR ''f'' then CHR 0x0C
      else if e = CHR ''n'' then CHR 0x0A else if e = CHR ''r'' then CHR 0x0D
      else if e = CHR ''t'' then CHR 0x09 else e)"

definition prepend :: "bytes \<Rightarrow> (bytes \<times> bytes) option \<Rightarrow> (bytes \<times> bytes) option" where
  "prepend p m = map_option (\<lambda>(s, r). (p @ s, r)) m"

fun unescape :: "bytes \<Rightarrow> (bytes \<times> bytes) option" where
  "unescape [] = None"
| "unescape (c # r) =
     (if c = quote_char then Some ([], r)
      else if c = backslash then
        (case r of
           [] \<Rightarrow> None
         | e # r1 \<Rightarrow>
             (if e = CHR ''u'' then
                (case r1 of
                   a # b # x # y # r2 \<Rightarrow>
                     (if a = CHR ''2''
                      then prepend [CHR 0xE2, CHR 0x80, if y = CHR ''8'' then CHR 0xA8 else CHR 0xA9]
                             (unescape r2)
                      else prepend [char_of (16 * unhex x + unhex y)] (unescape r2))
                 | _ \<Rightarrow> None)
              else prepend [unescape_single e] (unescape r1)))
      else prepend [c] (unescape r))"

lemma prepend_simps [simp]:
  "prepend p (Some (s, r)) = Some (p @ s, r)" "prepend p None = None"
  "prepend p (prepend q m) = prepend (p @ q) m"
  by (cases m; auto simp: prepend_def)+

lemma unhex_hex_digit: "d < 16 \<Longrightarrow> unhex (hex_digit d) = d"
  by (auto simp: unhex_def hex_digit_def)

lemma char_of_controls:
  "char_of (8 :: nat) = CHR 0x08" "char_of (9 :: nat) = CHR 0x09" "char_of (10 :: nat) = CHR 0x0A"
  "char_of (12 :: nat) = CHR 0x0C" "char_of (13 :: nat) = CHR 0x0D"
  by (simp_all add: char_of_def bit_0)

lemma unescape_plain: "c \<noteq> quote_char \<Longrightarrow> c \<noteq> backslash \<Longrightarrow> unescape (c # r) = prepend [c] (unescape r)"
  by simp

lemma unescape_escape_ascii: "unescape (escape_ascii b @ t) = prepend [b] (unescape t)"
proof -
  have "of_char b div 16 < (16 :: nat)" "of_char b mod 16 < (16 :: nat)"
    using less_mult_imp_div_less [of "of_char b" 16 16] by simp_all
  then have hex: "char_of (16 * unhex (hex_digit (of_char b div 16)) + unhex (hex_digit (of_char b mod 16))) = b"
    by (simp add: unhex_hex_digit)
  have ctl: "b = char_of n" if "of_char b = n" for n :: nat
    using that by (metis char_of_char)
  show ?thesis
    by (auto simp: escape_ascii_def Let_def hex unescape_single_def char_of_controls
        dest!: ctl)
qed

text \<open>A multi-byte rune is copied, and none of its bytes is a quote or a backslash.\<close>

lemma rune_len_SomeD:
  assumes "rune_len b bs = Some n"
  shows "2 \<le> n" "n \<le> length bs + 1" "\<forall>c \<in> set (take n (b # bs)). 128 \<le> (of_char c :: nat)"
proof -
  from assms obtain lo hi where lead: "utf8_lead b = Some (n, lo, hi)"
    and len: "n \<le> length bs + 1" and snd_byte: "byte_in (hd bs) lo hi"
    and cont: "list_all (\<lambda>c. byte_in c 0x80 0xBF) (take (n - 2) (tl bs))"
    by (auto simp: rune_len_def split: option.splits if_splits)
  from lead have n: "2 \<le> n" and lo: "128 \<le> lo" and b: "128 \<le> (of_char b :: nat)"
    by (auto simp: utf8_lead_def byte_in_def split: if_splits)
  from n len obtain c cs where bs: "bs = c # cs" by (cases bs) auto
  from n obtain m where m: "n = Suc (Suc m)" by (metis Suc_le_D numeral_2_eq_2 Suc_le_mono)
  show "2 \<le> n" "n \<le> length bs + 1" by (fact n len)+
  show "\<forall>c \<in> set (take n (b # bs)). 128 \<le> (of_char c :: nat)"
    using b lo snd_byte cont by (auto simp: bs m byte_in_def list_all_iff)
qed

lemma unescape_high_bytes:
  "\<forall>c \<in> set xs. 128 \<le> (of_char c :: nat) \<Longrightarrow> unescape (xs @ t) = prepend xs (unescape t)"
proof (induction xs)
  case Nil
  show ?case by (cases "unescape t") auto
next
  case (Cons c xs)
  then have "c \<noteq> quote_char" "c \<noteq> backslash" by auto
  with Cons show ?case by (simp del: unescape.simps add: unescape_plain)
qed

lemma unescape_escape_rune:
  assumes "\<forall>c \<in> set r. 128 \<le> (of_char c :: nat)"
  shows "unescape (escape_rune r @ t) = prepend r (unescape t)"
  using unescape_high_bytes [OF assms, of t] by (simp add: escape_rune_def)

lemma unescape_json_escape:
  "utf8_valid s \<Longrightarrow> unescape (json_escape s @ quote_char # r) = Some (s, r)"
proof (induction s rule: json_escape.induct)
  case 1
  show ?case by simp
next
  case (2 b bs)
  show ?case
  proof (cases "of_char b < (128 :: nat)")
    case True
    with 2 show ?thesis
      by (simp add: unescape_escape_ascii del: unescape.simps)
  next
    case False
    with "2.prems" obtain n where n: "rune_len b bs = Some n" and v: "utf8_valid (drop (n - 1) bs)"
      by (auto split: option.splits)
    note rune = rune_len_SomeD [OF n]
    have "unescape (json_escape (b # bs) @ quote_char # r)
        = prepend (take n (b # bs)) (unescape (json_escape (drop (n - 1) bs) @ quote_char # r))"
      using False n rune(3) by (simp add: unescape_escape_rune del: unescape.simps take_Cons')
    also have "\<dots> = prepend (take n (b # bs)) (Some (drop (n - 1) bs, r))"
      using "2.IH"(3) [OF False n v] by (simp del: unescape.simps)
    also have "\<dots> = Some (b # bs, r)"
      using rune(1) by (cases n) auto
    finally show ?thesis .
  qed
qed

lemma json_quote_cancel:
  assumes "utf8_valid s" and "utf8_valid s'" and "json_quote s @ r = json_quote s' @ r'"
  shows "s = s' \<and> r = r'"
proof -
  from assms(3) have "json_escape s @ quote_char # r = json_escape s' @ quote_char # r'"
    by (simp add: json_quote_def)
  then have "unescape (json_escape s @ quote_char # r) = unescape (json_escape s' @ quote_char # r')"
    by simp
  then show ?thesis
    using unescape_json_escape [OF assms(1)] unescape_json_escape [OF assms(2)] by simp
qed

subsection \<open>Unique readability\<close>

definition is_digit :: "char \<Rightarrow> bool" where
  "is_digit c \<longleftrightarrow> 48 \<le> (of_char c :: nat) \<and> (of_char c :: nat) \<le> 57"

lemma is_digit_char_of [simp]: "d < 10 \<Longrightarrow> is_digit (char_of (48 + d :: nat))"
  by (simp add: is_digit_def)

lemma dec_nat_digits: "\<forall>c \<in> set (dec_nat n). is_digit c"
proof (induction n rule: dec_nat.induct)
  case (1 n)
  then show ?case by (subst dec_nat.simps) auto
qed

lemma dec_nat_nonempty: "dec_nat n \<noteq> []"
  by (subst dec_nat.simps) simp

lemma dec_nat_inject: "dec_nat n = dec_nat m \<longleftrightarrow> n = m"
proof
  have digit: "char_of (48 + a) = (char_of (48 + b) :: char) \<longleftrightarrow> a = b" if "a < 10" "b < 10" for a b :: nat
    using that by (simp add: char_of_eq_iff)
  show "dec_nat n = dec_nat m \<Longrightarrow> n = m"
  proof (induction n arbitrary: m rule: dec_nat.induct)
    case (1 n)
    show ?case
    proof (cases "n < 10")
      case n: True
      show ?thesis
      proof (cases "m < 10")
        case True
        with n 1(2) show ?thesis by (simp add: dec_nat.simps [of n] dec_nat.simps [of m] digit)
      next
        case False
        with n 1(2) have "dec_nat (m div 10) = []"
          by (simp add: dec_nat.simps [of n] dec_nat.simps [of m])
        then show ?thesis by (simp add: dec_nat_nonempty)
      qed
    next
      case n: False
      show ?thesis
      proof (cases "m < 10")
        case True
        with n 1(2) have "dec_nat (n div 10) = []"
          by (simp add: dec_nat.simps [of n] dec_nat.simps [of m])
        then show ?thesis by (simp add: dec_nat_nonempty)
      next
        case False
        with n 1(2) have "dec_nat (n div 10) = dec_nat (m div 10)" and "n mod 10 = m mod 10"
          by (simp_all add: dec_nat.simps [of n] dec_nat.simps [of m] digit)
        with 1(1) [OF n] have "n div 10 = m div 10" by simp
        with \<open>n mod 10 = m mod 10\<close> show ?thesis by (metis div_mult_mod_eq)
      qed
    qed
  qed
qed simp

text \<open>After a value comes the end, a comma or a closing bracket: nothing that continues a number.\<close>

definition delim :: "bytes \<Rightarrow> bool" where
  "delim r \<longleftrightarrow> (case r of [] \<Rightarrow> True | c # _ \<Rightarrow> c \<in> {CHR '','', CHR '']'', CHR ''}''})"

lemma delim_simps [simp]:
  "delim []" "delim (CHR '','' # r)" "delim (CHR '']'' # r)" "delim (CHR ''}'' # r)"
  by (simp_all add: delim_def)

definition num_char :: "char \<Rightarrow> bool" where
  "num_char c \<longleftrightarrow> is_digit c \<or> c = CHR ''-''"

lemma dec_int_chars: "\<forall>c \<in> set (dec_int i). num_char c"
  using dec_nat_digits by (auto simp: dec_int_def num_char_def)

lemma dec_int_nonempty: "dec_int i \<noteq> []"
  by (simp add: dec_int_def dec_nat_nonempty)

lemma takeWhile_dec_int: "delim r \<Longrightarrow> takeWhile num_char (dec_int i @ r) = dec_int i"
  using dec_int_chars [of i]
  by (cases r) (auto simp: takeWhile_append1 takeWhile_append2 delim_def num_char_def is_digit_def)

lemma dec_int_inject: "dec_int i = dec_int j \<longleftrightarrow> i = j"
proof -
  have "CHR ''-'' # xs \<noteq> dec_nat n" for xs n
  proof
    assume "CHR ''-'' # xs = dec_nat n"
    then have "CHR ''-'' \<in> set (dec_nat n)" by (metis list.set_intros(1))
    with dec_nat_digits [of n] show False by (auto simp: is_digit_def)
  qed
  then show ?thesis
    by (auto simp: dec_int_def dec_nat_inject dest: sym split: if_splits)
qed

lemma dec_int_cancel:
  assumes "delim r" and "delim r'" and "dec_int i @ r = dec_int j @ r'"
  shows "i = j \<and> r = r'"
proof -
  have "dec_int i = dec_int j"
    using assms by (metis takeWhile_dec_int)
  with assms(3) show ?thesis by (simp add: dec_int_inject)
qed

text \<open>
  A comma-separated run of items followed by its closing bracket determines the items, when each item
  followed by a delimiter determines itself. One lemma serves arrays and objects.
\<close>

lemma items_tail_cancel:
  assumes item: "\<And>x y s t. x \<in> set xs \<Longrightarrow> y \<in> set ys \<Longrightarrow> delim s \<Longrightarrow> delim t \<Longrightarrow>
      f x @ s = f y @ t \<Longrightarrow> x = y \<and> s = t"
    and close: "close \<noteq> CHR '',''" "\<And>u. delim (close # u)"
    and eq: "concat (map (\<lambda>y. CHR '','' # y) (map f xs)) @ close # r
           = concat (map (\<lambda>y. CHR '','' # y) (map f ys)) @ close # r'"
  shows "xs = ys \<and> r = r'"
  using item eq
proof (induction xs arbitrary: ys)
  case Nil
  then show ?case using close(1) by (cases ys) auto
next
  case (Cons x xs)
  then obtain y ys' where ys: "ys = y # ys'" using close(1) by (cases ys) auto
  let ?t = "\<lambda>zs. concat (map (\<lambda>y. CHR '','' # y) (map f zs))"
  have delim_tail: "delim (?t zs @ close # u)" for zs u
    using close(2) by (cases zs) auto
  have "f x @ (?t xs @ close # r) = f y @ (?t ys' @ close # r')"
    using Cons.prems(2) by (simp add: ys)
  then have "x = y" and "?t xs @ close # r = ?t ys' @ close # r'"
    using Cons.prems(1) [of x y] delim_tail by (auto simp: ys)
  moreover have "xs = ys' \<and> r = r'"
    by (rule Cons.IH) (use Cons.prems(1) calculation(2) in \<open>auto simp: ys\<close>)
  ultimately show ?case by (simp add: ys)
qed

lemma items_cancel:
  assumes item: "\<And>x y s t. x \<in> set xs \<Longrightarrow> y \<in> set ys \<Longrightarrow> delim s \<Longrightarrow> delim t \<Longrightarrow>
      f x @ s = f y @ t \<Longrightarrow> x = y \<and> s = t"
    and close: "close \<noteq> CHR '',''" "\<And>u. delim (close # u)"
    and first: "\<And>x. x \<in> set xs \<union> set ys \<Longrightarrow> f x \<noteq> [] \<and> hd (f x) \<noteq> close"
    and eq: "comma_sep (map f xs) @ close # r = comma_sep (map f ys) @ close # r'"
  shows "xs = ys \<and> r = r'"
proof (cases xs)
  case Nil
  show ?thesis
  proof (cases ys)
    case (Cons y ys')
    with first [of y] eq Nil show ?thesis by (cases "f y") auto
  qed (use eq Nil in simp)
next
  case xs: (Cons x xs')
  show ?thesis
  proof (cases ys)
    case Nil
    with first [of x] eq xs show ?thesis by (cases "f x") auto
  next
    case ys: (Cons y ys')
    let ?t = "\<lambda>zs. concat (map (\<lambda>y. CHR '','' # y) (map f zs))"
    have delim_tail: "delim (?t zs @ close # u)" for zs u
      using close(2) by (cases zs) auto
    have "f x @ (?t xs' @ close # r) = f y @ (?t ys' @ close # r')"
      using eq by (simp add: xs ys)
    then have "x = y" and tail: "?t xs' @ close # r = ?t ys' @ close # r'"
      using item [of x y] delim_tail by (auto simp: xs ys)
    moreover have "xs' = ys' \<and> r = r'"
      by (rule items_tail_cancel [OF _ close tail]) (use item in \<open>auto simp: xs ys\<close>)
    ultimately show ?thesis by (simp add: xs ys)
  qed
qed

text \<open>The first byte of a rendered value tells which kind of value it is.\<close>

lemma hd_dec_int: "num_char (hd (dec_int i))"
  using dec_int_chars [of i] dec_int_nonempty [of i] by (cases "dec_int i") auto

lemma num_char_distinct [simp]:
  "\<not> num_char (CHR ''n'')" "\<not> num_char (CHR ''t'')" "\<not> num_char (CHR ''f'')"
  "\<not> num_char (CHR ''['')" "\<not> num_char (CHR ''{'')" "\<not> num_char quote_char"
  "\<not> num_char (CHR '']'')" "\<not> num_char (CHR ''}'')" "\<not> num_char (CHR '','')"
  by (simp_all add: num_char_def is_digit_def)

lemma render_nonempty: "render j \<noteq> []"
  by (cases j) (auto simp: json_quote_def dec_int_nonempty)

lemma render_hd: "hd (render j) \<noteq> CHR '']'' \<and> hd (render j) \<noteq> CHR ''}''"
proof (cases j)
  case (JInt i)
  with hd_dec_int [of i] show ?thesis by auto
qed (auto simp: json_quote_def)

lemma hd_append_eq: "xs @ r = ys @ s \<Longrightarrow> xs \<noteq> [] \<Longrightarrow> ys \<noteq> [] \<Longrightarrow> hd xs = hd ys"
  by (cases xs; cases ys) auto

fun same_kind :: "json \<Rightarrow> json \<Rightarrow> bool" where
  "same_kind JNull JNull \<longleftrightarrow> True"
| "same_kind (JBool a) (JBool b) \<longleftrightarrow> a = b"
| "same_kind (JInt _) (JInt _) \<longleftrightarrow> True"
| "same_kind (JStr _) (JStr _) \<longleftrightarrow> True"
| "same_kind (JArr _) (JArr _) \<longleftrightarrow> True"
| "same_kind (JObj _) (JObj _) \<longleftrightarrow> True"
| "same_kind _ _ \<longleftrightarrow> False"

lemma render_same_kind:
  assumes "render j @ r = render j' @ r'"
  shows "same_kind j j'"
proof -
  have "hd (render j) = hd (render j')"
    using hd_append_eq [OF assms] by (simp add: render_nonempty)
  then show ?thesis
    using hd_dec_int
    by (cases j; cases j') (auto simp: json_quote_def split: if_splits
        dest: arg_cong [where f = num_char])
qed

lemma render_cancel:
  "json_ok j \<Longrightarrow> json_ok j' \<Longrightarrow> delim r \<Longrightarrow> delim r' \<Longrightarrow> render j @ r = render j' @ r' \<Longrightarrow>
    j = j' \<and> r = r'"
proof (induction j arbitrary: j' r r')
  case (JInt i)
  from render_same_kind [OF JInt.prems(5)] obtain i' where j': "j' = JInt i'" by (cases j') auto
  have "i = i' \<and> r = r'"
    by (rule dec_int_cancel) (use JInt.prems in \<open>simp_all add: j'\<close>)
  with j' show ?case by simp
next
  case (JStr s)
  from render_same_kind [OF JStr.prems(5)] obtain s' where j': "j' = JStr s'" by (cases j') auto
  have "s = s' \<and> r = r'"
    by (rule json_quote_cancel) (use JStr.prems in \<open>simp_all add: j'\<close>)
  with j' show ?case by simp
next
  case (JArr js)
  from render_same_kind [OF JArr.prems(5)] obtain js' where j': "j' = JArr js'" by (cases j') auto
  have "js = js' \<and> r = r'"
  proof (rule items_cancel [where f = render])
    fix x y s t
    assume x: "x \<in> set js" and y: "y \<in> set js'" and "delim s" "delim t" "render x @ s = render y @ t"
    moreover have "json_ok x" "json_ok y"
      using JArr.prems(1,2) x y by (simp_all add: j' list_all_iff)
    ultimately show "x = y \<and> s = t" using JArr.IH [OF x] by blast
  qed (use JArr.prems(5) render_nonempty render_hd in \<open>auto simp: j'\<close>)
  with j' show ?case by simp
next
  case (JObj kvs)
  from render_same_kind [OF JObj.prems(5)] obtain kvs' where j': "j' = JObj kvs'" by (cases j') auto
  let ?f = "\<lambda>(k, v). json_quote k @ CHR '':'' # render v"
  have "kvs = kvs' \<and> r = r'"
  proof (rule items_cancel [where f = ?f])
    fix x y s t
    assume x: "x \<in> set kvs" and y: "y \<in> set kvs'" and st: "delim s" "delim t" and eq: "?f x @ s = ?f y @ t"
    obtain k v k' v' where kv: "x = (k, v)" "y = (k', v')" by fastforce
    have ok: "utf8_valid k" "utf8_valid k'" "json_ok v" "json_ok v'"
      using JObj.prems(1,2) x y by (auto simp: j' kv list_all_iff)
    from eq have "json_quote k @ (CHR '':'' # render v @ s) = json_quote k' @ (CHR '':'' # render v' @ t)"
      by (simp add: kv)
    with ok json_quote_cancel have "k = k'" and "render v @ s = render v' @ t" by blast+
    moreover have "v = v' \<and> s = t"
      by (rule JObj.IH [OF x _ ok(3,4) st calculation(2)]) (simp add: kv)
    ultimately show "x = y \<and> s = t" by (simp add: kv)
  qed (use JObj.prems(5) in \<open>auto simp: j' json_quote_def\<close>)
  with j' show ?case by simp
next
  case JNull
  from render_same_kind [OF JNull.prems(5)] have "j' = JNull" by (cases j') auto
  with JNull.prems(5) show ?case by simp
next
  case (JBool b)
  from render_same_kind [OF JBool.prems(5)] have "j' = JBool b" by (cases j') auto
  with JBool.prems(5) show ?case by simp
qed

text \<open>Different values with valid strings never render to the same bytes.\<close>

lemma render_inject: "json_ok j \<Longrightarrow> json_ok j' \<Longrightarrow> render j = render j' \<longleftrightarrow> j = j'"
  using render_cancel [of j j' "[]" "[]"] by auto

end
