(* ===== verification/Kube_Types.thy ===== *)
theory Kube_Types
  imports Go_Json
begin

section \<open>The Kubernetes objects the program reads\<close>

text \<open>
  The fields of \<^verbatim>\<open>apps/v1\<close> Deployments, and of the pod and container specifications inside them, that
  the program reads. The types come from \<^verbatim>\<open>k8s.io/api\<close>, which is not part of the repository. Values
  the program copies without looking inside (security contexts, volumes, probes, affinities, ...) are
  values of a type variable \<open>'k\<close>; what the program needs of those packages is the record \<open>lib\<close> of
  functions every model function that reaches them takes as its first argument:

  \<^item> \<open>marshalExt\<close>: the JSON form of a copied upstream value, or the error its encoder reports;
  \<^item> \<open>decString\<close>: \<^verbatim>\<open>inf.NewDecBig(unscaled, scale).String()\<close>.

  A \<^verbatim>\<open>resource.Quantity\<close> is represented by what its \<^verbatim>\<open>AsDec()\<close> returns, an unscaled integer and
  a decimal scale.
\<close>

record quantity =
  q_unscaled :: int
  q_scale :: int

record 'k lib =
  marshalExt :: "'k \<Rightarrow> string + json"
  decString :: "int \<Rightarrow> int \<Rightarrow> string"

record resource_requirements =
  rr_Requests :: "quantity smap"
  rr_Limits :: "quantity smap"

record 'k env_var =
  ev_Name :: string
  ev_Value :: string
  ev_ValueFrom :: "'k option"

record 'k container =
  c_Name :: string
  c_Image :: string
  c_Command :: "string slice"
  c_Args :: "string slice"
  c_WorkingDir :: string
  c_Env :: "'k env_var slice"
  c_EnvFrom :: "'k slice"
  c_Ports :: "'k slice"
  c_ImagePullPolicy :: string
  c_Resources :: resource_requirements
  c_VolumeMounts :: "'k slice"
  c_VolumeDevices :: "'k slice"
  c_SecurityContext :: "'k option"
  c_LivenessProbe :: "'k option"
  c_ReadinessProbe :: "'k option"
  c_StartupProbe :: "'k option"
  c_Lifecycle :: "'k option"
  c_RestartPolicy :: "string option"

record 'k pod_spec =
  ps_InitContainers :: "'k container slice"
  ps_Containers :: "'k container slice"
  ps_ServiceAccountName :: string
  ps_AutomountServiceAccountToken :: "bool option"
  ps_ImagePullSecrets :: "'k slice"
  ps_HostNetwork :: bool
  ps_HostPID :: bool
  ps_HostIPC :: bool
  ps_HostUsers :: "bool option"
  ps_RuntimeClassName :: "string option"
  ps_SecurityContext :: "'k option"
  ps_ShareProcessNamespace :: "bool option"
  ps_Volumes :: "'k slice"
  ps_ResourceClaims :: "'k slice"
  ps_HostAliases :: "'k slice"
  ps_DNSPolicy :: string
  ps_DNSConfig :: "'k option"
  ps_Hostname :: string
  ps_Subdomain :: string
  ps_SetHostnameAsFQDN :: "bool option"
  ps_EnableServiceLinks :: "bool option"
  ps_NodeSelector :: "string smap"
  ps_NodeName :: string
  ps_SchedulerName :: string
  ps_Affinity :: "'k option"
  ps_Tolerations :: "'k slice"
  ps_TopologySpreadConstraints :: "'k slice"
  ps_PriorityClassName :: string
  ps_PreemptionPolicy :: "string option"
  ps_SchedulingGates :: "'k slice"
  ps_OS :: "'k option"

record label_selector_requirement =
  lsr_Key :: string
  lsr_Operator :: string
  lsr_Values :: "string slice"

record label_selector =
  ls_MatchLabels :: "string smap"
  ls_MatchExpressions :: "label_selector_requirement slice"

record deployment_status =
  st_ObservedGeneration :: int64
  st_Replicas :: int32
  st_UpdatedReplicas :: int32
  st_ReadyReplicas :: int32
  st_AvailableReplicas :: int32

record 'k deployment =
  d_Namespace :: string
  d_Name :: string
  d_Labels :: "string smap"
  d_Annotations :: "string smap"
  d_Generation :: int64
  d_Replicas :: "int32 option"
  d_Selector :: "label_selector option"
  d_TemplateLabels :: "string smap"
  d_PodSpec :: "'k pod_spec"
  d_Status :: deployment_status

subsection \<open>Zero values\<close>

text \<open>The Go zero values of the structs, on which concrete objects are built field by field.\<close>

definition zero_container :: "'k container" where
  "zero_container =
     \<lparr>c_Name = [], c_Image = [], c_Command = None, c_Args = None, c_WorkingDir = [], c_Env = None,
      c_EnvFrom = None, c_Ports = None, c_ImagePullPolicy = [],
      c_Resources = \<lparr>rr_Requests = None, rr_Limits = None\<rparr>, c_VolumeMounts = None,
      c_VolumeDevices = None, c_SecurityContext = None, c_LivenessProbe = None,
      c_ReadinessProbe = None, c_StartupProbe = None, c_Lifecycle = None, c_RestartPolicy = None\<rparr>"

definition zero_pod_spec :: "'k pod_spec" where
  "zero_pod_spec =
     \<lparr>ps_InitContainers = None, ps_Containers = None, ps_ServiceAccountName = [],
      ps_AutomountServiceAccountToken = None, ps_ImagePullSecrets = None, ps_HostNetwork = False,
      ps_HostPID = False, ps_HostIPC = False, ps_HostUsers = None, ps_RuntimeClassName = None,
      ps_SecurityContext = None, ps_ShareProcessNamespace = None, ps_Volumes = None,
      ps_ResourceClaims = None, ps_HostAliases = None, ps_DNSPolicy = [], ps_DNSConfig = None,
      ps_Hostname = [], ps_Subdomain = [], ps_SetHostnameAsFQDN = None, ps_EnableServiceLinks = None,
      ps_NodeSelector = None, ps_NodeName = [], ps_SchedulerName = [], ps_Affinity = None,
      ps_Tolerations = None, ps_TopologySpreadConstraints = None, ps_PriorityClassName = [],
      ps_PreemptionPolicy = None, ps_SchedulingGates = None, ps_OS = None\<rparr>"

definition zero_deployment :: "'k deployment" where
  "zero_deployment =
     \<lparr>d_Namespace = [], d_Name = [], d_Labels = None, d_Annotations = None, d_Generation = 0,
      d_Replicas = None, d_Selector = None, d_TemplateLabels = None, d_PodSpec = zero_pod_spec,
      d_Status = \<lparr>st_ObservedGeneration = 0, st_Replicas = 0, st_UpdatedReplicas = 0,
                  st_ReadyReplicas = 0, st_AvailableReplicas = 0\<rparr>\<rparr>"

lemmas zero_defs = zero_container_def zero_pod_spec_def zero_deployment_def

text \<open>A Deployment with one container, the smallest object the examples of the development use.\<close>

definition one_container :: "string \<Rightarrow> string \<Rightarrow> 'k container \<Rightarrow> 'k deployment" where
  "one_container ns name c =
     zero_deployment\<lparr>d_Namespace := ns, d_Name := name, d_Labels := Some [(''app'', name)],
       d_Selector := Some \<lparr>ls_MatchLabels = Some [(''app'', name)], ls_MatchExpressions = None\<rparr>,
       d_TemplateLabels := Some [(''app'', name)],
       d_PodSpec := zero_pod_spec\<lparr>ps_Containers := Some [c]\<rparr>\<rparr>"

definition nginx :: "string \<Rightarrow> 'k container" where
  "nginx img = zero_container\<lparr>c_Name := ''nginx'', c_Image := img\<rparr>"

end
