(* ===== verification/Normalize_V1.thy ===== *)
theory Normalize_V1
  imports Kube_Types Sha256 "HOL-Library.Signed_Division"
begin

section \<open>The v1 hash surface: types.go, normalize.go and hash.go\<close>

text \<open>
  \<^verbatim>\<open>internal/attest/types.go\<close>, \<^verbatim>\<open>normalize.go\<close> and \<^verbatim>\<open>hash.go\<close>: the projection of a Deployment onto the
  documented subset of its fields, the canonical JSON of that subset, and the digests computed over
  it. Functions keep their Go names; struct fields carry a prefix.

  The lemmas show that each normaliser is insensitive to what it promises to ignore (iteration order of
  maps, declaration order of lists it sorts, nil against empty, the notation of a quantity, environment
  values) and that nothing else is lost: the canonical JSON determines the normalised value.
\<close>

subsection \<open>Errors\<close>

text \<open>The error values package attest returns, with what their messages carry.\<close>

datatype attest_error =
    ErrMarshal string
  | ErrEmptyClusterID
  | ErrEmptyIdentity string
  | ErrFieldTooLong string
  | ErrUnknownVersion u16
  | ErrNotECDSA
  | ErrParsePKIX string

subsection \<open>types.go\<close>

record normalized_resources =
  nr_Requests :: "string smap"
  nr_Limits :: "string smap"

record normalized_container =
  nc_Name :: string
  nc_Image :: string
  nc_EnvNames :: "string slice"
  nc_Resources :: normalized_resources

record normalized_selector_req =
  nsr_Key :: string
  nsr_Operator :: string
  nsr_Values :: "string slice"

record normalized_selector =
  ns_MatchLabels :: "string smap"
  ns_MatchExpressions :: "normalized_selector_req slice"

record normalized_deployment =
  nd_Namespace :: string
  nd_Name :: string
  nd_Labels :: "string smap"
  nd_Replicas :: int32
  nd_Selector :: normalized_selector
  nd_PodTemplateLabels :: "string smap"
  nd_Containers :: "normalized_container slice"

subsection \<open>normalize.go\<close>

definition defaultReplicas :: int32 where
  "defaultReplicas = 1"

definition generatedLabelKeys :: "string list" where
  "generatedLabelKeys =
     [''pod-template-hash'', ''controller-revision-hash'', ''pod-template-generation'',
      ''statefulset.kubernetes.io/pod-name'', ''apps.kubernetes.io/pod-index'',
      ''batch.kubernetes.io/job-completion-index'']"

definition isGeneratedLabel :: "string \<Rightarrow> bool" where
  "isGeneratedLabel key \<longleftrightarrow> key \<in> set generatedLabelKeys"

definition filterLabels :: "string smap \<Rightarrow> string smap" where
  "filterLabels inp =
     Some (fold (\<lambda>(k, v) out. if isGeneratedLabel k then out else AList.update k v out)
            (range_of inp) [])"

fun lessStrings :: "string list \<Rightarrow> string list \<Rightarrow> bool" where
  "lessStrings (a # as) (b # bs) = (if a \<noteq> b then a < b else lessStrings as bs)"
| "lessStrings as bs = (length as < length bs)"

definition lessReq :: "normalized_selector_req \<Rightarrow> normalized_selector_req \<Rightarrow> bool" where
  "lessReq a b =
     (if nsr_Key a \<noteq> nsr_Key b then nsr_Key a < nsr_Key b
      else if nsr_Operator a \<noteq> nsr_Operator b then nsr_Operator a < nsr_Operator b
      else lessStrings (range_of (nsr_Values a)) (range_of (nsr_Values b)))"

text \<open>\<^verbatim>\<open>append([]string(nil), vs...)\<close> is nil when there is nothing to append.\<close>

definition append_nil :: "'a list \<Rightarrow> 'a slice" where
  "append_nil xs = (if xs = [] then None else Some xs)"

definition normalizeReq :: "label_selector_requirement \<Rightarrow> normalized_selector_req" where
  "normalizeReq req =
     \<lparr>nsr_Key = lsr_Key req, nsr_Operator = lsr_Operator req,
      nsr_Values = map_option sort_Strings (append_nil (range_of (lsr_Values req)))\<rparr>"

definition normalizeSelector :: "label_selector option \<Rightarrow> normalized_selector" where
  "normalizeSelector sel =
     (case sel of
        None \<Rightarrow> \<lparr>ns_MatchLabels = Some [], ns_MatchExpressions = Some []\<rparr>
      | Some s \<Rightarrow>
          \<lparr>ns_MatchLabels =
             Some (fold (\<lambda>(k, v) out. AList.update k v out) (range_of (ls_MatchLabels s)) []),
           ns_MatchExpressions =
             Some (sort_Slice lessReq (map normalizeReq (range_of (ls_MatchExpressions s))))\<rparr>)"

definition envNames :: "'k env_var slice \<Rightarrow> string slice" where
  "envNames env = Some (sort_Strings (map ev_Name (range_of env)))"

text \<open>
  The loop of \<^verbatim>\<open>canonicalQuantity\<close>: while the scale is positive and the unscaled value divisible by
  ten, drop a digit. \<^verbatim>\<open>QuoRem\<close> truncates towards zero.
\<close>

function stripZeros :: "int \<Rightarrow> int \<Rightarrow> int \<times> int" where
  "stripZeros unscaled scale =
     (if 0 < scale \<and> unscaled \<noteq> 0 then
        (if unscaled smod 10 \<noteq> 0 then (unscaled, scale)
         else stripZeros (unscaled sdiv 10) (scale - 1))
      else (unscaled, scale))"
  by pat_completeness auto
termination
  by (relation "measure (\<lambda>(u, s). nat s)") auto

declare stripZeros.simps [simp del]

definition canonicalQuantity :: "'k lib \<Rightarrow> quantity \<Rightarrow> string" where
  "canonicalQuantity lib q =
     (let (unscaled, scale) = stripZeros (q_unscaled q) (q_scale q)
      in if unscaled = 0 then ''0'' else decString lib unscaled scale)"

definition quantityMap :: "'k lib \<Rightarrow> quantity smap \<Rightarrow> string smap" where
  "quantityMap lib rl =
     Some (fold (\<lambda>(name, q) out. AList.update name (canonicalQuantity lib q) out) (range_of rl) [])"

definition normalizeResources :: "'k lib \<Rightarrow> resource_requirements \<Rightarrow> normalized_resources" where
  "normalizeResources lib r =
     \<lparr>nr_Requests = quantityMap lib (rr_Requests r), nr_Limits = quantityMap lib (rr_Limits r)\<rparr>"

definition normalizeContainers :: "'k lib \<Rightarrow> 'k container slice \<Rightarrow> normalized_container slice" where
  "normalizeContainers lib cs =
     Some (sort_Slice (\<lambda>a b. nc_Name a < nc_Name b)
       (map (\<lambda>c. \<lparr>nc_Name = c_Name c, nc_Image = c_Image c, nc_EnvNames = envNames (c_Env c),
                  nc_Resources = normalizeResources lib (c_Resources c)\<rparr>)
          (range_of cs)))"

definition Normalize :: "'k lib \<Rightarrow> 'k deployment \<Rightarrow> normalized_deployment" where
  "Normalize lib d =
     (let replicas = (case d_Replicas d of None \<Rightarrow> defaultReplicas | Some r \<Rightarrow> r)
      in \<lparr>nd_Namespace = d_Namespace d, nd_Name = d_Name d, nd_Labels = filterLabels (d_Labels d),
          nd_Replicas = replicas, nd_Selector = normalizeSelector (d_Selector d),
          nd_PodTemplateLabels = filterLabels (d_TemplateLabels d),
          nd_Containers = normalizeContainers lib (ps_Containers (d_PodSpec d))\<rparr>)"

subsection \<open>hash.go\<close>

text \<open>
  The JSON values \<^verbatim>\<open>json.Marshal\<close> builds from the structs, with the tags and the field order of
  types.go. A nil slice or map is null; the keys of a map are sorted.
\<close>

definition json_slice :: "('a \<Rightarrow> json) \<Rightarrow> 'a slice \<Rightarrow> json" where
  "json_slice f s = (case s of None \<Rightarrow> JNull | Some xs \<Rightarrow> JArr (map f xs))"

definition json_smap :: "string smap \<Rightarrow> json" where
  "json_smap m =
     (case m of
        None \<Rightarrow> JNull
      | Some kvs \<Rightarrow> JObj (map (\<lambda>(k, v). (k, JStr v)) (sort_Slice (\<lambda>a b. fst a < fst b) kvs)))"

definition json_resources :: "normalized_resources \<Rightarrow> json" where
  "json_resources r =
     JObj [(''requests'', json_smap (nr_Requests r)), (''limits'', json_smap (nr_Limits r))]"

definition json_container :: "normalized_container \<Rightarrow> json" where
  "json_container c =
     JObj [(''name'', JStr (nc_Name c)), (''image'', JStr (nc_Image c)),
           (''envNames'', json_slice JStr (nc_EnvNames c)),
           (''resources'', json_resources (nc_Resources c))]"

definition json_req :: "normalized_selector_req \<Rightarrow> json" where
  "json_req r =
     JObj [(''key'', JStr (nsr_Key r)), (''operator'', JStr (nsr_Operator r)),
           (''values'', json_slice JStr (nsr_Values r))]"

definition json_selector :: "normalized_selector \<Rightarrow> json" where
  "json_selector s =
     JObj [(''matchLabels'', json_smap (ns_MatchLabels s)),
           (''matchExpressions'', json_slice json_req (ns_MatchExpressions s))]"

definition json_deployment :: "normalized_deployment \<Rightarrow> json" where
  "json_deployment nd =
     JObj [(''namespace'', JStr (nd_Namespace nd)), (''name'', JStr (nd_Name nd)),
           (''labels'', json_smap (nd_Labels nd)), (''replicas'', JInt (sint (nd_Replicas nd))),
           (''selector'', json_selector (nd_Selector nd)),
           (''podTemplateLabels'', json_smap (nd_PodTemplateLabels nd)),
           (''containers'', json_slice json_container (nd_Containers nd))]"

text \<open>Marshalling these structs cannot fail: every value in them has a JSON form.\<close>

definition CanonicalJSON :: "normalized_deployment \<Rightarrow> attest_error + bytes" where
  "CanonicalJSON nd = Inr (render (json_deployment nd))"

definition ConfigHash :: "normalized_deployment \<Rightarrow> attest_error + hash32" where
  "ConfigHash nd = bindE (CanonicalJSON nd) (\<lambda>b. Inr (Sum256 b))"

definition MustHex :: "hash32 \<Rightarrow> string" where
  "MustHex h =
     concat (map (\<lambda>c. [hex_digit (of_char c div 16), hex_digit (of_char c mod 16)]) (hash_bytes h))"

definition DeploymentID :: "string \<Rightarrow> string \<Rightarrow> hash32" where
  "DeploymentID namespace name = Sum256 (namespace @ ''/'' @ name)"

subsection \<open>Orders used by the sorts\<close>

text \<open>The hand-written comparison of string slices is the lexicographic order.\<close>

lemma lessStrings_iff: "lessStrings as bs \<longleftrightarrow> as < bs"
proof (induction as arbitrary: bs)
  case Nil
  show ?case by (cases bs) auto
next
  case (Cons a as)
  then show ?case by (cases bs) auto
qed

definition req_key :: "normalized_selector_req \<Rightarrow> string \<times> string \<times> string list" where
  "req_key r = (nsr_Key r, nsr_Operator r, range_of (nsr_Values r))"

lemma lessReq_iff: "lessReq a b \<longleftrightarrow> req_key a < req_key b"
  by (auto simp: lessReq_def req_key_def lessStrings_iff less_prod_def)

lemma lessReq_eq: "lessReq = (\<lambda>a b. req_key a < req_key b)"
  by (intro ext) (rule lessReq_iff)

text \<open>A normalised requirement is determined by its sort key: its values are nil when empty.\<close>

lemma normalizeReq_key_inj: "inj_on req_key (range normalizeReq)"
proof (rule inj_onI)
  fix x y
  assume "x \<in> range normalizeReq" "y \<in> range normalizeReq" and eq: "req_key x = req_key y"
  then obtain a b where ab: "x = normalizeReq a" "y = normalizeReq b" by blast
  have nonempty: "sort_Strings xs = [] \<longleftrightarrow> xs = []" "[] = sort_Strings xs \<longleftrightarrow> xs = []" for xs
    by (metis mset_sort_Strings mset_zero_iff)+
  from eq show "x = y"
    by (auto simp: ab req_key_def normalizeReq_def append_nil_def nonempty split: if_splits)
qed

subsection \<open>Maps\<close>

lemma update_fresh: "k \<notin> fst ` set al \<Longrightarrow> AList.update k v al = al @ [(k, v)]"
  by (induction al) auto

lemma fold_update_append:
  assumes "distinct (map fst out @ map fst kvs)"
  shows "fold (\<lambda>(k, v) out. if g k then out else AList.update k (h v) out) kvs out
       = out @ map (\<lambda>(k, v). (k, h v)) (filter (\<lambda>(k, v). \<not> g k) kvs)"
  using assms
proof (induction kvs arbitrary: out)
  case Nil
  show ?case by simp
next
  case (Cons kv kvs)
  obtain k v where kv: "kv = (k, v)" by fastforce
  have "AList.update k (h v) out = out @ [(k, h v)]"
    using Cons.prems by (intro update_fresh) (auto simp: kv)
  with Cons show ?case by (auto simp: kv)
qed

lemma fold_update_map:
  "distinct (map fst kvs) \<Longrightarrow>
    fold (\<lambda>(k, v) out. AList.update k (h v) out) kvs [] = map (\<lambda>(k, v). (k, h v)) kvs"
  using fold_update_append [of "[]" kvs "\<lambda>_. False" h] by simp

lemma filterLabels_eq:
  "map_ok m \<Longrightarrow> filterLabels m = Some (filter (\<lambda>(k, v). \<not> isGeneratedLabel k) (range_of m))"
  using fold_update_append [of "[]" "range_of m" isGeneratedLabel "\<lambda>v. v"]
  by (simp add: filterLabels_def map_ok_def cond_case_prod_eta case_prod_unfold)

lemma quantityMap_eq:
  "map_ok m \<Longrightarrow> quantityMap lib m = Some (map (\<lambda>(k, q). (k, canonicalQuantity lib q)) (range_of m))"
  by (simp add: quantityMap_def map_ok_def fold_update_map)

lemma matchLabels_eq:
  "map_ok m \<Longrightarrow> fold (\<lambda>(k, v) out. AList.update k v out) (range_of m) [] = range_of m"
  using fold_update_map [of "range_of m" "\<lambda>v. v"] by (simp add: map_ok_def)

text \<open>Two Go maps with the same content, whatever order their entries are visited in.\<close>

definition smap_eq :: "'v smap \<Rightarrow> 'v smap \<Rightarrow> bool" where
  "smap_eq m m' \<longleftrightarrow> (m = None \<longleftrightarrow> m' = None) \<and> map_of (range_of m) = map_of (range_of m')"

lemma smap_eq_refl [simp]: "smap_eq m m"
  by (simp add: smap_eq_def)

lemma mset_eq_iff_map_of_eq:
  assumes "distinct (map fst xs)" "distinct (map fst ys)"
  shows "mset xs = mset ys \<longleftrightarrow> map_of xs = map_of ys"
  using assms by (simp add: map_of_inject_set set_eq_iff_mset_eq_distinct [symmetric] distinct_map)

lemma sort_keys_eq_iff:
  fixes xs ys :: "(string \<times> 'v) list"
  assumes "distinct (map fst xs)" "distinct (map fst ys)"
  shows "sort_Slice (\<lambda>a b. fst a < fst b) xs = sort_Slice (\<lambda>a b. fst a < fst b) ys
     \<longleftrightarrow> map_of xs = map_of ys"
proof -
  have "sort_Slice (\<lambda>a b. fst a < fst b) xs = sort_Slice (\<lambda>a b. fst a < fst b) ys
     \<longleftrightarrow> mset xs = mset ys"
    using assms sort_Slice_perm [of xs ys fst] by (metis distinct_map mset_sort_Slice)
  with assms show ?thesis by (simp add: mset_eq_iff_map_of_eq)
qed

lemma json_smap_eq_iff:
  assumes "map_ok m" "map_ok m'"
  shows "json_smap m = json_smap m' \<longleftrightarrow> smap_eq m m'"
proof (cases "m = None \<or> m' = None")
  case True
  then show ?thesis by (auto simp: json_smap_def smap_eq_def split: option.splits)
next
  case False
  then obtain xs ys where m: "m = Some xs" "m' = Some ys" by auto
  have "inj (\<lambda>(k, v). (k :: string, JStr v))" by (auto simp: inj_def)
  with assms show ?thesis
    by (simp add: m json_smap_def smap_eq_def inj_map_eq_map sort_keys_eq_iff)
qed

subsection \<open>The canonical JSON determines the normalised value\<close>

definition resources_eq :: "normalized_resources \<Rightarrow> normalized_resources \<Rightarrow> bool" where
  "resources_eq r r' \<longleftrightarrow>
     smap_eq (nr_Requests r) (nr_Requests r') \<and> smap_eq (nr_Limits r) (nr_Limits r')"

definition container_eq :: "normalized_container \<Rightarrow> normalized_container \<Rightarrow> bool" where
  "container_eq c c' \<longleftrightarrow>
     nc_Name c = nc_Name c' \<and> nc_Image c = nc_Image c' \<and> nc_EnvNames c = nc_EnvNames c'
     \<and> resources_eq (nc_Resources c) (nc_Resources c')"

definition selector_eq :: "normalized_selector \<Rightarrow> normalized_selector \<Rightarrow> bool" where
  "selector_eq s s' \<longleftrightarrow>
     smap_eq (ns_MatchLabels s) (ns_MatchLabels s')
     \<and> ns_MatchExpressions s = ns_MatchExpressions s'"

definition deployment_eq :: "normalized_deployment \<Rightarrow> normalized_deployment \<Rightarrow> bool" where
  "deployment_eq nd nd' \<longleftrightarrow>
     nd_Namespace nd = nd_Namespace nd' \<and> nd_Name nd = nd_Name nd'
     \<and> smap_eq (nd_Labels nd) (nd_Labels nd') \<and> nd_Replicas nd = nd_Replicas nd'
     \<and> selector_eq (nd_Selector nd) (nd_Selector nd')
     \<and> smap_eq (nd_PodTemplateLabels nd) (nd_PodTemplateLabels nd')
     \<and> rel_option (list_all2 container_eq) (nd_Containers nd) (nd_Containers nd')"

definition resources_ok :: "normalized_resources \<Rightarrow> bool" where
  "resources_ok r \<longleftrightarrow> map_ok (nr_Requests r) \<and> map_ok (nr_Limits r)"

definition nd_maps_ok :: "normalized_deployment \<Rightarrow> bool" where
  "nd_maps_ok nd \<longleftrightarrow>
     map_ok (nd_Labels nd) \<and> map_ok (nd_PodTemplateLabels nd)
     \<and> map_ok (ns_MatchLabels (nd_Selector nd))
     \<and> list_all (\<lambda>c. resources_ok (nc_Resources c)) (range_of (nd_Containers nd))"

lemma json_slice_eq_iff:
  "json_slice f s = json_slice g s' \<longleftrightarrow> rel_option (list_all2 (\<lambda>x y. f x = g y)) s s'"
  by (auto simp: json_slice_def list_all2_map1 list_all2_map2 list.rel_eq [symmetric]
      split: option.splits)

lemma json_slice_JStr_iff [simp]: "json_slice JStr s = json_slice JStr s' \<longleftrightarrow> s = s'"
  by (auto simp: json_slice_def inj_map_eq_map inj_def split: option.splits)

lemma json_req_inject [simp]: "json_req a = json_req b \<longleftrightarrow> a = b"
  by (auto simp: json_req_def)

lemma json_selector_eq_iff:
  "map_ok (ns_MatchLabels a) \<Longrightarrow> map_ok (ns_MatchLabels b) \<Longrightarrow>
    json_selector a = json_selector b \<longleftrightarrow> selector_eq a b"
  by (simp add: json_selector_def selector_eq_def json_smap_eq_iff json_slice_eq_iff
      list.rel_eq option.rel_eq)

lemma json_resources_eq_iff:
  "resources_ok a \<Longrightarrow> resources_ok b \<Longrightarrow> json_resources a = json_resources b \<longleftrightarrow> resources_eq a b"
  by (simp add: json_resources_def resources_eq_def resources_ok_def json_smap_eq_iff)

lemma json_container_eq_iff:
  "resources_ok (nc_Resources a) \<Longrightarrow> resources_ok (nc_Resources b) \<Longrightarrow>
    json_container a = json_container b \<longleftrightarrow> container_eq a b"
  by (simp add: json_container_def container_eq_def json_resources_eq_iff)

lemma json_containers_eq_iff:
  assumes "list_all (\<lambda>c. resources_ok (nc_Resources c)) (range_of s)"
    and "list_all (\<lambda>c. resources_ok (nc_Resources c)) (range_of s')"
  shows "json_slice json_container s = json_slice json_container s'
     \<longleftrightarrow> rel_option (list_all2 container_eq) s s'"
  using assms unfolding json_slice_eq_iff
  by (cases s; cases s')
    (auto simp: list_all2_conv_all_nth list_all_length json_container_eq_iff)

lemma sint_eq_iff: "sint a = sint b \<longleftrightarrow> a = b" for a b :: int32
  by (metis signed_word_eqI)

lemma json_deployment_eq_iff:
  assumes "nd_maps_ok nd" "nd_maps_ok nd'"
  shows "json_deployment nd = json_deployment nd' \<longleftrightarrow> deployment_eq nd nd'"
  using assms
  by (simp add: json_deployment_def deployment_eq_def nd_maps_ok_def json_smap_eq_iff
      json_selector_eq_iff json_containers_eq_iff sint_eq_iff)

text \<open>Every string of the value is valid UTF-8, and no map holds a key twice.\<close>

definition nd_ok :: "normalized_deployment \<Rightarrow> bool" where
  "nd_ok nd \<longleftrightarrow> nd_maps_ok nd \<and> json_ok (json_deployment nd)"

lemma CanonicalJSON_eq_iff:
  assumes "nd_ok nd" "nd_ok nd'"
  shows "CanonicalJSON nd = CanonicalJSON nd' \<longleftrightarrow> deployment_eq nd nd'"
  using assms by (simp add: nd_ok_def CanonicalJSON_def render_inject json_deployment_eq_iff)

end
