(* ===== verification/Quantity.thy ===== *)
theory Quantity
  imports Normalize_V1 Complex_Main
begin

section \<open>Resource quantities are hashed by value\<close>

text \<open>
  \<^verbatim>\<open>canonicalQuantity\<close> of normalize.go promises one string per value, whatever notation the author of
  a manifest used. The value of a quantity is a rational number; \<open>canon_dec\<close> is the decimal the
  loop arrives at, and it is a normal form: two quantities have the same value exactly when they have
  the same \<open>canon_dec\<close>. The printer of \<^verbatim>\<open>gopkg.in/inf.v0\<close> enters through the hypothesis
  \<open>dec_printer\<close>: a decimal with a non-positive scale prints as the integer it denotes, zero prints as
  0, and different decimals in normal form print differently.
\<close>

definition q_value :: "quantity \<Rightarrow> rat" where
  "q_value q = of_int (q_unscaled q) * 10 powi (- q_scale q)"

definition dec_printer :: "'k lib \<Rightarrow> bool" where
  "dec_printer lib \<longleftrightarrow>
     (\<forall>u s. s \<le> 0 \<longrightarrow> decString lib u s = decString lib (u * 10 ^ nat (- s)) 0)
     \<and> decString lib 0 0 = ''0''
     \<and> inj_on (\<lambda>(u, s). decString lib u s) {(u, s). s = 0 \<or> 0 < s \<and> \<not> 10 dvd u}"

definition canon_dec :: "quantity \<Rightarrow> int \<times> int" where
  "canon_dec q =
     (let (u, s) = stripZeros (q_unscaled q) (q_scale q)
      in if u = 0 then (0, 0) else if s \<le> 0 then (u * 10 ^ nat (- s), 0) else (u, s))"

lemma smod_10_eq_0: "u smod 10 = 0 \<longleftrightarrow> 10 dvd u" for u :: int
  by (auto simp: smod_int_alt_def sgn_eq_0_iff dvd_eq_mod_eq_0 [symmetric])

lemma sdiv_10_exact: "10 dvd u \<Longrightarrow> u = (u sdiv 10) * 10" for u :: int
  by (auto simp: signed_divide_int_def sgn_if)

lemma stripZeros_value:
  "stripZeros u s = (u', s') \<Longrightarrow> of_int u * (10 :: rat) powi (- s) = of_int u' * 10 powi (- s')"
proof (induction u s rule: stripZeros.induct)
  case (1 u s)
  show ?case
  proof (cases "0 < s \<and> u \<noteq> 0 \<and> 10 dvd u")
    case True
    then have "stripZeros (u sdiv 10) (s - 1) = (u', s')"
      using "1.prems" by (simp add: stripZeros.simps [of u s] smod_10_eq_0)
    then have "of_int (u sdiv 10) * (10 :: rat) powi (- (s - 1)) = of_int u' * 10 powi (- s')"
      using True "1.IH" by (simp add: smod_10_eq_0)
    moreover have "(10 :: rat) powi (- (s - 1)) = 10 * 10 powi (- s)"
      by (simp add: power_int_diff power_int_minus divide_inverse)
    moreover have "(of_int u :: rat) = of_int (u sdiv 10) * 10"
      using sdiv_10_exact [of u] True by (metis of_int_mult of_int_numeral)
    ultimately show ?thesis by (simp add: ac_simps)
  next
    case False
    with "1.prems" show ?thesis
      by (auto simp: stripZeros.simps [of u s] smod_10_eq_0 split: if_splits)
  qed
qed

lemma stripZeros_normal:
  "stripZeros u s = (u', s') \<Longrightarrow> 0 < s' \<Longrightarrow> u' = 0 \<or> \<not> 10 dvd u'"
proof (induction u s rule: stripZeros.induct)
  case (1 u s)
  then show ?case
    by (cases "0 < s \<and> u \<noteq> 0 \<and> 10 dvd u")
      (auto simp: stripZeros.simps [of u s] smod_10_eq_0 split: if_splits)
qed

lemma canon_dec_normal: "canon_dec q \<in> {(u, s). s = 0 \<or> 0 < s \<and> \<not> 10 dvd u}"
  using stripZeros_normal [of "q_unscaled q" "q_scale q"]
  by (auto simp: canon_dec_def Let_def split: prod.splits)

lemma canon_dec_value: "of_int (fst (canon_dec q)) * 10 powi (- snd (canon_dec q)) = q_value q"
proof -
  obtain u s where us: "stripZeros (q_unscaled q) (q_scale q) = (u, s)" by fastforce
  note val = stripZeros_value [OF us]
  have "(10 :: rat) ^ nat (- s) = 10 powi (- s)" if "s \<le> 0"
    using that by (simp add: power_int_def)
  with val show ?thesis
    by (auto simp: canon_dec_def us q_value_def)
qed

lemma normal_dec_unique_le:
  assumes "u * 10 powi (- s) = v * (10 :: rat) powi (- t)" "u = of_int a" "v = of_int b"
    and "0 \<le> s" "s \<le> t" "t = 0 \<or> \<not> 10 dvd b"
  shows "a = b \<and> s = t"
proof -
  have "b = a * 10 ^ nat (t - s)"
  proof -
    have "v = v * 10 powi (- t) * 10 powi t"
      by (simp add: power_int_minus)
    also have "\<dots> = u * 10 powi (- s) * 10 powi t"
      by (simp only: assms(1))
    also have "\<dots> = u * 10 powi (t - s)"
      by (simp add: power_int_diff power_int_minus divide_inverse)
    also have "\<dots> = of_int (a * 10 ^ nat (t - s))"
      using assms(5) by (simp add: assms(2) power_int_def)
    finally show ?thesis by (simp add: assms(3) del: of_int_mult of_int_power)
  qed
  moreover have "s = t"
  proof (rule ccontr)
    assume "s \<noteq> t"
    with assms(4,5) have "0 < t" "0 < nat (t - s)" by auto
    with calculation have "10 dvd b" by (simp add: dvd_mult)
    with assms(6) \<open>0 < t\<close> show False by simp
  qed
  ultimately show ?thesis by simp
qed

lemma canon_dec_eq_iff: "canon_dec p = canon_dec q \<longleftrightarrow> q_value p = q_value q"
proof
  assume eq: "q_value p = q_value q"
  obtain a s b t where p: "canon_dec p = (a, s)" and q: "canon_dec q = (b, t)" by fastforce
  have val: "of_int a * (10 :: rat) powi (- s) = of_int b * 10 powi (- t)"
    using canon_dec_value [of p] canon_dec_value [of q] eq by (simp add: p q)
  have norm: "0 \<le> s" "0 \<le> t" "s = 0 \<or> \<not> 10 dvd a" "t = 0 \<or> \<not> 10 dvd b"
    using canon_dec_normal [of p] canon_dec_normal [of q] by (auto simp: p q)
  show "canon_dec p = canon_dec q"
  proof (cases "s \<le> t")
    case True
    then show ?thesis using normal_dec_unique_le [OF val refl refl] norm by (simp add: p q)
  next
    case False
    then show ?thesis using normal_dec_unique_le [OF val [symmetric] refl refl] norm by (simp add: p q)
  qed
qed (metis canon_dec_value)

lemma canonicalQuantity_canon_dec:
  assumes "dec_printer lib"
  shows "canonicalQuantity lib q = (case canon_dec q of (u, s) \<Rightarrow> decString lib u s)"
proof -
  obtain u s where us: "stripZeros (q_unscaled q) (q_scale q) = (u, s)" by fastforce
  have "decString lib 0 0 = ''0''" "s \<le> 0 \<Longrightarrow> decString lib u s = decString lib (u * 10 ^ nat (- s)) 0"
    using assms unfolding dec_printer_def by blast+
  then show ?thesis
    by (simp add: canonicalQuantity_def canon_dec_def us)
qed

lemma canonicalQuantity_eq_iff_value:
  assumes "dec_printer lib"
  shows "canonicalQuantity lib p = canonicalQuantity lib q \<longleftrightarrow> q_value p = q_value q"
proof -
  have "inj_on (\<lambda>(u, s). decString lib u s) {(u, s). s = 0 \<or> 0 < s \<and> \<not> 10 dvd u}"
    using assms by (simp add: dec_printer_def)
  then have "(case canon_dec p of (u, s) \<Rightarrow> decString lib u s)
      = (case canon_dec q of (u, s) \<Rightarrow> decString lib u s) \<longleftrightarrow> canon_dec p = canon_dec q"
    by (rule inj_on_eq_iff) (rule canon_dec_normal)+
  then show ?thesis
    by (simp add: canonicalQuantity_canon_dec [OF assms] canon_dec_eq_iff)
qed

subsection \<open>The printer exists\<close>

text \<open>
  The decimal format of \<^verbatim>\<open>inf.Dec\<close>: an integer for a non-positive scale, and otherwise exactly
  \<open>scale\<close> digits after the point. It satisfies \<open>dec_printer\<close>.
\<close>

fun pad_digits :: "nat \<Rightarrow> nat \<Rightarrow> string" where
  "pad_digits 0 v = []"
| "pad_digits (Suc n) v = pad_digits n (v div 10) @ [char_of (48 + v mod 10)]"

definition infString :: "int \<Rightarrow> int \<Rightarrow> string" where
  "infString u s =
     (if s \<le> 0 then dec_int (u * 10 ^ nat (- s))
      else (if u < 0 then ''-'' else []) @ dec_nat (nat \<bar>u\<bar> div 10 ^ nat s) @ ''.''
             @ pad_digits (nat s) (nat \<bar>u\<bar> mod 10 ^ nat s))"

definition plain_lib :: "unit lib" where
  "plain_lib = \<lparr>marshalExt = \<lambda>_. Inr JNull, decString = infString\<rparr>"

lemma length_pad_digits [simp]: "length (pad_digits n v) = n"
  by (induction n arbitrary: v) auto

lemma pad_digits_inject: "pad_digits n v = pad_digits n w \<Longrightarrow> v mod 10 ^ n = w mod 10 ^ n"
proof (induction n arbitrary: v w)
  case (Suc n)
  have mod_small: "(48 + x mod 10) mod 256 = 48 + x mod 10" for x :: nat
    by (rule mod_less) (use mod_less_divisor [of 10 x] in linarith)
  from Suc.prems have "pad_digits n (v div 10) = pad_digits n (w div 10)"
    and "(48 + v mod 10) mod 256 = (48 + w mod 10) mod 256"
    by (simp_all only: pad_digits.simps append1_eq_conv char_of_eq_iff simp_thms)
  then have "v div 10 mod 10 ^ n = w div 10 mod 10 ^ n" "v mod 10 = w mod 10"
    by - (rule Suc.IH, assumption, simp only: mod_small add_left_cancel)
  then show ?case by (simp only: power_Suc mod_mult2_eq)
qed simp

lemma dec_nat_no: "CHR ''.'' \<notin> set (dec_nat n)" "CHR ''-'' \<notin> set (dec_nat n)"
  using dec_nat_digits [of n] by (auto simp: is_digit_def)

lemma split_at_point:
  "a @ CHR ''.'' # x = b @ CHR ''.'' # y \<Longrightarrow> CHR ''.'' \<notin> set a \<Longrightarrow> CHR ''.'' \<notin> set b \<Longrightarrow> a = b \<and> x = y"
proof (induction a arbitrary: b)
  case Nil
  then show ?case by (cases b) auto
next
  case (Cons c a)
  then show ?case by (cases b) auto
qed

lemma infString_point: "CHR ''.'' \<in> set (infString u s) \<longleftrightarrow> 0 < s"
  using dec_nat_no by (auto simp: infString_def dec_int_def)

lemma signed_dec_nat_inject:
  fixes m n :: nat
  assumes "(if a < 0 then ''-'' else []) @ dec_nat m = (if b < 0 then ''-'' else []) @ dec_nat n"
  shows "(a < (0::int) \<longleftrightarrow> b < (0::int)) \<and> m = n"
proof -
  have "CHR ''-'' # xs \<noteq> dec_nat k" for xs k
    using dec_nat_no(2) [of k] by (metis list.set_intros(1))
  then have "dec_nat k \<noteq> CHR ''-'' # xs" "CHR ''-'' # xs \<noteq> dec_nat k" for xs k
    by metis+
  with assms show ?thesis by (cases "a < 0"; cases "b < 0") (simp_all add: dec_nat_inject)
qed

lemma infString_fraction_inject:
  assumes "infString u s = infString v t" "0 < s" "0 < t"
  shows "u = v \<and> s = t"
proof -
  let ?sg = "\<lambda>u::int. if u < 0 then ''-'' else []"
  have "(?sg u @ dec_nat (nat \<bar>u\<bar> div 10 ^ nat s)) @ CHR ''.'' # pad_digits (nat s) (nat \<bar>u\<bar> mod 10 ^ nat s)
      = (?sg v @ dec_nat (nat \<bar>v\<bar> div 10 ^ nat t)) @ CHR ''.'' # pad_digits (nat t) (nat \<bar>v\<bar> mod 10 ^ nat t)"
    using assms by (simp add: infString_def)
  from split_at_point [OF this]
  have eq: "?sg u @ dec_nat (nat \<bar>u\<bar> div 10 ^ nat s) = ?sg v @ dec_nat (nat \<bar>v\<bar> div 10 ^ nat t)"
    and fr: "pad_digits (nat s) (nat \<bar>u\<bar> mod 10 ^ nat s) = pad_digits (nat t) (nat \<bar>v\<bar> mod 10 ^ nat t)"
    by (simp_all add: dec_nat_no)
  from fr have "nat s = nat t" by (metis length_pad_digits)
  with assms have st: "s = t" by simp
  have "nat \<bar>u\<bar> mod 10 ^ nat s = nat \<bar>v\<bar> mod 10 ^ nat s"
    using pad_digits_inject [OF fr [folded st]] by simp
  moreover have "u < 0 \<longleftrightarrow> v < 0" and "nat \<bar>u\<bar> div 10 ^ nat s = nat \<bar>v\<bar> div 10 ^ nat s"
    using signed_dec_nat_inject [OF eq] st by auto
  ultimately have "nat \<bar>u\<bar> = nat \<bar>v\<bar>" by (metis div_mult_mod_eq)
  with \<open>u < 0 \<longleftrightarrow> v < 0\<close> show ?thesis using st by auto
qed

lemma infString_inject:
  assumes "infString u s = infString v t" "0 \<le> s" "0 \<le> t"
  shows "u = v \<and> s = t"
proof (cases "0 < s")
  case True
  then have "0 < t" using infString_point [of u s] infString_point [of v t] assms(1) by simp
  with True show ?thesis using infString_fraction_inject assms(1) by blast
next
  case False
  then have "t = 0" "s = 0"
    using infString_point [of u s] infString_point [of v t] assms by auto
  then show ?thesis using assms(1) by (simp add: infString_def dec_int_inject)
qed

lemma dec_printer_plain_lib: "dec_printer plain_lib"
proof -
  have "inj_on (\<lambda>(u, s). infString u s) {(u, s). s = 0 \<or> 0 < s \<and> \<not> 10 dvd u}"
  proof (rule inj_onI)
    fix x y assume "x \<in> {(u, s). s = 0 \<or> 0 < s \<and> \<not> 10 dvd u}" "y \<in> {(u, s). s = 0 \<or> 0 < s \<and> \<not> 10 dvd u}"
      and "(\<lambda>(u, s). infString u s) x = (\<lambda>(u, s). infString u s) y"
    then show "x = y" using infString_inject [of "fst x" "snd x" "fst y" "snd y"]
      by (auto simp: case_prod_unfold prod_eq_iff)
  qed
  moreover have "infString 0 0 = ''0''"
    by (simp add: infString_def dec_int_def dec_nat.simps char_of_def bit_0)
  ultimately show ?thesis by (simp add: dec_printer_def plain_lib_def infString_def)
qed

subsection \<open>The contract of canonicalQuantity\<close>

text \<open>
  C20: two quantities have the same canonical string exactly when they denote the same number, so
  \<^verbatim>\<open>1000m\<close>, \<^verbatim>\<open>1\<close> and \<^verbatim>\<open>1.0\<close> are one value and \<^verbatim>\<open>1\<close> and \<^verbatim>\<open>1001m\<close> are two.
\<close>

theorem canonicalQuantity_by_value:
  assumes "dec_printer lib"
  shows "canonicalQuantity lib p = canonicalQuantity lib q \<longleftrightarrow> q_value p = q_value q"
  by (rule canonicalQuantity_eq_iff_value [OF assms])

text \<open>One core written as 1000m, as 1 and as 1.0, and one written as 1001m.\<close>

theorem canonicalQuantity_by_value_witness:
  "canonicalQuantity plain_lib \<lparr>q_unscaled = 1000, q_scale = 3\<rparr>
     = canonicalQuantity plain_lib \<lparr>q_unscaled = 10, q_scale = 1\<rparr>
   \<and> canonicalQuantity plain_lib \<lparr>q_unscaled = 1001, q_scale = 3\<rparr>
     \<noteq> canonicalQuantity plain_lib \<lparr>q_unscaled = 1, q_scale = 0\<rparr>"
  by (simp add: canonicalQuantity_by_value [OF dec_printer_plain_lib] q_value_def power_int_minus)

end
