(* ===== verification/Surface_V1.thy ===== *)
theory Surface_V1
  imports Quantity
begin

section \<open>What a v1 config hash covers\<close>

text \<open>
  An abstract reading of the v1 hash surface, with finite maps and multisets in place of lists: what
  a Deployment says once iteration order, declaration order, nil against empty, generated labels and
  the default of replicas are forgotten. The refinement lemma says that \<^verbatim>\<open>Normalize\<close> followed by the
  canonical JSON keeps exactly this: two Deployments get the same canonical JSON if and only if they
  have the same abstract surface. The config hash then separates different surfaces up to a SHA-256
  collision, which is exhibited.
\<close>

subsection \<open>The abstract surface\<close>

definition user_labels :: "string smap \<Rightarrow> (string \<rightharpoonup> string)" where
  "user_labels m = (map_of (range_of m)) |` {k. \<not> isGeneratedLabel k}"

definition surface_req ::
  "label_selector_requirement \<Rightarrow> string \<times> string \<times> string multiset" where
  "surface_req r = (lsr_Key r, lsr_Operator r, mset (range_of (lsr_Values r)))"

definition surface_selector :: "label_selector option \<Rightarrow>
    (string \<rightharpoonup> string) \<times> (string \<times> string \<times> string multiset) multiset" where
  "surface_selector sel =
     (case sel of
        None \<Rightarrow> (Map.empty, {#})
      | Some s \<Rightarrow> (map_of (range_of (ls_MatchLabels s)),
                   mset (map surface_req (range_of (ls_MatchExpressions s)))))"

definition surface_quantities :: "'k lib \<Rightarrow> quantity smap \<Rightarrow> (string \<rightharpoonup> string)" where
  "surface_quantities lib m = map_option (canonicalQuantity lib) \<circ> map_of (range_of m)"

definition surface_container :: "'k lib \<Rightarrow> 'k container \<Rightarrow>
    string \<times> string \<times> string multiset \<times> (string \<rightharpoonup> string) \<times> (string \<rightharpoonup> string)" where
  "surface_container lib c =
     (c_Name c, c_Image c, mset (map ev_Name (range_of (c_Env c))),
      surface_quantities lib (rr_Requests (c_Resources c)),
      surface_quantities lib (rr_Limits (c_Resources c)))"

definition surfaceV1 where
  "surfaceV1 lib d =
     (d_Namespace d, d_Name d, user_labels (d_Labels d),
      case d_Replicas d of None \<Rightarrow> 1 | Some r \<Rightarrow> r,
      surface_selector (d_Selector d), user_labels (d_TemplateLabels d),
      mset (map (surface_container lib) (range_of (ps_Containers (d_PodSpec d)))))"

text \<open>
  A Deployment as the API server serves it: map keys are unique, and so are container names.
\<close>

definition dep_ok :: "'k deployment \<Rightarrow> bool" where
  "dep_ok d \<longleftrightarrow>
     map_ok (d_Labels d) \<and> map_ok (d_TemplateLabels d)
     \<and> (\<forall>s. d_Selector d = Some s \<longrightarrow> map_ok (ls_MatchLabels s))
     \<and> distinct (map c_Name (range_of (ps_Containers (d_PodSpec d))))
     \<and> (\<forall>c \<in> set (range_of (ps_Containers (d_PodSpec d))).
          map_ok (rr_Requests (c_Resources c)) \<and> map_ok (rr_Limits (c_Resources c)))"

subsection \<open>Component by component\<close>

lemma map_of_filter_keys: "map_of (filter (\<lambda>(k, v). P k) kvs) = (map_of kvs) |` {k. P k}"
  by (induction kvs) (auto simp: restrict_map_def)

lemma map_of_filterLabels: "map_ok m \<Longrightarrow> map_of (range_of (filterLabels m)) = user_labels m"
  by (simp only: filterLabels_eq range_of_simps map_of_filter_keys user_labels_def)

lemma filterLabels_eq_iff:
  assumes "map_ok m" "map_ok m'"
  shows "smap_eq (filterLabels m) (filterLabels m') \<longleftrightarrow> user_labels m = user_labels m'"
  using assms map_of_filterLabels by (simp add: smap_eq_def filterLabels_eq)

lemma image_mset_eq_transfer:
  assumes "\<And>x y. f x = f y \<longleftrightarrow> g x = g y"
  shows "image_mset f A = image_mset f B \<longleftrightarrow> image_mset g A = image_mset g B"
proof -
  have g: "g x = g (inv f (f x))" and f: "f x = f (inv g (g x))" for x
    using assms by (metis f_inv_into_f rangeI)+
  have "image_mset g X = image_mset (\<lambda>y. g (inv f y)) (image_mset f X)"
    and "image_mset f X = image_mset (\<lambda>y. f (inv g y)) (image_mset g X)" for X
    by (simp_all add: multiset.map_comp comp_def g [symmetric] f [symmetric])
  then show ?thesis by metis
qed

lemma normalizeReq_eq_iff: "normalizeReq a = normalizeReq b \<longleftrightarrow> surface_req a = surface_req b"
  by (auto simp: normalizeReq_def surface_req_def append_nil_def sort_Strings_eq_iff)

lemma sort_reqs_eq_iff:
  "sort_Slice lessReq (map normalizeReq xs) = sort_Slice lessReq (map normalizeReq ys)
     \<longleftrightarrow> mset (map surface_req xs) = mset (map surface_req ys)"
proof -
  have inj: "inj_on req_key (set (map normalizeReq xs))"
    by (rule inj_on_subset [OF normalizeReq_key_inj]) auto
  have "sort_Slice lessReq (map normalizeReq xs) = sort_Slice lessReq (map normalizeReq ys)
      \<longleftrightarrow> mset (map normalizeReq xs) = mset (map normalizeReq ys)"
  proof
    assume "sort_Slice lessReq (map normalizeReq xs) = sort_Slice lessReq (map normalizeReq ys)"
    then show "mset (map normalizeReq xs) = mset (map normalizeReq ys)"
      by (metis mset_sort_Slice)
  next
    assume "mset (map normalizeReq xs) = mset (map normalizeReq ys)"
    then show "sort_Slice lessReq (map normalizeReq xs) = sort_Slice lessReq (map normalizeReq ys)"
      unfolding lessReq_eq by (rule sort_Slice_perm [OF _ inj])
  qed
  also have "\<dots> \<longleftrightarrow> mset (map surface_req xs) = mset (map surface_req ys)"
    using image_mset_eq_transfer [OF normalizeReq_eq_iff] by simp
  finally show ?thesis .
qed

text \<open>A nil selector is the selector with no label and no expression.\<close>

definition sel_parts :: "label_selector option \<Rightarrow>
    (string \<times> string) list \<times> label_selector_requirement list" where
  "sel_parts sel =
     (case sel of
        None \<Rightarrow> ([], [])
      | Some s \<Rightarrow> (range_of (ls_MatchLabels s), range_of (ls_MatchExpressions s)))"

lemma normalizeSelector_parts:
  assumes "\<And>s. sel = Some s \<Longrightarrow> map_ok (ls_MatchLabels s)"
  shows "normalizeSelector sel =
     \<lparr>ns_MatchLabels = Some (fst (sel_parts sel)),
      ns_MatchExpressions = Some (sort_Slice lessReq (map normalizeReq (snd (sel_parts sel))))\<rparr>"
  using assms
  by (cases sel) (simp_all add: normalizeSelector_def sel_parts_def matchLabels_eq sort_Slice_def)

lemma surface_selector_parts:
  "surface_selector sel = (map_of (fst (sel_parts sel)), mset (map surface_req (snd (sel_parts sel))))"
  by (cases sel) (simp_all add: surface_selector_def sel_parts_def)

lemma normalizeSelector_eq_iff:
  assumes "\<And>s. sel = Some s \<Longrightarrow> map_ok (ls_MatchLabels s)"
    and "\<And>s. sel' = Some s \<Longrightarrow> map_ok (ls_MatchLabels s)"
  shows "selector_eq (normalizeSelector sel) (normalizeSelector sel')
     \<longleftrightarrow> surface_selector sel = surface_selector sel'"
  by (simp only: normalizeSelector_parts [OF assms(1)] normalizeSelector_parts [OF assms(2)]
      surface_selector_parts selector_eq_def smap_eq_def normalized_selector.simps range_of_simps
      option.simps sort_reqs_eq_iff prod.inject simp_thms)

lemma map_of_map_values: "map_of (map (\<lambda>(k, v). (k, h v)) kvs) = map_option h \<circ> map_of kvs"
  by (induction kvs) auto

lemma quantityMap_eq_iff:
  assumes "map_ok m" "map_ok m'"
  shows "smap_eq (quantityMap lib m) (quantityMap lib m')
     \<longleftrightarrow> surface_quantities lib m = surface_quantities lib m'"
  using assms by (simp add: quantityMap_eq smap_eq_def surface_quantities_def map_of_map_values)

definition container_maps_ok :: "'k container \<Rightarrow> bool" where
  "container_maps_ok c \<longleftrightarrow> map_ok (rr_Requests (c_Resources c)) \<and> map_ok (rr_Limits (c_Resources c))"

abbreviation normalizeContainer :: "'k lib \<Rightarrow> 'k container \<Rightarrow> normalized_container" where
  "normalizeContainer lib c \<equiv>
     \<lparr>nc_Name = c_Name c, nc_Image = c_Image c, nc_EnvNames = envNames (c_Env c),
      nc_Resources = normalizeResources lib (c_Resources c)\<rparr>"

lemma normalizeContainer_eq_iff:
  assumes "container_maps_ok c" "container_maps_ok c'"
  shows "container_eq (normalizeContainer lib c) (normalizeContainer lib c')
     \<longleftrightarrow> surface_container lib c = surface_container lib c'"
  using assms
  by (auto simp: container_eq_def resources_eq_def normalizeResources_def surface_container_def
      envNames_def sort_Strings_eq_iff quantityMap_eq_iff container_maps_ok_def)

lemma list_all2_container_eq:
  assumes "list_all container_maps_ok xs" "list_all container_maps_ok ys"
  shows "list_all2 container_eq (map (normalizeContainer lib) xs) (map (normalizeContainer lib) ys)
     \<longleftrightarrow> map (surface_container lib) xs = map (surface_container lib) ys"
  using assms
  by (auto simp: list_all2_conv_all_nth list_all_length list_eq_iff_nth_eq normalizeContainer_eq_iff)

lemma sorted_surfaces_eq_iff:
  assumes "distinct (map c_Name xs)"
  shows "map (surface_container lib) (sort_Slice (\<lambda>a b. c_Name a < c_Name b) xs)
       = map (surface_container lib) (sort_Slice (\<lambda>a b. c_Name a < c_Name b) ys)
     \<longleftrightarrow> mset (map (surface_container lib) xs) = mset (map (surface_container lib) ys)"
    (is "?l xs = ?l ys \<longleftrightarrow> _")
proof
  have ms: "mset (?l zs) = mset (map (surface_container lib) zs)" for zs
    by (simp only: mset_map mset_sort_Slice)
  show "mset (map (surface_container lib) xs) = mset (map (surface_container lib) ys)" if "?l xs = ?l ys"
    using that ms by metis
  assume eq: "mset (map (surface_container lib) xs) = mset (map (surface_container lib) ys)"
  have names: "fst \<circ> surface_container lib = c_Name"
    by (auto simp: surface_container_def)
  have sorted: "sorted (map fst (?l zs))" for zs
    using sorted_sort_Slice [of c_Name zs] by (simp add: names)
  have "set (?l xs) = set (map (surface_container lib) xs)"
    using ms [of xs] by (metis set_mset_mset)
  moreover have "inj_on fst (set (map (surface_container lib) xs))"
    using assms by (metis distinct_map list.map_comp names)
  ultimately show "?l xs = ?l ys"
    using sorted_perm_unique [of "?l xs" "?l ys" fst] sorted eq ms by simp
qed

lemma normalizeContainers_eq_iff:
  assumes "list_all container_maps_ok (range_of cs)" "list_all container_maps_ok (range_of cs')"
    and "distinct (map c_Name (range_of cs))"
  shows "rel_option (list_all2 container_eq) (normalizeContainers lib cs) (normalizeContainers lib cs')
     \<longleftrightarrow> mset (map (surface_container lib) (range_of cs)) = mset (map (surface_container lib) (range_of cs'))"
  using assms
  by (simp add: normalizeContainers_def sort_Slice_map list_all2_container_eq list_all_iff
      sorted_surfaces_eq_iff del: mset_map map_map)

subsection \<open>The refinement\<close>

lemma Normalize_eq_iff:
  assumes "dep_ok d" "dep_ok d'"
  shows "deployment_eq (Normalize lib d) (Normalize lib d') \<longleftrightarrow> surfaceV1 lib d = surfaceV1 lib d'"
proof -
  have ok: "list_all container_maps_ok (range_of (ps_Containers (d_PodSpec d)))"
    "list_all container_maps_ok (range_of (ps_Containers (d_PodSpec d')))"
    using assms by (auto simp: dep_ok_def container_maps_ok_def list_all_iff)
  have sel: "selector_eq (normalizeSelector (d_Selector d)) (normalizeSelector (d_Selector d'))
      \<longleftrightarrow> surface_selector (d_Selector d) = surface_selector (d_Selector d')"
    using assms by (intro normalizeSelector_eq_iff) (auto simp: dep_ok_def)
  show ?thesis
    using assms ok
    by (simp add: Normalize_def surfaceV1_def deployment_eq_def dep_ok_def defaultReplicas_def
        filterLabels_eq_iff sel normalizeContainers_eq_iff del: mset_map cong: option.case_cong)
qed

lemma Normalize_maps_ok:
  assumes "dep_ok d"
  shows "nd_maps_ok (Normalize lib d)"
proof -
  have keys: "map fst (map (\<lambda>(k, q). (k, f q)) kvs) = map fst kvs" for f :: "quantity \<Rightarrow> string" and kvs
    by (induction kvs) auto
  have filtered: "distinct (map fst (filter P kvs))" if "distinct (map fst kvs)"
    for P and kvs :: "(string \<times> string) list"
    using that by (rule distinct_map_filter)
  have "map_ok (ns_MatchLabels (normalizeSelector (d_Selector d)))"
    using assms
    by (cases "d_Selector d") (auto simp: dep_ok_def normalizeSelector_def matchLabels_eq map_ok_def)
  then show ?thesis
    using assms
    by (auto simp: dep_ok_def nd_maps_ok_def Normalize_def filterLabels_eq filtered map_ok_def [of "Some _"]
        normalizeContainers_def list_all_iff normalizeResources_def resources_ok_def quantityMap_eq keys
        simp del: map_map) (auto simp: map_ok_def filtered)
qed

subsection \<open>What the canonical JSON and the hash separate\<close>

text \<open>The Deployment is as the API server serves it and its strings are UTF-8.\<close>

definition v1_ok :: "'k lib \<Rightarrow> 'k deployment \<Rightarrow> bool" where
  "v1_ok lib d \<longleftrightarrow> dep_ok d \<and> json_ok (json_deployment (Normalize lib d))"

lemma v1_ok_nd_ok: "v1_ok lib d \<Longrightarrow> nd_ok (Normalize lib d)"
  by (simp add: v1_ok_def nd_ok_def Normalize_maps_ok)

lemma v1_json_eq_iff:
  assumes "v1_ok lib d" "v1_ok lib d'"
  shows "CanonicalJSON (Normalize lib d) = CanonicalJSON (Normalize lib d')
     \<longleftrightarrow> surfaceV1 lib d = surfaceV1 lib d'"
  using CanonicalJSON_eq_iff [OF assms [THEN v1_ok_nd_ok]] Normalize_eq_iff [of d d' lib] assms
  by (simp only: v1_ok_def)

definition v1_bytes :: "'k lib \<Rightarrow> 'k deployment \<Rightarrow> bytes" where
  "v1_bytes lib d = render (json_deployment (Normalize lib d))"

lemma ConfigHash_v1_bytes: "ConfigHash (Normalize lib d) = Inr (Sum256 (v1_bytes lib d))"
  by (simp add: ConfigHash_def CanonicalJSON_def v1_bytes_def)

lemma v1_bytes_eq_iff:
  "v1_ok lib d \<Longrightarrow> v1_ok lib d' \<Longrightarrow>
    v1_bytes lib d = v1_bytes lib d' \<longleftrightarrow> surfaceV1 lib d = surfaceV1 lib d'"
  using v1_json_eq_iff by (simp add: CanonicalJSON_def v1_bytes_def)

subsection \<open>Properties of the v1 surface\<close>

text \<open>
  The normalisation refines the abstract surface. Two Deployments get the same canonical JSON if
  and only if they agree on namespace, name, user labels, replicas (nil being one), selector, template
  labels, and as multisets on the containers' names, images, environment names and quantities. So the
  JSON depends on nothing else (not on map order, declaration order, nil against empty) and loses none
  of it.
\<close>

lemma CanonicalJSON_iff_surfaceV1:
  assumes "v1_ok lib d" "v1_ok lib d'"
  shows "CanonicalJSON (Normalize lib d) = CanonicalJSON (Normalize lib d')
     \<longleftrightarrow> surfaceV1 lib d = surfaceV1 lib d'"
  by (rule v1_json_eq_iff [OF assms])

lemmas example_eval =
  v1_ok_def dep_ok_def one_container_def nginx_def zero_defs plain_lib_def json_deployment_def
  Normalize_def normalizeSelector_def normalizeContainers_def normalizeResources_def
  filterLabels_def quantityMap_def envNames_def json_smap_def json_slice_def json_selector_def
  json_container_def json_resources_def sort_Slice_def sort_Strings_def isGeneratedLabel_def
  generatedLabelKeys_def append_nil_def json_req_def normalizeReq_def

text \<open>
  The same Deployment with explicit replicas and a generated label has the same JSON; another image
  has another.
\<close>

lemma nginx_v1_ok: "v1_ok plain_lib (one_container ''default'' ''web'' (nginx ''nginx:1.25''))"
  "v1_ok plain_lib (one_container ''default'' ''web'' (nginx ''nginx:1.26''))"
  "v1_ok plain_lib ((one_container ''default'' ''web'' (nginx ''nginx:1.25''))
     \<lparr>d_Replicas := Some 1, d_Labels := Some [(''pod-template-hash'', ''x''), (''app'', ''web'')]\<rparr>)"
  by (simp_all add: example_eval)

text \<open>
  C2: equal v1 config hashes mean equal surfaces, unless the two canonical JSON texts are a SHA-256
  collision; and equal surfaces always mean equal hashes.
\<close>

theorem ConfigHash_iff_surfaceV1:
  assumes "v1_ok lib d" "v1_ok lib d'"
  shows "ConfigHash (Normalize lib d) = ConfigHash (Normalize lib d')
     \<longleftrightarrow> surfaceV1 lib d = surfaceV1 lib d' \<or> sha_collision (v1_bytes lib d) (v1_bytes lib d')"
  using v1_bytes_eq_iff [OF assms] Sum256_eqD
  by (auto simp: ConfigHash_v1_bytes sha_collision_def)

theorem ConfigHash_iff_surfaceV1_witness:
  "ConfigHash (Normalize plain_lib (one_container ''default'' ''web'' (nginx ''nginx:1.25'')))
     = ConfigHash (Normalize plain_lib (one_container ''default'' ''web'' (nginx ''nginx:1.26'')))
   \<longleftrightarrow> sha_collision
         (v1_bytes plain_lib (one_container ''default'' ''web'' (nginx ''nginx:1.25'')))
         (v1_bytes plain_lib (one_container ''default'' ''web'' (nginx ''nginx:1.26'')))"
  unfolding ConfigHash_iff_surfaceV1 [OF nginx_v1_ok(1) nginx_v1_ok(2)]
  by (simp add: surfaceV1_def surface_container_def example_eval)

end
