(* ===== verification/Normalize_V2.thy ===== *)
theory Normalize_V2
  imports Surface_V1
begin

section \<open>The v2 hash surface: types\_v2.go and normalize\_v2.go\<close>

text \<open>
  \<^verbatim>\<open>internal/attest/types_v2.go\<close> and \<^verbatim>\<open>normalize_v2.go\<close>: the projection of a Deployment onto the
  executable and privilege-relevant shape of its pod, in declared order, its canonical JSON and its
  hash. The values the projection copies from \<^verbatim>\<open>k8s.io/api\<close> are marshalled by the parameter \<open>lib\<close>.

  The lemmas relate the canonical JSON to an abstract surface (\<open>surfaceV2\<close>), as Surface\_V1 does
  for v1, and compare the two surfaces.
\<close>

subsection \<open>types\_v2.go\<close>

record 'k normalized_env_ref =
  ne_Name :: string
  ne_Literal :: bool
  ne_ValueFrom :: "'k option"

record 'k normalized_container_v2 =
  n2_Name :: string
  n2_Image :: string
  n2_Command :: "string slice"
  n2_Args :: "string slice"
  n2_WorkingDir :: string
  n2_Env :: "'k normalized_env_ref slice"
  n2_EnvFrom :: "'k slice"
  n2_Ports :: "'k slice"
  n2_ImagePullPolicy :: string
  n2_Resources :: normalized_resources
  n2_VolumeMounts :: "'k slice"
  n2_VolumeDevices :: "'k slice"
  n2_SecurityContext :: "'k option"
  n2_LivenessProbe :: "'k option"
  n2_ReadinessProbe :: "'k option"
  n2_StartupProbe :: "'k option"
  n2_Lifecycle :: "'k option"
  n2_RestartPolicy :: "string option"

record 'k normalized_pod_spec =
  np_InitContainers :: "'k normalized_container_v2 slice"
  np_Containers :: "'k normalized_container_v2 slice"
  np_ServiceAccountName :: string
  np_AutomountServiceAccountToken :: "bool option"
  np_ImagePullSecrets :: "'k slice"
  np_HostNetwork :: bool
  np_HostPID :: bool
  np_HostIPC :: bool
  np_HostUsers :: "bool option"
  np_RuntimeClassName :: "string option"
  np_SecurityContext :: "'k option"
  np_ShareProcessNamespace :: "bool option"
  np_Volumes :: "'k slice"
  np_ResourceClaims :: "'k slice"
  np_HostAliases :: "'k slice"
  np_DNSPolicy :: string
  np_DNSConfig :: "'k option"
  np_Hostname :: string
  np_Subdomain :: string
  np_SetHostnameAsFQDN :: "bool option"
  np_EnableServiceLinks :: "bool option"
  np_NodeSelector :: "string smap"
  np_NodeName :: string
  np_SchedulerName :: string
  np_Affinity :: "'k option"
  np_Tolerations :: "'k slice"
  np_TopologySpreadConstraints :: "'k slice"
  np_PriorityClassName :: string
  np_PreemptionPolicy :: "string option"
  np_SchedulingGates :: "'k slice"
  np_OS :: "'k option"

record 'k normalized_deployment_v2 =
  n2d_Namespace :: string
  n2d_Name :: string
  n2d_Labels :: "string smap"
  n2d_Selector :: normalized_selector
  n2d_PodTemplateLabels :: "string smap"
  n2d_Pod :: "'k normalized_pod_spec"

subsection \<open>normalize\_v2.go\<close>

definition nonNilSlice :: "'a slice \<Rightarrow> 'a slice" where
  "nonNilSlice inp = (if inp = None then Some [] else inp)"

definition nonNilMap :: "string smap \<Rightarrow> string smap" where
  "nonNilMap inp = (if inp = None then Some [] else inp)"

definition normalizeEnvRefs :: "'k env_var slice \<Rightarrow> 'k normalized_env_ref slice" where
  "normalizeEnvRefs env =
     Some (map (\<lambda>e. \<lparr>ne_Name = ev_Name e, ne_Literal = (ev_ValueFrom e = None),
                     ne_ValueFrom = ev_ValueFrom e\<rparr>) (range_of env))"

definition normalizeContainersV2 ::
  "'k lib \<Rightarrow> 'k container slice \<Rightarrow> 'k normalized_container_v2 slice" where
  "normalizeContainersV2 lib cs =
     Some (map (\<lambda>c.
       \<lparr>n2_Name = c_Name c, n2_Image = c_Image c, n2_Command = nonNilSlice (c_Command c),
        n2_Args = nonNilSlice (c_Args c), n2_WorkingDir = c_WorkingDir c,
        n2_Env = normalizeEnvRefs (c_Env c), n2_EnvFrom = nonNilSlice (c_EnvFrom c),
        n2_Ports = nonNilSlice (c_Ports c), n2_ImagePullPolicy = c_ImagePullPolicy c,
        n2_Resources = normalizeResources lib (c_Resources c),
        n2_VolumeMounts = nonNilSlice (c_VolumeMounts c),
        n2_VolumeDevices = nonNilSlice (c_VolumeDevices c),
        n2_SecurityContext = c_SecurityContext c, n2_LivenessProbe = c_LivenessProbe c,
        n2_ReadinessProbe = c_ReadinessProbe c, n2_StartupProbe = c_StartupProbe c,
        n2_Lifecycle = c_Lifecycle c, n2_RestartPolicy = c_RestartPolicy c\<rparr>) (range_of cs))"

definition NormalizeV2 :: "'k lib \<Rightarrow> 'k deployment \<Rightarrow> 'k normalized_deployment_v2" where
  "NormalizeV2 lib d =
     (let spec = d_PodSpec d in
      \<lparr>n2d_Namespace = d_Namespace d, n2d_Name = d_Name d, n2d_Labels = filterLabels (d_Labels d),
       n2d_Selector = normalizeSelector (d_Selector d),
       n2d_PodTemplateLabels = filterLabels (d_TemplateLabels d),
       n2d_Pod =
         \<lparr>np_InitContainers = normalizeContainersV2 lib (ps_InitContainers spec),
          np_Containers = normalizeContainersV2 lib (ps_Containers spec),
          np_ServiceAccountName = ps_ServiceAccountName spec,
          np_AutomountServiceAccountToken = ps_AutomountServiceAccountToken spec,
          np_ImagePullSecrets = nonNilSlice (ps_ImagePullSecrets spec),
          np_HostNetwork = ps_HostNetwork spec, np_HostPID = ps_HostPID spec,
          np_HostIPC = ps_HostIPC spec, np_HostUsers = ps_HostUsers spec,
          np_RuntimeClassName = ps_RuntimeClassName spec,
          np_SecurityContext = ps_SecurityContext spec,
          np_ShareProcessNamespace = ps_ShareProcessNamespace spec,
          np_Volumes = nonNilSlice (ps_Volumes spec),
          np_ResourceClaims = nonNilSlice (ps_ResourceClaims spec),
          np_HostAliases = nonNilSlice (ps_HostAliases spec), np_DNSPolicy = ps_DNSPolicy spec,
          np_DNSConfig = ps_DNSConfig spec, np_Hostname = ps_Hostname spec,
          np_Subdomain = ps_Subdomain spec, np_SetHostnameAsFQDN = ps_SetHostnameAsFQDN spec,
          np_EnableServiceLinks = ps_EnableServiceLinks spec,
          np_NodeSelector = nonNilMap (ps_NodeSelector spec), np_NodeName = ps_NodeName spec,
          np_SchedulerName = ps_SchedulerName spec, np_Affinity = ps_Affinity spec,
          np_Tolerations = nonNilSlice (ps_Tolerations spec),
          np_TopologySpreadConstraints = nonNilSlice (ps_TopologySpreadConstraints spec),
          np_PriorityClassName = ps_PriorityClassName spec,
          np_PreemptionPolicy = ps_PreemptionPolicy spec,
          np_SchedulingGates = nonNilSlice (ps_SchedulingGates spec), np_OS = ps_OS spec\<rparr>\<rparr>)"

subsection \<open>The canonical JSON of v2\<close>

text \<open>
  The upstream values of a normalised Deployment in the order in which the encoder reaches them; the
  first one whose encoder fails makes \<^verbatim>\<open>json.Marshal\<close> fail.
\<close>

definition opt_list :: "'a option \<Rightarrow> 'a list" where
  "opt_list x = (case x of None \<Rightarrow> [] | Some y \<Rightarrow> [y])"

definition exts_container :: "'k normalized_container_v2 \<Rightarrow> 'k list" where
  "exts_container c =
     concat (map (\<lambda>e. opt_list (ne_ValueFrom e)) (range_of (n2_Env c)))
     @ range_of (n2_EnvFrom c) @ range_of (n2_Ports c) @ range_of (n2_VolumeMounts c)
     @ range_of (n2_VolumeDevices c) @ opt_list (n2_SecurityContext c)
     @ opt_list (n2_LivenessProbe c) @ opt_list (n2_ReadinessProbe c)
     @ opt_list (n2_StartupProbe c) @ opt_list (n2_Lifecycle c)"

definition exts_pod :: "'k normalized_pod_spec \<Rightarrow> 'k list" where
  "exts_pod p =
     concat (map exts_container (range_of (np_InitContainers p)))
     @ concat (map exts_container (range_of (np_Containers p)))
     @ range_of (np_ImagePullSecrets p) @ opt_list (np_SecurityContext p)
     @ range_of (np_Volumes p) @ range_of (np_ResourceClaims p) @ range_of (np_HostAliases p)
     @ opt_list (np_DNSConfig p) @ opt_list (np_Affinity p) @ range_of (np_Tolerations p)
     @ range_of (np_TopologySpreadConstraints p) @ range_of (np_SchedulingGates p)
     @ opt_list (np_OS p)"

fun first_error :: "('e + 'a) list \<Rightarrow> 'e option" where
  "first_error [] = None"
| "first_error (Inl e # rs) = Some e"
| "first_error (Inr x # rs) = first_error rs"

definition ext_json :: "'k lib \<Rightarrow> 'k \<Rightarrow> json" where
  "ext_json lib x = (case marshalExt lib x of Inl _ \<Rightarrow> JNull | Inr j \<Rightarrow> j)"

definition json_opt :: "('a \<Rightarrow> json) \<Rightarrow> 'a option \<Rightarrow> json" where
  "json_opt f x = (case x of None \<Rightarrow> JNull | Some y \<Rightarrow> f y)"

definition json_env_ref :: "'k lib \<Rightarrow> 'k normalized_env_ref \<Rightarrow> json" where
  "json_env_ref lib e =
     JObj [(''name'', JStr (ne_Name e)), (''literal'', JBool (ne_Literal e)),
           (''valueFrom'', json_opt (ext_json lib) (ne_ValueFrom e))]"

definition json_containerV2 :: "'k lib \<Rightarrow> 'k normalized_container_v2 \<Rightarrow> json" where
  "json_containerV2 lib c =
     JObj [(''name'', JStr (n2_Name c)), (''image'', JStr (n2_Image c)),
           (''command'', json_slice JStr (n2_Command c)), (''args'', json_slice JStr (n2_Args c)),
           (''workingDir'', JStr (n2_WorkingDir c)),
           (''env'', json_slice (json_env_ref lib) (n2_Env c)),
           (''envFrom'', json_slice (ext_json lib) (n2_EnvFrom c)),
           (''ports'', json_slice (ext_json lib) (n2_Ports c)),
           (''imagePullPolicy'', JStr (n2_ImagePullPolicy c)),
           (''resources'', json_resources (n2_Resources c)),
           (''volumeMounts'', json_slice (ext_json lib) (n2_VolumeMounts c)),
           (''volumeDevices'', json_slice (ext_json lib) (n2_VolumeDevices c)),
           (''securityContext'', json_opt (ext_json lib) (n2_SecurityContext c)),
           (''livenessProbe'', json_opt (ext_json lib) (n2_LivenessProbe c)),
           (''readinessProbe'', json_opt (ext_json lib) (n2_ReadinessProbe c)),
           (''startupProbe'', json_opt (ext_json lib) (n2_StartupProbe c)),
           (''lifecycle'', json_opt (ext_json lib) (n2_Lifecycle c)),
           (''restartPolicy'', json_opt JStr (n2_RestartPolicy c))]"

definition json_podV2 :: "'k lib \<Rightarrow> 'k normalized_pod_spec \<Rightarrow> json" where
  "json_podV2 lib p =
     JObj [(''initContainers'', json_slice (json_containerV2 lib) (np_InitContainers p)),
           (''containers'', json_slice (json_containerV2 lib) (np_Containers p)),
           (''serviceAccountName'', JStr (np_ServiceAccountName p)),
           (''automountServiceAccountToken'', json_opt JBool (np_AutomountServiceAccountToken p)),
           (''imagePullSecrets'', json_slice (ext_json lib) (np_ImagePullSecrets p)),
           (''hostNetwork'', JBool (np_HostNetwork p)), (''hostPID'', JBool (np_HostPID p)),
           (''hostIPC'', JBool (np_HostIPC p)), (''hostUsers'', json_opt JBool (np_HostUsers p)),
           (''runtimeClassName'', json_opt JStr (np_RuntimeClassName p)),
           (''securityContext'', json_opt (ext_json lib) (np_SecurityContext p)),
           (''shareProcessNamespace'', json_opt JBool (np_ShareProcessNamespace p)),
           (''volumes'', json_slice (ext_json lib) (np_Volumes p)),
           (''resourceClaims'', json_slice (ext_json lib) (np_ResourceClaims p)),
           (''hostAliases'', json_slice (ext_json lib) (np_HostAliases p)),
           (''dnsPolicy'', JStr (np_DNSPolicy p)),
           (''dnsConfig'', json_opt (ext_json lib) (np_DNSConfig p)),
           (''hostname'', JStr (np_Hostname p)), (''subdomain'', JStr (np_Subdomain p)),
           (''setHostnameAsFQDN'', json_opt JBool (np_SetHostnameAsFQDN p)),
           (''enableServiceLinks'', json_opt JBool (np_EnableServiceLinks p)),
           (''nodeSelector'', json_smap (np_NodeSelector p)), (''nodeName'', JStr (np_NodeName p)),
           (''schedulerName'', JStr (np_SchedulerName p)),
           (''affinity'', json_opt (ext_json lib) (np_Affinity p)),
           (''tolerations'', json_slice (ext_json lib) (np_Tolerations p)),
           (''topologySpreadConstraints'', json_slice (ext_json lib) (np_TopologySpreadConstraints p)),
           (''priorityClassName'', JStr (np_PriorityClassName p)),
           (''preemptionPolicy'', json_opt JStr (np_PreemptionPolicy p)),
           (''schedulingGates'', json_slice (ext_json lib) (np_SchedulingGates p)),
           (''os'', json_opt (ext_json lib) (np_OS p))]"

definition json_deploymentV2 :: "'k lib \<Rightarrow> 'k normalized_deployment_v2 \<Rightarrow> json" where
  "json_deploymentV2 lib nd =
     JObj [(''namespace'', JStr (n2d_Namespace nd)), (''name'', JStr (n2d_Name nd)),
           (''labels'', json_smap (n2d_Labels nd)), (''selector'', json_selector (n2d_Selector nd)),
           (''podTemplateLabels'', json_smap (n2d_PodTemplateLabels nd)),
           (''pod'', json_podV2 lib (n2d_Pod nd))]"

definition CanonicalJSONV2 :: "'k lib \<Rightarrow> 'k normalized_deployment_v2 \<Rightarrow> attest_error + bytes" where
  "CanonicalJSONV2 lib nd =
     (case first_error (map (marshalExt lib) (exts_pod (n2d_Pod nd))) of
        Some e \<Rightarrow> Inl (ErrMarshal e)
      | None \<Rightarrow> Inr (render (json_deploymentV2 lib nd)))"

definition ConfigHashV2 :: "'k lib \<Rightarrow> 'k normalized_deployment_v2 \<Rightarrow> attest_error + hash32" where
  "ConfigHashV2 lib nd = bindE (CanonicalJSONV2 lib nd) (\<lambda>b. Inr (Sum256 b))"

end
