(* ===== verification/Surface_V2.thy ===== *)
theory Surface_V2
  imports Normalize_V2
begin

section \<open>What a v2 config hash covers\<close>

text \<open>
  The abstract v2 surface, component by component, and the refinement: the canonical v2 JSON keeps
  exactly the surface. Upstream values are compared by the JSON their own encoder gives them. The v2
  surface is then compared with the v1 surface: it determines it, replicas apart, and v1 is blind to
  most of it.
\<close>

subsection \<open>The abstract surface\<close>

definition ext_list :: "'k lib \<Rightarrow> 'k slice \<Rightarrow> json list" where
  "ext_list lib s = map (ext_json lib) (range_of s)"

definition ext_opt :: "'k lib \<Rightarrow> 'k option \<Rightarrow> json option" where
  "ext_opt lib x = map_option (ext_json lib) x"

definition surface_env :: "'k lib \<Rightarrow> 'k env_var slice \<Rightarrow> (string \<times> json option) list" where
  "surface_env lib env = map (\<lambda>e. (ev_Name e, ext_opt lib (ev_ValueFrom e))) (range_of env)"

definition surface_containerV2 where
  "surface_containerV2 lib c =
     ((c_Name c, c_Image c, range_of (c_Command c), range_of (c_Args c), c_WorkingDir c),
      (surface_env lib (c_Env c), ext_list lib (c_EnvFrom c), ext_list lib (c_Ports c),
       c_ImagePullPolicy c),
      (surface_quantities lib (rr_Requests (c_Resources c)),
       surface_quantities lib (rr_Limits (c_Resources c))),
      (ext_list lib (c_VolumeMounts c), ext_list lib (c_VolumeDevices c),
       ext_opt lib (c_SecurityContext c)),
      (ext_opt lib (c_LivenessProbe c), ext_opt lib (c_ReadinessProbe c),
       ext_opt lib (c_StartupProbe c), ext_opt lib (c_Lifecycle c), c_RestartPolicy c))"

definition surface_podV2 where
  "surface_podV2 lib p =
     ((map (surface_containerV2 lib) (range_of (ps_InitContainers p)),
       map (surface_containerV2 lib) (range_of (ps_Containers p))),
      (ps_ServiceAccountName p, ps_AutomountServiceAccountToken p,
       ext_list lib (ps_ImagePullSecrets p)),
      (ps_HostNetwork p, ps_HostPID p, ps_HostIPC p, ps_HostUsers p),
      (ps_RuntimeClassName p, ext_opt lib (ps_SecurityContext p), ps_ShareProcessNamespace p),
      (ext_list lib (ps_Volumes p), ext_list lib (ps_ResourceClaims p)),
      (ext_list lib (ps_HostAliases p), ps_DNSPolicy p, ext_opt lib (ps_DNSConfig p),
       ps_Hostname p, ps_Subdomain p, ps_SetHostnameAsFQDN p, ps_EnableServiceLinks p),
      (map_of (range_of (ps_NodeSelector p)), ps_NodeName p, ps_SchedulerName p,
       ext_opt lib (ps_Affinity p), ext_list lib (ps_Tolerations p),
       ext_list lib (ps_TopologySpreadConstraints p)),
      (ps_PriorityClassName p, ps_PreemptionPolicy p, ext_list lib (ps_SchedulingGates p),
       ext_opt lib (ps_OS p)))"

definition surfaceV2 where
  "surfaceV2 lib d =
     (d_Namespace d, d_Name d, user_labels (d_Labels d), surface_selector (d_Selector d),
      user_labels (d_TemplateLabels d), surface_podV2 lib (d_PodSpec d))"

text \<open>
  The Deployment's maps hold no key twice, every upstream value has a JSON form that is not null
  (upstream values are structs), and all strings are UTF-8.
\<close>

definition pod_maps_ok :: "'k pod_spec \<Rightarrow> bool" where
  "pod_maps_ok p \<longleftrightarrow>
     list_all container_maps_ok (range_of (ps_InitContainers p))
     \<and> list_all container_maps_ok (range_of (ps_Containers p)) \<and> map_ok (ps_NodeSelector p)"

definition ext_ok :: "'k lib \<Rightarrow> 'k \<Rightarrow> bool" where
  "ext_ok lib x \<longleftrightarrow> (case marshalExt lib x of Inl _ \<Rightarrow> False | Inr j \<Rightarrow> j \<noteq> JNull)"

definition v2_ok :: "'k lib \<Rightarrow> 'k deployment \<Rightarrow> bool" where
  "v2_ok lib d \<longleftrightarrow>
     map_ok (d_Labels d) \<and> map_ok (d_TemplateLabels d)
     \<and> (case d_Selector d of None \<Rightarrow> True | Some s \<Rightarrow> map_ok (ls_MatchLabels s))
     \<and> pod_maps_ok (d_PodSpec d)
     \<and> list_all (ext_ok lib) (exts_pod (n2d_Pod (NormalizeV2 lib d)))
     \<and> json_ok (json_deploymentV2 lib (NormalizeV2 lib d))"

subsection \<open>JSON and surface, component by component\<close>

lemma json_opt_JStr_iff [simp]: "json_opt JStr x = json_opt JStr y \<longleftrightarrow> x = y"
  by (cases x; cases y) (auto simp: json_opt_def)

lemma json_opt_JBool_iff [simp]: "json_opt JBool x = json_opt JBool y \<longleftrightarrow> x = y"
  by (cases x; cases y) (auto simp: json_opt_def)

lemma json_opt_ext_iff:
  "list_all (ext_ok lib) (opt_list x) \<Longrightarrow> list_all (ext_ok lib) (opt_list y) \<Longrightarrow>
    json_opt (ext_json lib) x = json_opt (ext_json lib) y \<longleftrightarrow> ext_opt lib x = ext_opt lib y"
  by (cases x; cases y)
    (auto simp: json_opt_def ext_opt_def opt_list_def ext_ok_def ext_json_def split: sum.splits)

lemma range_of_nonNil [simp]: "range_of (nonNilSlice s) = range_of s" "range_of (nonNilMap m) = range_of m"
  by (simp_all add: nonNilSlice_def nonNilMap_def)

lemma nonNil_Some: "nonNilSlice s = Some (range_of s)" "nonNilMap m = Some (range_of m)"
  by (cases s; cases m; simp add: nonNilSlice_def nonNilMap_def)+

lemma json_slice_ext_iff:
  "json_slice (ext_json lib) (nonNilSlice s) = json_slice (ext_json lib) (nonNilSlice t)
     \<longleftrightarrow> ext_list lib s = ext_list lib t"
  by (simp add: nonNil_Some json_slice_def ext_list_def)

lemma nonNilSlice_eq_iff: "nonNilSlice s = nonNilSlice t \<longleftrightarrow> range_of s = range_of t"
  by (simp add: nonNil_Some)

lemma map_eq_iff_pointwise:
  assumes "\<And>x y. x \<in> set xs \<Longrightarrow> y \<in> set ys \<Longrightarrow> f x = f y \<longleftrightarrow> g x = g y"
  shows "map f xs = map f ys \<longleftrightarrow> map g xs = map g ys"
  using assms by (auto simp: list_eq_iff_nth_eq)

lemma json_env_iff:
  assumes "list_all (ext_ok lib) (concat (map (\<lambda>e. opt_list (ne_ValueFrom e)) (range_of (normalizeEnvRefs s))))"
    and "list_all (ext_ok lib) (concat (map (\<lambda>e. opt_list (ne_ValueFrom e)) (range_of (normalizeEnvRefs t))))"
  shows "json_slice (json_env_ref lib) (normalizeEnvRefs s) = json_slice (json_env_ref lib) (normalizeEnvRefs t)
     \<longleftrightarrow> surface_env lib s = surface_env lib t"
proof -
  let ?n = "\<lambda>e. \<lparr>ne_Name = ev_Name e, ne_Literal = (ev_ValueFrom e = None), ne_ValueFrom = ev_ValueFrom e\<rparr>"
  have "json_env_ref lib (?n x) = json_env_ref lib (?n y)
      \<longleftrightarrow> (ev_Name x, ext_opt lib (ev_ValueFrom x)) = (ev_Name y, ext_opt lib (ev_ValueFrom y))"
    if "x \<in> set (range_of s)" "y \<in> set (range_of t)" for x y
  proof -
    have "list_all (ext_ok lib) (opt_list (ev_ValueFrom x))" "list_all (ext_ok lib) (opt_list (ev_ValueFrom y))"
      using assms that by (auto simp: normalizeEnvRefs_def list_all_iff)
    then show ?thesis
      by (auto simp: json_env_ref_def json_opt_ext_iff) (auto simp: ext_opt_def)
  qed
  then have "map (\<lambda>e. json_env_ref lib (?n e)) (range_of s) = map (\<lambda>e. json_env_ref lib (?n e)) (range_of t)
      \<longleftrightarrow> surface_env lib s = surface_env lib t"
    unfolding surface_env_def by (rule map_eq_iff_pointwise)
  then show ?thesis
    by (simp add: normalizeEnvRefs_def json_slice_def comp_def)
qed

abbreviation normalizeContainerV2 :: "'k lib \<Rightarrow> 'k container \<Rightarrow> 'k normalized_container_v2" where
  "normalizeContainerV2 lib c \<equiv> hd (range_of (normalizeContainersV2 lib (Some [c])))"

lemma normalizeContainersV2_map:
  "normalizeContainersV2 lib cs = Some (map (normalizeContainerV2 lib) (range_of cs))"
  by (simp add: normalizeContainersV2_def)

lemma json_resources_iff:
  assumes "container_maps_ok c" "container_maps_ok c'"
  shows "json_resources (normalizeResources lib (c_Resources c))
       = json_resources (normalizeResources lib (c_Resources c'))
     \<longleftrightarrow> surface_quantities lib (rr_Requests (c_Resources c)) = surface_quantities lib (rr_Requests (c_Resources c'))
       \<and> surface_quantities lib (rr_Limits (c_Resources c)) = surface_quantities lib (rr_Limits (c_Resources c'))"
proof -
  have keys: "map_ok (quantityMap lib m)" if "map_ok m" for m
  proof -
    have "map fst (map (\<lambda>(k, q). (k, canonicalQuantity lib q)) (range_of m)) = map fst (range_of m)"
      by (simp add: case_prod_unfold)
    with that show ?thesis by (simp add: quantityMap_eq map_ok_def [of m] del: map_map)
  qed
  show ?thesis
    using assms
    by (simp add: json_resources_def normalizeResources_def json_smap_eq_iff keys quantityMap_eq_iff
        container_maps_ok_def)
qed

lemma json_containerV2_iff:
  assumes "container_maps_ok c" "container_maps_ok c'"
    and "list_all (ext_ok lib) (exts_container (normalizeContainerV2 lib c))"
    and "list_all (ext_ok lib) (exts_container (normalizeContainerV2 lib c'))"
  shows "json_containerV2 lib (normalizeContainerV2 lib c) = json_containerV2 lib (normalizeContainerV2 lib c')
     \<longleftrightarrow> surface_containerV2 lib c = surface_containerV2 lib c'"
  using assms(3,4)
  by (simp add: json_containerV2_def surface_containerV2_def exts_container_def normalizeContainersV2_def
      json_env_iff json_opt_ext_iff json_slice_ext_iff nonNilSlice_eq_iff json_resources_iff [OF assms(1,2)]
      conj_ac)

lemma json_containersV2_iff:
  assumes "list_all container_maps_ok (range_of s)" "list_all container_maps_ok (range_of t)"
    and "list_all (ext_ok lib) (concat (map exts_container (range_of (normalizeContainersV2 lib s))))"
    and "list_all (ext_ok lib) (concat (map exts_container (range_of (normalizeContainersV2 lib t))))"
  shows "json_slice (json_containerV2 lib) (normalizeContainersV2 lib s)
       = json_slice (json_containerV2 lib) (normalizeContainersV2 lib t)
     \<longleftrightarrow> map (surface_containerV2 lib) (range_of s) = map (surface_containerV2 lib) (range_of t)"
proof -
  have "map (\<lambda>c. json_containerV2 lib (normalizeContainerV2 lib c)) (range_of s)
      = map (\<lambda>c. json_containerV2 lib (normalizeContainerV2 lib c)) (range_of t)
      \<longleftrightarrow> map (surface_containerV2 lib) (range_of s) = map (surface_containerV2 lib) (range_of t)"
  proof (rule map_eq_iff_pointwise)
    fix x y assume "x \<in> set (range_of s)" "y \<in> set (range_of t)"
    then show "json_containerV2 lib (normalizeContainerV2 lib x) = json_containerV2 lib (normalizeContainerV2 lib y)
        \<longleftrightarrow> surface_containerV2 lib x = surface_containerV2 lib y"
      using assms by (intro json_containerV2_iff) (auto simp: list_all_iff normalizeContainersV2_map [of lib s] normalizeContainersV2_map [of lib t])
  qed
  then show ?thesis
    by (simp add: normalizeContainersV2_map [of lib s] normalizeContainersV2_map [of lib t] json_slice_def comp_def)
qed

lemma json_nodeSelector_iff:
  "map_ok m \<Longrightarrow> map_ok m' \<Longrightarrow>
    json_smap (nonNilMap m) = json_smap (nonNilMap m') \<longleftrightarrow> map_of (range_of m) = map_of (range_of m')"
  by (simp add: json_smap_eq_iff map_ok_def smap_eq_def nonNil_Some)

lemma json_podV2_iff:
  assumes "pod_maps_ok (d_PodSpec d)" "pod_maps_ok (d_PodSpec d')"
    and "list_all (ext_ok lib) (exts_pod (n2d_Pod (NormalizeV2 lib d)))"
    and "list_all (ext_ok lib) (exts_pod (n2d_Pod (NormalizeV2 lib d')))"
  shows "json_podV2 lib (n2d_Pod (NormalizeV2 lib d)) = json_podV2 lib (n2d_Pod (NormalizeV2 lib d'))
     \<longleftrightarrow> surface_podV2 lib (d_PodSpec d) = surface_podV2 lib (d_PodSpec d')"
proof -
  have maps: "list_all container_maps_ok (range_of (ps_InitContainers (d_PodSpec d)))"
    "list_all container_maps_ok (range_of (ps_InitContainers (d_PodSpec d')))"
    "list_all container_maps_ok (range_of (ps_Containers (d_PodSpec d)))"
    "list_all container_maps_ok (range_of (ps_Containers (d_PodSpec d')))"
    "map_ok (ps_NodeSelector (d_PodSpec d))" "map_ok (ps_NodeSelector (d_PodSpec d'))"
    using assms(1,2) by (simp_all add: pod_maps_ok_def)
  show ?thesis
    using assms(3,4)
    by (simp add: json_podV2_def surface_podV2_def exts_pod_def NormalizeV2_def Let_def
        json_containersV2_iff maps json_opt_ext_iff json_slice_ext_iff json_nodeSelector_iff conj_ac)
qed

subsection \<open>The refinement\<close>

lemma first_error_None: "list_all (ext_ok lib) xs \<Longrightarrow> first_error (map (marshalExt lib) xs) = None"
  by (induction xs) (auto simp: ext_ok_def split: sum.splits)

definition v2_bytes :: "'k lib \<Rightarrow> 'k deployment \<Rightarrow> bytes" where
  "v2_bytes lib d = render (json_deploymentV2 lib (NormalizeV2 lib d))"

lemma CanonicalJSONV2_v2_bytes: "v2_ok lib d \<Longrightarrow> CanonicalJSONV2 lib (NormalizeV2 lib d) = Inr (v2_bytes lib d)"
  by (simp add: v2_ok_def CanonicalJSONV2_def first_error_None v2_bytes_def)

lemma map_ok_filterLabels: "map_ok m \<Longrightarrow> map_ok (filterLabels m)"
  by (simp add: filterLabels_eq map_ok_def [of m] distinct_map_filter)

lemma map_ok_selector:
  "(case sel of None \<Rightarrow> True | Some s \<Rightarrow> map_ok (ls_MatchLabels s)) \<Longrightarrow>
    map_ok (ns_MatchLabels (normalizeSelector sel))"
  by (cases sel) (auto simp: normalizeSelector_def matchLabels_eq map_ok_def)

lemma v2_json_eq_iff:
  assumes "v2_ok lib d" "v2_ok lib d'"
  shows "json_deploymentV2 lib (NormalizeV2 lib d) = json_deploymentV2 lib (NormalizeV2 lib d')
     \<longleftrightarrow> surfaceV2 lib d = surfaceV2 lib d'"
proof -
  have pod: "json_podV2 lib (n2d_Pod (NormalizeV2 lib d)) = json_podV2 lib (n2d_Pod (NormalizeV2 lib d'))
     \<longleftrightarrow> surface_podV2 lib (d_PodSpec d) = surface_podV2 lib (d_PodSpec d')"
    using assms by (intro json_podV2_iff) (simp_all add: v2_ok_def)
  have sel: "json_selector (normalizeSelector (d_Selector d)) = json_selector (normalizeSelector (d_Selector d'))
     \<longleftrightarrow> surface_selector (d_Selector d) = surface_selector (d_Selector d')"
    using assms normalizeSelector_eq_iff [of "d_Selector d" "d_Selector d'"]
    by (simp add: v2_ok_def json_selector_eq_iff map_ok_selector split: option.splits)
  have lab: "json_smap (filterLabels m) = json_smap (filterLabels m') \<longleftrightarrow> user_labels m = user_labels m'"
    if "map_ok m" "map_ok m'" for m m'
    using that by (simp add: json_smap_eq_iff map_ok_filterLabels filterLabels_eq_iff)
  have maps: "map_ok (d_Labels d)" "map_ok (d_Labels d')" "map_ok (d_TemplateLabels d)"
    "map_ok (d_TemplateLabels d')"
    using assms by (simp_all add: v2_ok_def)
  have parts: "n2d_Namespace (NormalizeV2 lib x) = d_Namespace x" "n2d_Name (NormalizeV2 lib x) = d_Name x"
    "n2d_Labels (NormalizeV2 lib x) = filterLabels (d_Labels x)"
    "n2d_Selector (NormalizeV2 lib x) = normalizeSelector (d_Selector x)"
    "n2d_PodTemplateLabels (NormalizeV2 lib x) = filterLabels (d_TemplateLabels x)" for x
    by (simp_all add: NormalizeV2_def Let_def)
  show ?thesis
    by (simp add: json_deploymentV2_def surfaceV2_def parts pod sel lab maps)
qed

lemma v2_bytes_eq_iff:
  "v2_ok lib d \<Longrightarrow> v2_ok lib d' \<Longrightarrow>
    v2_bytes lib d = v2_bytes lib d' \<longleftrightarrow> surfaceV2 lib d = surfaceV2 lib d'"
  using v2_json_eq_iff [of lib d d'] by (simp add: v2_bytes_def v2_ok_def render_inject)

lemma ConfigHashV2_v2_bytes: "v2_ok lib d \<Longrightarrow> ConfigHashV2 lib (NormalizeV2 lib d) = Inr (Sum256 (v2_bytes lib d))"
  by (simp add: ConfigHashV2_def CanonicalJSONV2_v2_bytes)

subsection \<open>The two surfaces compared\<close>

text \<open>The part of a v2 container surface that v1 has as well.\<close>

lemma surface_container_of_V2:
  "surface_containerV2 lib c = surface_containerV2 lib c' \<Longrightarrow> surface_container lib c = surface_container lib c'"
proof -
  assume eq: "surface_containerV2 lib c = surface_containerV2 lib c'"
  then have "map fst (surface_env lib (c_Env c)) = map fst (surface_env lib (c_Env c'))"
    by (simp add: surface_containerV2_def)
  then have "map ev_Name (range_of (c_Env c)) = map ev_Name (range_of (c_Env c'))"
    by (simp add: surface_env_def comp_def)
  with eq show ?thesis
    by (simp add: surface_containerV2_def surface_container_def del: mset_map)
qed

lemma map_eq_imp_map_eq:
  assumes "map f xs = map f ys" and "\<And>x y. f x = f y \<Longrightarrow> g x = g y"
  shows "map g xs = map g ys"
proof -
  have "length xs = length ys" using assms(1) by (rule map_eq_imp_length_eq)
  then show ?thesis using assms(1)
    by (induction xs ys rule: list_induct2) (auto intro: assms(2))
qed

lemma surfaceV1_of_V2:
  assumes "surfaceV2 lib d = surfaceV2 lib d'"
    and "(case d_Replicas d of None \<Rightarrow> 1 | Some r \<Rightarrow> r) = (case d_Replicas d' of None \<Rightarrow> 1 | Some r \<Rightarrow> r)"
  shows "surfaceV1 lib d = surfaceV1 lib d'"
proof -
  have "surface_podV2 lib (d_PodSpec d) = surface_podV2 lib (d_PodSpec d')"
    using assms(1) by (simp only: surfaceV2_def prod.inject)
  then have "map (surface_containerV2 lib) (range_of (ps_Containers (d_PodSpec d)))
      = map (surface_containerV2 lib) (range_of (ps_Containers (d_PodSpec d')))"
    by (simp only: surface_podV2_def prod.inject)
  then have "map (surface_container lib) (range_of (ps_Containers (d_PodSpec d)))
      = map (surface_container lib) (range_of (ps_Containers (d_PodSpec d')))"
    by (rule map_eq_imp_map_eq) (rule surface_container_of_V2)
  with assms show ?thesis by (simp only: surfaceV1_def surfaceV2_def prod.inject)
qed

text \<open>What v1 reads of a container.\<close>

definition v1_view :: "'k container \<Rightarrow> string \<times> string \<times> string list \<times> resource_requirements" where
  "v1_view c = (c_Name c, c_Image c, map ev_Name (range_of (c_Env c)), c_Resources c)"

text \<open>A container with other environment values; names and sources are kept.\<close>

definition with_env_values :: "('k env_var \<Rightarrow> string) \<Rightarrow> 'k container \<Rightarrow> 'k container" where
  "with_env_values f c = c\<lparr>c_Env := map_option (map (\<lambda>e. e\<lparr>ev_Value := f e\<rparr>)) (c_Env c)\<rparr>"

lemma range_of_map_option: "range_of (map_option (map f) s) = map f (range_of s)"
  by (cases s) auto

lemma normalizeContainersV2_env_values:
  "normalizeContainersV2 lib (map_option (map (with_env_values f)) cs) = normalizeContainersV2 lib cs"
  by (simp add: normalizeContainersV2_def normalizeEnvRefs_def with_env_values_def
      range_of_map_option comp_def)

subsection \<open>Properties of the v2 surface\<close>

text \<open>
  C1: the v2 config hash separates v2 surfaces. Two Deployments get the same v2 hash exactly when they
  agree, in declared order, on every attested field (containers and init containers with command, args,
  environment sources, mounts, security context, probes; service account, host namespaces, volumes, name
  resolution, placement), or when their canonical JSON texts are a SHA-256 collision.
\<close>

theorem ConfigHashV2_iff_surfaceV2:
  assumes "v2_ok lib d" "v2_ok lib d'"
  shows "ConfigHashV2 lib (NormalizeV2 lib d) = ConfigHashV2 lib (NormalizeV2 lib d')
     \<longleftrightarrow> surfaceV2 lib d = surfaceV2 lib d' \<or> sha_collision (v2_bytes lib d) (v2_bytes lib d')"
  using v2_bytes_eq_iff [OF assms] Sum256_eqD
  by (auto simp: ConfigHashV2_v2_bytes [OF assms(1)] ConfigHashV2_v2_bytes [OF assms(2)] sha_collision_def)

lemmas example_eval_v2 =
  example_eval v2_ok_def pod_maps_ok_def container_maps_ok_def NormalizeV2_def normalizeContainersV2_def
  normalizeEnvRefs_def nonNilSlice_def nonNilMap_def exts_pod_def exts_container_def opt_list_def
  json_deploymentV2_def json_podV2_def json_containerV2_def json_env_ref_def json_opt_def
  ext_ok_def ext_json_def

text \<open>A container told to run another program from the same image.\<close>

definition shell :: "'k container \<Rightarrow> 'k container" where
  "shell c = c\<lparr>c_Command := Some [''sh'']\<rparr>"

lemma nginx_v2_ok: "v2_ok plain_lib (one_container ''default'' ''web'' (nginx ''nginx:1.25''))"
  "v2_ok plain_lib (one_container ''default'' ''web'' (shell (nginx ''nginx:1.25'')))"
  by (simp_all add: example_eval_v2 shell_def)

theorem ConfigHashV2_iff_surfaceV2_witness:
  "ConfigHashV2 plain_lib (NormalizeV2 plain_lib (one_container ''default'' ''web'' (nginx ''nginx:1.25'')))
     = ConfigHashV2 plain_lib (NormalizeV2 plain_lib (one_container ''default'' ''web'' (shell (nginx ''nginx:1.25''))))
   \<longleftrightarrow> sha_collision
         (v2_bytes plain_lib (one_container ''default'' ''web'' (nginx ''nginx:1.25'')))
         (v2_bytes plain_lib (one_container ''default'' ''web'' (shell (nginx ''nginx:1.25''))))"
  unfolding ConfigHashV2_iff_surfaceV2 [OF nginx_v2_ok]
  by (simp add: surfaceV2_def surface_podV2_def surface_containerV2_def example_eval shell_def)

text \<open>
  v1 is blind to the rest of the pod: whatever happens to annotations, generation, status, and to the
  containers beyond their name, image, environment names and resources, the normal form is the same.
\<close>

lemma Normalize_other_pod:
  assumes "map v1_view (range_of (ps_Containers p)) = map v1_view (range_of (ps_Containers (d_PodSpec d)))"
  shows "Normalize lib (d\<lparr>d_Annotations := a, d_Generation := g, d_Status := st, d_PodSpec := p\<rparr>) = Normalize lib d"
proof -
  have "map (normalizeContainer lib) (range_of (ps_Containers p))
      = map (normalizeContainer lib) (range_of (ps_Containers (d_PodSpec d)))"
    using assms by (rule map_eq_imp_map_eq) (simp add: v1_view_def envNames_def)
  then show ?thesis by (simp add: Normalize_def normalizeContainers_def)
qed

text \<open>
  Environment values, annotations, replicas, generation and status never enter the v2 normal form:
  replacing all of them by anything leaves it unchanged.
\<close>

lemma NormalizeV2_ignores_values:
  "NormalizeV2 lib
     (d\<lparr>d_Annotations := a, d_Generation := g, d_Status := st, d_Replicas := r,
       d_PodSpec := (d_PodSpec d)
         \<lparr>ps_InitContainers := map_option (map (with_env_values f)) (ps_InitContainers (d_PodSpec d)),
          ps_Containers := map_option (map (with_env_values h)) (ps_Containers (d_PodSpec d))\<rparr>\<rparr>)
   = NormalizeV2 lib d"
  by (simp add: NormalizeV2_def Let_def normalizeContainersV2_env_values)

text \<open>
  C21: v2 covers all of v1 but the replica count. Two Deployments with the same v2 JSON and the same
  replicas have the same v1 JSON.
\<close>

theorem v2_covers_v1:
  assumes "v1_ok lib d" "v1_ok lib d'" "v2_ok lib d" "v2_ok lib d'"
    and "CanonicalJSONV2 lib (NormalizeV2 lib d) = CanonicalJSONV2 lib (NormalizeV2 lib d')"
    and "(case d_Replicas d of None \<Rightarrow> 1 | Some r \<Rightarrow> r) = (case d_Replicas d' of None \<Rightarrow> 1 | Some r \<Rightarrow> r)"
  shows "CanonicalJSON (Normalize lib d) = CanonicalJSON (Normalize lib d')"
proof -
  have "surfaceV2 lib d = surfaceV2 lib d'"
    using assms(5) v2_bytes_eq_iff [OF assms(3,4)]
    by (simp add: CanonicalJSONV2_v2_bytes [OF assms(3)] CanonicalJSONV2_v2_bytes [OF assms(4)])
  then show ?thesis
    using surfaceV1_of_V2 assms(6) v1_json_eq_iff [OF assms(1,2)] by blast
qed

lemma nginx_labelled_v2_ok:
  "v2_ok plain_lib ((one_container ''default'' ''web'' (nginx ''nginx:1.25''))
     \<lparr>d_Replicas := Some 1, d_Labels := Some [(''pod-template-hash'', ''x''), (''app'', ''web'')]\<rparr>)"
  by (simp add: example_eval_v2)

theorem v2_covers_v1_witness:
  "CanonicalJSON (Normalize plain_lib (one_container ''default'' ''web'' (nginx ''nginx:1.25'')))
     = CanonicalJSON (Normalize plain_lib ((one_container ''default'' ''web'' (nginx ''nginx:1.25''))
         \<lparr>d_Replicas := Some 1, d_Labels := Some [(''pod-template-hash'', ''x''), (''app'', ''web'')]\<rparr>))"
proof (rule v2_covers_v1 [OF nginx_v1_ok(1,3) nginx_v2_ok(1) nginx_labelled_v2_ok])
  show "CanonicalJSONV2 plain_lib (NormalizeV2 plain_lib (one_container ''default'' ''web'' (nginx ''nginx:1.25'')))
     = CanonicalJSONV2 plain_lib (NormalizeV2 plain_lib ((one_container ''default'' ''web'' (nginx ''nginx:1.25''))
         \<lparr>d_Replicas := Some 1, d_Labels := Some [(''pod-template-hash'', ''x''), (''app'', ''web'')]\<rparr>))"
    by (simp add: NormalizeV2_def Let_def filterLabels_def isGeneratedLabel_def generatedLabelKeys_def
        one_container_def)
qed (simp add: one_container_def zero_deployment_def)

end
