(* ===== verification/Identity.thy ===== *)
theory Identity
  imports Surface_V2
begin

section \<open>Workload identity: identity.go\<close>

text \<open>
  \<^verbatim>\<open>internal/attest/identity.go\<close>: the identity of a workload across clusters, its validation, its
  length-prefixed encoding and the on-chain key hashed from it. The lemmas show that the encoding is
  injective and self-delimiting on identities that pass validation, so that the on-chain key separates
  identities up to an exhibited SHA-256 collision; the v1 key of hash.go does so only where the
  namespace holds no slash.
\<close>

record workload_identity_v2 =
  wi_ClusterID :: string
  wi_APIVersion :: string
  wi_Kind :: string
  wi_Namespace :: string
  wi_Name :: string

definition maxFieldLen :: nat where
  "maxFieldLen = 2 ^ 16"

text \<open>
  The two loops of \<^verbatim>\<open>Validate\<close> range over maps, so the order in which they visit the fields, and with
  it the field an error names, is up to the runtime: the orders are arguments of \<open>validate_ranging\<close>.
  \<open>identity_Validate\<close> fixes the declared order; \<open>validate_any_order\<close> below shows that the kind of
  result does not depend on it.
\<close>

definition required_fields :: "workload_identity_v2 \<Rightarrow> (string \<times> string) list" where
  "required_fields w =
     [(''APIVersion'', wi_APIVersion w), (''Kind'', wi_Kind w), (''Namespace'', wi_Namespace w),
      (''Name'', wi_Name w)]"

definition bounded_fields :: "workload_identity_v2 \<Rightarrow> (string \<times> string) list" where
  "bounded_fields w = (''ClusterID'', wi_ClusterID w) # required_fields w"

fun check_nonempty :: "(string \<times> string) list \<Rightarrow> attest_error option" where
  "check_nonempty [] = None"
| "check_nonempty ((name, v) # fs) = (if v = [] then Some (ErrEmptyIdentity name) else check_nonempty fs)"

fun check_length :: "(string \<times> string) list \<Rightarrow> attest_error option" where
  "check_length [] = None"
| "check_length ((name, v) # fs) =
     (if maxFieldLen < length v then Some (ErrFieldTooLong name) else check_length fs)"

definition validate_ranging ::
  "(string \<times> string) list \<Rightarrow> (string \<times> string) list \<Rightarrow> workload_identity_v2 \<Rightarrow> attest_error option" where
  "validate_ranging req bnd w =
     (if wi_ClusterID w = [] then Some ErrEmptyClusterID
      else case check_nonempty req of
          Some e \<Rightarrow> Some e
        | None \<Rightarrow> check_length bnd)"

definition identity_Validate :: "workload_identity_v2 \<Rightarrow> attest_error option" where
  "identity_Validate w = validate_ranging (required_fields w) (bounded_fields w) w"

definition appendLengthPrefixed :: "bytes \<Rightarrow> string \<Rightarrow> bytes" where
  "appendLengthPrefixed dst s = (dst @ be32 (of_nat (length s))) @ s"

definition identityDomain :: string where
  "identityDomain = ''proof-of-deploy/workload-identity/v2'' @ [CHR 0x00]"

definition Encode :: "workload_identity_v2 \<Rightarrow> attest_error + bytes" where
  "Encode w =
     (case identity_Validate w of
        Some e \<Rightarrow> Inl e
      | None \<Rightarrow>
          (let buf = identityDomain;
               buf = appendLengthPrefixed buf (wi_ClusterID w);
               buf = appendLengthPrefixed buf (wi_APIVersion w);
               buf = appendLengthPrefixed buf (wi_Kind w);
               buf = appendLengthPrefixed buf (wi_Namespace w);
               buf = appendLengthPrefixed buf (wi_Name w)
           in Inr buf))"

definition WorkloadID :: "workload_identity_v2 \<Rightarrow> attest_error + hash32" where
  "WorkloadID w = bindE (Encode w) (\<lambda>enc. Inr (Sum256 enc))"

subsection \<open>Validation\<close>

lemma check_nonempty_None: "check_nonempty fs = None \<longleftrightarrow> (\<forall>(n, v) \<in> set fs. v \<noteq> [])"
  by (induction fs rule: check_nonempty.induct) auto

lemma check_length_None: "check_length fs = None \<longleftrightarrow> (\<forall>(n, v) \<in> set fs. length v \<le> maxFieldLen)"
  by (induction fs rule: check_length.induct) auto

lemma check_nonempty_Some: "check_nonempty fs = Some e \<Longrightarrow> \<exists>n. e = ErrEmptyIdentity n \<and> (n, []) \<in> set fs"
  by (induction fs rule: check_nonempty.induct) (auto split: if_splits)

lemma check_length_Some:
  "check_length fs = Some e \<Longrightarrow> \<exists>n v. e = ErrFieldTooLong n \<and> (n, v) \<in> set fs \<and> maxFieldLen < length v"
  by (induction fs rule: check_length.induct) (auto split: if_splits)

text \<open>What a valid identity is, without the loops.\<close>

definition identity_ok :: "workload_identity_v2 \<Rightarrow> bool" where
  "identity_ok w \<longleftrightarrow>
     (\<forall>v \<in> {wi_ClusterID w, wi_APIVersion w, wi_Kind w, wi_Namespace w, wi_Name w}.
        v \<noteq> [] \<and> length v \<le> maxFieldLen)"

lemma identity_Validate_None: "identity_Validate w = None \<longleftrightarrow> identity_ok w"
  by (auto simp: identity_Validate_def validate_ranging_def identity_ok_def bounded_fields_def
      required_fields_def split: option.splits if_splits)

lemma validate_any_order:
  assumes "set req = set (required_fields w)" "set bnd = set (bounded_fields w)"
  shows "validate_ranging req bnd w = None \<longleftrightarrow> identity_ok w"
proof -
  have "check_nonempty req = None \<longleftrightarrow> check_nonempty (required_fields w) = None"
    "check_length bnd = None \<longleftrightarrow> check_length (bounded_fields w) = None"
    by (simp_all only: check_nonempty_None check_length_None assms)
  then show ?thesis
    unfolding identity_Validate_None [symmetric] identity_Validate_def validate_ranging_def
    by (auto split: option.splits)
qed

subsection \<open>The encoding is injective\<close>

lemma appendLengthPrefixed_eq: "appendLengthPrefixed dst s = dst @ appendLengthPrefixed [] s"
  by (simp add: appendLengthPrefixed_def)

lemma of_nat_u32_inject:
  assumes "m < 4294967296" "n < 4294967296"
  shows "(of_nat m :: u32) = of_nat n \<longleftrightarrow> m = n"
proof -
  have "unat (of_nat k :: u32) = k" if "k < 4294967296" for k
    using that by (simp add: unsigned_of_nat take_bit_nat_eq_self)
  with assms show ?thesis by metis
qed

lemma length_prefixed_cancel:
  assumes "length s < 4294967296" "length t < 4294967296"
  shows "appendLengthPrefixed [] s @ x = appendLengthPrefixed [] t @ y \<longleftrightarrow> s = t \<and> x = y"
  using assms by (auto simp: appendLengthPrefixed_def fixed_append_inject of_nat_u32_inject)

lemma Encode_ok:
  "identity_ok w \<Longrightarrow> Encode w = Inr (identityDomain @ appendLengthPrefixed [] (wi_ClusterID w)
     @ appendLengthPrefixed [] (wi_APIVersion w) @ appendLengthPrefixed [] (wi_Kind w)
     @ appendLengthPrefixed [] (wi_Namespace w) @ appendLengthPrefixed [] (wi_Name w))"
  unfolding Encode_def identity_Validate_None [symmetric]
  by (simp add: Let_def appendLengthPrefixed_def)

lemma Encode_Inr: "Encode w = Inr enc \<Longrightarrow> identity_ok w"
  unfolding identity_Validate_None [symmetric] by (auto simp: Encode_def split: option.splits)

lemma identity_ok_lengths:
  assumes "identity_ok w"
  shows "length (wi_ClusterID w) < 4294967296" "length (wi_APIVersion w) < 4294967296"
    "length (wi_Kind w) < 4294967296" "length (wi_Namespace w) < 4294967296" "length (wi_Name w) < 4294967296"
  using assms by (auto simp: identity_ok_def maxFieldLen_def)

text \<open>The encoding is self-delimiting: two encodings followed by anything agree only if they are equal.\<close>

lemma Encode_cancel:
  assumes "Encode w = Inr a" "Encode w' = Inr b" "a @ x = b @ y"
  shows "w = w' \<and> x = y"
proof -
  have ok: "identity_ok w" "identity_ok w'" using assms Encode_Inr by blast+
  note len = identity_ok_lengths [OF ok(1)] identity_ok_lengths [OF ok(2)]
  have "wi_ClusterID w = wi_ClusterID w' \<and> wi_APIVersion w = wi_APIVersion w' \<and> wi_Kind w = wi_Kind w'
      \<and> wi_Namespace w = wi_Namespace w' \<and> wi_Name w = wi_Name w' \<and> x = y"
    using assms unfolding Encode_ok [OF ok(1)] Encode_ok [OF ok(2)]
    by (clarsimp simp: length_prefixed_cancel len)
  then show ?thesis by simp
qed

lemma Encode_length:
  assumes "Encode w = Inr a"
  shows "length a < 4294967296"
  using Encode_Inr [OF assms] assms Encode_ok [of w]
  by (auto simp: appendLengthPrefixed_def identityDomain_def identity_ok_def maxFieldLen_def)

subsection \<open>Properties of identities\<close>

text \<open>
  C30: an identity validates exactly when all five fields are non-empty and at most 65536 bytes long,
  whatever order the runtime visits the fields in.
\<close>

theorem validate_iff_fields:
  assumes "mset req = mset (required_fields w)" "mset bnd = mset (bounded_fields w)"
  shows "validate_ranging req bnd w = None \<longleftrightarrow>
     (\<forall>v \<in> {wi_ClusterID w, wi_APIVersion w, wi_Kind w, wi_Namespace w, wi_Name w}.
        v \<noteq> [] \<and> length v \<le> 65536)"
  using validate_any_order [OF assms [THEN mset_eq_setD]]
  by (simp add: identity_ok_def maxFieldLen_def)

definition web_identity :: "string \<Rightarrow> workload_identity_v2" where
  "web_identity cluster =
     \<lparr>wi_ClusterID = cluster, wi_APIVersion = ''apps/v1'', wi_Kind = ''Deployment'',
      wi_Namespace = ''default'', wi_Name = ''web''\<rparr>"

theorem validate_iff_fields_witness:
  "validate_ranging (rev (required_fields (web_identity ''prod''))) (rev (bounded_fields (web_identity ''prod'')))
     (web_identity ''prod'') = None
   \<and> validate_ranging (rev (required_fields (web_identity ''''))) (rev (bounded_fields (web_identity '''')))
     (web_identity '''') \<noteq> None"
  using validate_iff_fields [of "rev (required_fields (web_identity ''prod''))" "web_identity ''prod''"
      "rev (bounded_fields (web_identity ''prod''))"]
    validate_iff_fields [of "rev (required_fields (web_identity ''''))" "web_identity ''''"
      "rev (bounded_fields (web_identity ''''))"]
  by (simp add: web_identity_def)

lemma web_identity_ok: "c \<noteq> [] \<Longrightarrow> length c \<le> 65536 \<Longrightarrow> identity_ok (web_identity c)"
  by (simp add: identity_ok_def web_identity_def maxFieldLen_def)

lemma Encode_web:
  "Encode (web_identity ''prod'') = Inr (projr (Encode (web_identity ''prod'')))"
  "Encode (web_identity ''dev'') = Inr (projr (Encode (web_identity ''dev'')))"
  "web_identity ''prod'' \<noteq> web_identity ''dev''"
  using Encode_ok [OF web_identity_ok [of "''prod''"]] Encode_ok [OF web_identity_ok [of "''dev''"]]
  by (simp_all add: web_identity_def)

text \<open>
  The identity encoding is injective and self-delimiting. The encodings of two identities, each
  followed by anything, are the same bytes exactly when the identities and what follows are the same.
\<close>

lemma Encode_self_delimiting:
  assumes "Encode w = Inr a" "Encode w' = Inr b"
  shows "a @ x = b @ y \<longleftrightarrow> w = w' \<and> x = y"
  using Encode_cancel [OF assms, of x y] assms by auto

text \<open>
  C29: the on-chain key separates workloads. Two identities that validate have the same WorkloadID
  exactly when they are equal (cluster included) or their encodings are a SHA-256 collision.
\<close>

theorem WorkloadID_separates:
  assumes "Encode w = Inr a" "Encode w' = Inr b"
  shows "WorkloadID w = WorkloadID w' \<longleftrightarrow> w = w' \<or> sha_collision a b"
  using assms Encode_cancel [OF assms, of "[]" "[]"] Sum256_eqD [of a b]
  by (auto simp: WorkloadID_def sha_collision_def)

theorem WorkloadID_separates_witness:
  "WorkloadID (web_identity ''prod'') = WorkloadID (web_identity ''dev'')
   \<longleftrightarrow> sha_collision (projr (Encode (web_identity ''prod''))) (projr (Encode (web_identity ''dev'')))"
  using WorkloadID_separates [OF Encode_web(1,2)] Encode_web(3) by simp

text \<open>
  The v1 key separates namespace/name pairs only because a namespace holds no slash: under that
  condition equal keys mean equal pairs or a collision, and without it they need not.
\<close>

lemma DeploymentID_separates:
  assumes "CHR ''/'' \<notin> set ns" "CHR ''/'' \<notin> set ns'"
  shows "(DeploymentID ns n = DeploymentID ns' n'
       \<longleftrightarrow> ns = ns' \<and> n = n' \<or> sha_collision (ns @ ''/'' @ n) (ns' @ ''/'' @ n'))
     \<and> DeploymentID ''a/b'' ''c'' = DeploymentID ''a'' ''b/c''"
proof -
  have split: "ns @ CHR ''/'' # n = ns' @ CHR ''/'' # n' \<longleftrightarrow> ns = ns' \<and> n = n'"
  proof
    assume eq: "ns @ CHR ''/'' # n = ns' @ CHR ''/'' # n'"
    have "takeWhile (\<lambda>c. c \<noteq> CHR ''/'') (a @ CHR ''/'' # b) = a" if "CHR ''/'' \<notin> set a" for a b :: string
      using that by (subst takeWhile_append2) auto
    with eq assms have "ns = ns'" by metis
    with eq show "ns = ns' \<and> n = n'" by simp
  qed simp
  then show ?thesis
    using Sum256_eqD [of "ns @ ''/'' @ n" "ns' @ ''/'' @ n'"]
    by (auto simp: DeploymentID_def sha_collision_def)
qed

end
