(* ===== verification/Envelope.thy ===== *)
theory Envelope
  imports Identity
begin

section \<open>Protocol versions, envelopes and signatures: version.go, envelope.go, verify.go\<close>

text \<open>
  \<^verbatim>\<open>internal/attest/version.go\<close>: the version dispatch of the config hash and the v1 signing digest.
  \<^verbatim>\<open>internal/attest/envelope.go\<close>: what a v2 attestation signs. \<^verbatim>\<open>internal/attest/verify.go\<close>: keys,
  signatures and fingerprints; \<^verbatim>\<open>crypto/x509\<close> and \<^verbatim>\<open>crypto/ecdsa\<close> are the record \<open>crypto\<close>, an argument.

  The lemmas show that a signing digest binds everything that goes into it up to an exhibited SHA-256
  collision, that the digest domains of the protocol are pairwise apart, and that the version dispatch
  never falls back to another version.
\<close>

subsection \<open>version.go\<close>

definition VersionUnknown :: u16 where "VersionUnknown = 0"
definition V1 :: u16 where "V1 = 1"
definition V2 :: u16 where "V2 = 2"
definition CurrentVersion :: u16 where "CurrentVersion = V1"

definition ErrUnknownVersion_Error :: "u16 \<Rightarrow> string" where
  "ErrUnknownVersion_Error v =
     ''attest: unsupported hash protocol version '' @ dec_nat (unat v)
     @ '' (this build implements v'' @ dec_nat (unat V1) @ '' and v'' @ dec_nat (unat V2) @ '')''"

definition Version_String :: "u16 \<Rightarrow> string" where
  "Version_String v = (if v = VersionUnknown then ''unknown'' else ''v'' @ dec_nat (unat v))"

definition Supported :: "u16 \<Rightarrow> bool" where
  "Supported v \<longleftrightarrow> v = V1 \<or> v = V2"

definition IsWeakSurface :: "u16 \<Rightarrow> bool" where
  "IsWeakSurface v \<longleftrightarrow> v = V1"

definition ConfigHashForVersion :: "'k lib \<Rightarrow> u16 \<Rightarrow> 'k deployment \<Rightarrow> attest_error + hash32" where
  "ConfigHashForVersion lib v d =
     (if v = V1 then ConfigHash (Normalize lib d)
      else if v = V2 then ConfigHashV2 lib (NormalizeV2 lib d)
      else Inl (ErrUnknownVersion v))"

definition signingDomain :: string where
  "signingDomain = ''proof-of-deploy/attestation'' @ [CHR 0x00]"

definition signing_preimage_v1 :: "u16 \<Rightarrow> hash32 \<Rightarrow> bytes" where
  "signing_preimage_v1 v configHash = (signingDomain @ be16 v) @ hash_bytes configHash"

definition SigningDigest :: "u16 \<Rightarrow> hash32 \<Rightarrow> hash32" where
  "SigningDigest v configHash = Sum256 (signing_preimage_v1 v configHash)"

subsection \<open>envelope.go\<close>

record envelope_v2 =
  e_Version :: u16
  e_Identity :: workload_identity_v2
  e_UID :: string
  e_ConfigHash :: hash32

definition envelopeDomain :: string where
  "envelopeDomain = ''proof-of-deploy/attestation/v2'' @ [CHR 0x00]"

definition incarnationDomain :: string where
  "incarnationDomain = ''proof-of-deploy/incarnation/v2'' @ [CHR 0x00]"

definition Incarnation :: "envelope_v2 \<Rightarrow> hash32" where
  "Incarnation e = (if e_UID e = [] then 0 else Sum256 (incarnationDomain @ e_UID e))"

definition SigningPreimage :: "envelope_v2 \<Rightarrow> attest_error + bytes" where
  "SigningPreimage e =
     bindE (Encode (e_Identity e)) (\<lambda>idEnc.
       let buf = envelopeDomain;
           buf = buf @ be16 (e_Version e);
           buf = buf @ be32 (of_nat (length idEnc));
           buf = buf @ idEnc;
           buf = appendLengthPrefixed buf (e_UID e);
           buf = buf @ hash_bytes (e_ConfigHash e)
       in Inr buf)"

definition envelope_SigningDigest :: "envelope_v2 \<Rightarrow> attest_error + hash32" where
  "envelope_SigningDigest e = bindE (SigningPreimage e) (\<lambda>pre. Inr (Sum256 pre))"

subsection \<open>verify.go\<close>

text \<open>
  \<open>x509_ParsePKIXPublicKey\<close> is the parser of \<^verbatim>\<open>crypto/x509\<close>, \<open>as_ecdsa\<close> the type assertion to
  \<^verbatim>\<open>*ecdsa.PublicKey\<close>, \<open>ecdsa_VerifyASN1\<close> the verifier of \<^verbatim>\<open>crypto/ecdsa\<close> and \<open>on_P256\<close> whether a key's
  curve is \<^verbatim>\<open>elliptic.P256()\<close>.
\<close>

record ('pub, 'key) crypto =
  x509_ParsePKIXPublicKey :: "bytes \<Rightarrow> string + 'pub"
  as_ecdsa :: "'pub \<Rightarrow> 'key option"
  ecdsa_VerifyASN1 :: "'key \<Rightarrow> bytes \<Rightarrow> bytes \<Rightarrow> bool"
  on_P256 :: "'key \<Rightarrow> bool"

definition ParsePublicKeyDER :: "('pub, 'key) crypto \<Rightarrow> bytes \<Rightarrow> attest_error + 'key" where
  "ParsePublicKeyDER cr der =
     (case x509_ParsePKIXPublicKey cr der of
        Inl err \<Rightarrow> Inl (ErrParsePKIX err)
      | Inr pub \<Rightarrow> (case as_ecdsa cr pub of None \<Rightarrow> Inl ErrNotECDSA | Some ec \<Rightarrow> Inr ec))"

definition VerifyConfigHashSignature :: "('pub, 'key) crypto \<Rightarrow> 'key \<Rightarrow> hash32 \<Rightarrow> bytes \<Rightarrow> bool" where
  "VerifyConfigHashSignature cr pub configHash derSig = ecdsa_VerifyASN1 cr pub (hash_bytes configHash) derSig"

definition PublicKeyFingerprintBytes :: "bytes \<Rightarrow> hash32" where
  "PublicKeyFingerprintBytes der = Sum256 der"

definition PublicKeyFingerprint :: "bytes \<Rightarrow> string" where
  "PublicKeyFingerprint der =
     concat (map (\<lambda>c. [hex_digit (of_char c div 16), hex_digit (of_char c mod 16)])
       (hash_bytes (PublicKeyFingerprintBytes der)))"

subsection \<open>Injectivity of the preimages\<close>

lemma signing_preimage_v1_inject:
  "signing_preimage_v1 v h = signing_preimage_v1 v' h' \<longleftrightarrow> v = v' \<and> h = h'"
  by (auto simp: signing_preimage_v1_def fixed_append_inject)

lemma SigningPreimage_eq:
  "Encode (e_Identity e) = Inr a \<Longrightarrow>
    SigningPreimage e = Inr (envelopeDomain @ be16 (e_Version e) @ be32 (of_nat (length a)) @ a
      @ be32 (of_nat (length (e_UID e))) @ e_UID e @ hash_bytes (e_ConfigHash e))"
  by (simp add: SigningPreimage_def Let_def appendLengthPrefixed_def)

text \<open>
  The UID's length prefix may wrap for a UID of four gigabytes or more; the fixed width of the trailing
  hash still pins the UID down.
\<close>

lemma SigningPreimage_cancel:
  assumes "SigningPreimage e = Inr p" "SigningPreimage e' = Inr p"
  shows "e = e'"
proof -
  obtain a b where ab: "Encode (e_Identity e) = Inr a" "Encode (e_Identity e') = Inr b"
    using assms by (auto simp: SigningPreimage_def bindE_Inr_iff)
  let ?rest = "\<lambda>e. be32 (of_nat (length (e_UID e))) @ e_UID e @ hash_bytes (e_ConfigHash e)"
  have eq: "envelopeDomain @ be16 (e_Version e) @ be32 (of_nat (length a)) @ a @ ?rest e
      = envelopeDomain @ be16 (e_Version e') @ be32 (of_nat (length b)) @ b @ ?rest e'"
    using assms by (simp add: SigningPreimage_eq [OF ab(1)] SigningPreimage_eq [OF ab(2)])
  then have v: "e_Version e = e_Version e'" and "a @ ?rest e = b @ ?rest e'"
    by (simp_all add: fixed_append_inject)
  then have id: "e_Identity e = e_Identity e'" and rest: "?rest e = ?rest e'"
    using Encode_cancel [OF ab] by blast+
  then have "e_UID e @ hash_bytes (e_ConfigHash e) = e_UID e' @ hash_bytes (e_ConfigHash e')"
    by (simp add: fixed_append_inject)
  then have "e_UID e = e_UID e'" "e_ConfigHash e = e_ConfigHash e'"
    by (simp_all add: append_eq_append_conv)
  with v id show ?thesis by simp
qed

text \<open>No preimage of one domain is a preimage of another.\<close>

definition domain_at :: "string \<Rightarrow> bytes \<Rightarrow> bool" where
  "domain_at tag b \<longleftrightarrow> take (length tag) b = tag"

lemma domain_at_append [simp]: "domain_at tag (tag @ x)"
  by (simp add: domain_at_def)

lemma SigningPreimage_domain: "SigningPreimage e = Inr p \<Longrightarrow> domain_at envelopeDomain p"
  by (auto simp: SigningPreimage_def bindE_Inr_iff Let_def appendLengthPrefixed_def)

lemma signing_preimage_v1_domain: "domain_at signingDomain (signing_preimage_v1 v h)"
  by (simp add: signing_preimage_v1_def)

definition protocol_domains :: "string list" where
  "protocol_domains = [signingDomain, envelopeDomain, incarnationDomain, identityDomain]"

lemma protocol_domains_prefix_free:
  "list_all (\<lambda>x. list_all (\<lambda>y. x = y \<or> take (min (length x) (length y)) x \<noteq> take (min (length x) (length y)) y)
     protocol_domains) protocol_domains"
  by code_simp

lemma domains_apart:
  assumes "domain_at tag b" "domain_at tag' b"
    and "tag \<in> set protocol_domains" "tag' \<in> set protocol_domains"
  shows "tag = tag'"
proof -
  let ?n = "min (length tag) (length tag')"
  have "take ?n (take (length tag) b) = take ?n b" "take ?n (take (length tag') b) = take ?n b"
    by (simp_all add: min_def)
  then have "take ?n tag = take ?n tag'"
    using assms(1,2) by (simp only: domain_at_def)
  with assms(3,4) protocol_domains_prefix_free show ?thesis
    unfolding list_all_iff by blast
qed

lemma signing_preimages_apart: "SigningPreimage e = Inr p \<Longrightarrow> p \<noteq> signing_preimage_v1 v h"
  using domains_apart [OF SigningPreimage_domain, of e p signingDomain] signing_preimage_v1_domain [of v h]
  by (auto simp: signingDomain_def envelopeDomain_def protocol_domains_def)

subsection \<open>Hexadecimal\<close>

fun read_hex :: "string \<Rightarrow> bytes" where
  "read_hex (a # b # s) = char_of (16 * unhex a + unhex b) # read_hex s"
| "read_hex _ = []"

lemma hex_nibbles: "of_char c div 16 < (16 :: nat)" "of_char c mod 16 < (16 :: nat)"
  using less_mult_imp_div_less [of "of_char c" 16 16] by simp_all

lemma read_hex_MustHex: "read_hex (MustHex h) = hash_bytes h"
proof -
  have "read_hex (concat (map (\<lambda>c. [hex_digit (of_char c div 16), hex_digit (of_char c mod 16)]) bs)) = bs" for bs
    by (induction bs) (simp_all add: unhex_hex_digit hex_nibbles)
  then show ?thesis by (simp add: MustHex_def)
qed

definition hex_alphabet :: string where
  "hex_alphabet = ''0123456789abcdef''"

lemma hex_digit_lower:
  assumes "d < 16"
  shows "hex_digit d \<in> set hex_alphabet"
proof -
  have "list_all (\<lambda>d. hex_digit d \<in> set hex_alphabet) [0..<16]" by code_simp
  with assms show ?thesis unfolding list_all_iff by auto
qed

subsection \<open>Properties of digests and signatures\<close>

text \<open>
  C18: a v2 signing digest binds the whole envelope. Two envelopes with valid identities have the same
  signing digest exactly when version, identity, UID and config hash all agree, or their preimages are
  a SHA-256 collision: no field can be swapped under a signature.
\<close>

theorem envelope_digest_binds:
  assumes "SigningPreimage e = Inr p" "SigningPreimage e' = Inr p'"
  shows "envelope_SigningDigest e = envelope_SigningDigest e' \<longleftrightarrow> e = e' \<or> sha_collision p p'"
  using assms SigningPreimage_cancel [of e p e'] Sum256_eqD [of p p']
  by (auto simp: envelope_SigningDigest_def sha_collision_def)

definition web_envelope :: "string \<Rightarrow> envelope_v2" where
  "web_envelope uid =
     \<lparr>e_Version = V2, e_Identity = web_identity ''prod'', e_UID = uid, e_ConfigHash = 7\<rparr>"

lemma web_envelope_preimage:
  "SigningPreimage (web_envelope uid) = Inr (projr (SigningPreimage (web_envelope uid)))"
proof -
  have "Encode (e_Identity (web_envelope uid)) = Inr (projr (Encode (web_identity ''prod'')))"
    using Encode_web(1) by (simp add: web_envelope_def)
  then show ?thesis by (simp add: SigningPreimage_eq)
qed

theorem envelope_digest_binds_witness:
  "envelope_SigningDigest (web_envelope ''u1'') = envelope_SigningDigest (web_envelope ''u2'')
   \<longleftrightarrow> sha_collision (projr (SigningPreimage (web_envelope ''u1''))) (projr (SigningPreimage (web_envelope ''u2'')))"
  using envelope_digest_binds [OF web_envelope_preimage web_envelope_preimage, of "''u1''" "''u2''"]
  by (simp add: web_envelope_def)

text \<open>
  The v1 signing digest binds version and config hash: equal digests mean equal versions and equal
  hashes, or an exhibited collision.
\<close>

lemma SigningDigest_binds:
  "SigningDigest v h = SigningDigest v' h'
   \<longleftrightarrow> v = v' \<and> h = h' \<or> sha_collision (signing_preimage_v1 v h) (signing_preimage_v1 v' h')"
  using signing_preimage_v1_inject [of v h v' h'] Sum256_eqD
  by (auto simp: SigningDigest_def sha_collision_def)

text \<open>
  C31: v1 and v2 signatures cannot stand in for one another: a v2 signing digest equals a v1 signing
  digest only through a SHA-256 collision of their preimages.
\<close>

theorem signing_domains_separate:
  assumes "SigningPreimage e = Inr p"
  shows "envelope_SigningDigest e = Inr (SigningDigest v h) \<longleftrightarrow> sha_collision p (signing_preimage_v1 v h)"
  using assms signing_preimages_apart [OF assms, of v h]
  by (auto simp: envelope_SigningDigest_def SigningDigest_def sha_collision_def)

theorem signing_domains_separate_witness:
  "envelope_SigningDigest (web_envelope ''u1'') = Inr (SigningDigest V2 7)
   \<longleftrightarrow> sha_collision (projr (SigningPreimage (web_envelope ''u1''))) (signing_preimage_v1 V2 7)"
  by (rule signing_domains_separate [OF web_envelope_preimage])

text \<open>
  An unsupported version is an error and nothing else: the hash dispatch answers for version 1 with
  the v1 hash, for version 2 with the v2 hash, and for every other version with the unknown-version error
  carrying that version. It never falls back.
\<close>

lemma ConfigHashForVersion_no_fallback:
  "(\<exists>w. ConfigHashForVersion lib v d = Inl (ErrUnknownVersion w)) = (\<not> Supported v)
   \<and> (\<forall>w. ConfigHashForVersion lib v d = Inl (ErrUnknownVersion w) \<longrightarrow> w = v)
   \<and> (\<forall>h. ConfigHashForVersion lib v d = Inr h \<longrightarrow>
        v = V1 \<and> h = Sum256 (v1_bytes lib d) \<or> v = V2 \<and> ConfigHashV2 lib (NormalizeV2 lib d) = Inr h)"
  by (auto simp: ConfigHashForVersion_def Supported_def ConfigHash_v1_bytes V1_def V2_def ConfigHashV2_def
      CanonicalJSONV2_def bindE_Inl_iff split: option.splits)

text \<open>
  Hex output identifies a digest: it is 64 lowercase hex digits, and reading it back gives the 32
  bytes, so different digests print differently.
\<close>

lemma MustHex_roundtrip:
  "length (MustHex h) = 64 \<and> set (MustHex h) \<subseteq> set hex_alphabet \<and> read_hex (MustHex h) = hash_bytes h"
proof -
  have "length (concat (map (\<lambda>c. [f c, g c]) bs)) = 2 * length bs" for f g :: "char \<Rightarrow> char" and bs
    by (induction bs) auto
  moreover have "set (MustHex h) \<subseteq> set hex_alphabet"
    using hex_digit_lower [OF hex_nibbles(1)] hex_digit_lower [OF hex_nibbles(2)]
    by (auto simp: MustHex_def)
  ultimately show ?thesis by (simp add: read_hex_MustHex) (simp add: MustHex_def)
qed

end
