(* ===== verification/Publisher_V2.thy ===== *)
theory Publisher_V2
  imports Envelope
begin

section \<open>The v2 publisher: publisher\_v2.go\<close>

text \<open>
  \<^verbatim>\<open>internal/publisher/publisher_v2.go\<close>: the per-workload lifecycle of an attestation from desired to
  confirmed. The publisher's memory is a record; every critical section under its mutex is one function
  (\<open>Enqueue\<close>, \<open>snapshot\<close>, \<open>storeAttempt\<close>, \<open>confirm\<close>, \<open>discardAttempt\<close>). The worker's \<^verbatim>\<open>process\<close> runs
  between them without the lock, so it is a machine: its control states name the call it is about to
  make, and \<open>resume\<close> takes the answer of that call (a chain read, a KMS signature, a prepared, sent or
  awaited transaction, or the acquired lock) to the next control state. Between any two of these steps
  any number of \<open>Enqueue\<close> calls may run; the step relation of Publisher\_V2\_Inv interleaves them.

  The chain client and the signer are not called but answered for: every theorem holds for all their
  answers. A transaction handle is a value of a type variable.
\<close>

subsection \<open>State\<close>

record desired =
  ds_Identity :: workload_identity_v2
  ds_Version :: u16
  ds_ConfigHash :: hash32
  ds_UID :: string
  ds_Label :: string

record revision_key =
  rk_Version :: u16
  rk_ConfigHash :: hash32
  rk_Incarnation :: hash32
  rk_Fingerprint :: hash32

record on_chain =
  oc_Exists :: bool
  oc_Key :: revision_key
  oc_Signature :: bytes

datatype send_outcome = SendUnknown | SendAccepted

datatype wait_outcome = WaitUnknown | WaitMinedSuccess | WaitReverted

record 'tx workload_state =
  ws_desired :: desired
  ws_seq :: u64
  ws_key :: revision_key
  ws_signature :: "bytes option"
  ws_prepared :: "'tx option"
  ws_confirmed :: "revision_key option"

record ('key, 'tx) publisher_v2 =
  pv_fingerprint :: hash32
  pv_pub :: 'key
  pv_state :: "hash32 \<rightharpoonup> 'tx workload_state"
  pv_seq :: u64

datatype 'tx publisher_error =
    ErrSignerKey attest_error
  | ErrIdentity attest_error
  | ErrReading string
  | ErrDigest attest_error
  | ErrSigning string
  | ErrPreparing string
  | ErrSending string
  | ErrWaiting string
  | ErrReverted string 'tx
  | ErrOutcomeUnknown string 'tx

text \<open>The calls a publisher makes on its work queue.\<close>

datatype 'i queue_call = QAdd 'i | QAddRateLimited 'i | QForget 'i | QDone 'i

subsection \<open>Construction and revisions\<close>

definition NewV2 :: "('pub, 'key) crypto \<Rightarrow> bytes \<Rightarrow> 'tx publisher_error + ('key, 'tx) publisher_v2" where
  "NewV2 cr der =
     (case ParsePublicKeyDER cr der of
        Inl err \<Rightarrow> Inl (ErrSignerKey err)
      | Inr pub \<Rightarrow>
          Inr \<lparr>pv_fingerprint = PublicKeyFingerprintBytes der, pv_pub = pub, pv_state = Map.empty, pv_seq = 0\<rparr>)"

definition envelopeFor :: "desired \<Rightarrow> envelope_v2" where
  "envelopeFor d =
     \<lparr>e_Version = ds_Version d, e_Identity = ds_Identity d, e_UID = ds_UID d,
      e_ConfigHash = ds_ConfigHash d\<rparr>"

definition recordIsOurs ::
  "('pub, 'key) crypto \<Rightarrow> ('key, 'tx) publisher_v2 \<Rightarrow> desired \<Rightarrow> bytes \<Rightarrow> bool" where
  "recordIsOurs cr p d sig =
     (if length sig = 0 then False
      else case envelope_SigningDigest (envelopeFor d) of
          Inl err \<Rightarrow> False
        | Inr digest \<Rightarrow> VerifyConfigHashSignature cr (pv_pub p) digest sig)"

definition revisionKey :: "('key, 'tx) publisher_v2 \<Rightarrow> desired \<Rightarrow> revision_key" where
  "revisionKey p d =
     \<lparr>rk_Version = ds_Version d, rk_ConfigHash = ds_ConfigHash d,
      rk_Incarnation = Incarnation (envelopeFor d), rk_Fingerprint = pv_fingerprint p\<rparr>"

text \<open>The zero value of the state of a workload.\<close>

definition zero_key :: revision_key where
  "zero_key = \<lparr>rk_Version = 0, rk_ConfigHash = 0, rk_Incarnation = 0, rk_Fingerprint = 0\<rparr>"

definition zero_desired :: desired where
  "zero_desired =
     \<lparr>ds_Identity = \<lparr>wi_ClusterID = [], wi_APIVersion = [], wi_Kind = [], wi_Namespace = [], wi_Name = []\<rparr>,
      ds_Version = 0, ds_ConfigHash = 0, ds_UID = [], ds_Label = []\<rparr>"

definition zero_workload_state :: "'tx workload_state" where
  "zero_workload_state =
     \<lparr>ws_desired = zero_desired, ws_seq = 0, ws_key = zero_key, ws_signature = None, ws_prepared = None,
      ws_confirmed = None\<rparr>"

subsection \<open>Critical sections\<close>

definition Enqueue :: "('key, 'tx) publisher_v2 \<Rightarrow> desired
    \<Rightarrow> 'tx publisher_error + ('key, 'tx) publisher_v2 \<times> hash32 queue_call list" where
  "Enqueue p d =
     (case WorkloadID (ds_Identity d) of
        Inl err \<Rightarrow> Inl (ErrIdentity err)
      | Inr workloadID \<Rightarrow>
          (let key = revisionKey p d;
               st = (case pv_state p workloadID of Some st \<Rightarrow> st | None \<Rightarrow> zero_workload_state);
               p = p\<lparr>pv_state := (pv_state p)(workloadID \<mapsto> st)\<rparr>
           in if ws_confirmed st = Some key then Inr (p, [])
              else if ws_seq st \<noteq> 0 \<and> ws_key st = key then Inr (p, [QAdd workloadID])
              else (let seq = pv_seq p + 1;
                        st = st\<lparr>ws_desired := d, ws_seq := seq, ws_key := key, ws_signature := None,
                                ws_prepared := None\<rparr>
                    in Inr (p\<lparr>pv_seq := seq, pv_state := (pv_state p)(workloadID \<mapsto> st)\<rparr>, [QAdd workloadID]))))"

definition snapshot :: "('key, 'tx) publisher_v2 \<Rightarrow> hash32 \<Rightarrow> 'tx workload_state option" where
  "snapshot p wid =
     (case pv_state p wid of
        None \<Rightarrow> None
      | Some st \<Rightarrow>
          (if ws_seq st = 0 then None
           else if ws_confirmed st = Some (ws_key st) then None
           else Some st))"

text \<open>The locked tail of \<^verbatim>\<open>prepareOnce\<close>: keep signature and transaction if the revision did not move on.\<close>

definition storeAttempt ::
  "('key, 'tx) publisher_v2 \<Rightarrow> hash32 \<Rightarrow> 'tx workload_state \<Rightarrow> bytes \<Rightarrow> 'tx \<Rightarrow> ('key, 'tx) publisher_v2" where
  "storeAttempt p wid rv sig prepared =
     (case pv_state p wid of
        None \<Rightarrow> p
      | Some st \<Rightarrow>
          (if ws_seq st = ws_seq rv
           then p\<lparr>pv_state := (pv_state p)(wid \<mapsto> st\<lparr>ws_signature := Some sig, ws_prepared := Some prepared\<rparr>)\<rparr>
           else p))"

definition confirm ::
  "('key, 'tx) publisher_v2 \<Rightarrow> hash32 \<Rightarrow> 'tx workload_state \<Rightarrow> ('key, 'tx) publisher_v2 \<times> bool" where
  "confirm p wid rv =
     (case pv_state p wid of
        None \<Rightarrow> (p, False)
      | Some st \<Rightarrow>
          (let st = st\<lparr>ws_confirmed := Some (ws_key rv)\<rparr>
           in if ws_seq st \<noteq> ws_seq rv then (p\<lparr>pv_state := (pv_state p)(wid \<mapsto> st)\<rparr>, True)
              else (p\<lparr>pv_state := (pv_state p)(wid \<mapsto> st\<lparr>ws_prepared := None\<rparr>)\<rparr>, False)))"

definition discardAttempt :: "('key, 'tx) publisher_v2 \<Rightarrow> hash32 \<Rightarrow> u64 \<Rightarrow> ('key, 'tx) publisher_v2" where
  "discardAttempt p wid seq =
     (case pv_state p wid of
        None \<Rightarrow> p
      | Some st \<Rightarrow>
          (if ws_seq st = seq then p\<lparr>pv_state := (pv_state p)(wid \<mapsto> st\<lparr>ws_prepared := None\<rparr>)\<rparr> else p))"

subsection \<open>The worker\<close>

text \<open>
  Where \<^verbatim>\<open>process\<close> is: about to read the chain, to sign, to prepare, to store the attempt, to send, to
  wait, to read the chain again after an unknown outcome, to confirm, or to discard a reverted attempt.
\<close>

datatype 'tx pc =
    PIdle
  | PLatest hash32 "'tx workload_state"
  | PSign hash32 "'tx workload_state" hash32
  | PPrepare hash32 "'tx workload_state" bytes
  | PStore hash32 "'tx workload_state" bytes 'tx
  | PSend hash32 "'tx workload_state" 'tx
  | PWait hash32 "'tx workload_state" 'tx
  | PReconcile hash32 "'tx workload_state" 'tx
  | PConfirm hash32 "'tx workload_state"
  | PDiscard hash32 "'tx workload_state" 'tx

datatype 'tx response =
    RLatest "string + on_chain"
  | RSign "string + bytes"
  | RPrepare "string + 'tx"
  | RSend "string + send_outcome"
  | RWait "string + wait_outcome"
  | RLocked

text \<open>What \<^verbatim>\<open>process\<close> returns: an error, or whether to run again.\<close>

type_synonym 'tx outcome = "'tx publisher_error + bool"

definition beginProcess :: "('key, 'tx) publisher_v2 \<Rightarrow> hash32 \<Rightarrow> 'tx pc \<times> 'tx outcome option" where
  "beginProcess p wid =
     (case snapshot p wid of None \<Rightarrow> (PIdle, Some (Inr False)) | Some rv \<Rightarrow> (PLatest wid rv, None))"

definition prepareOnce :: "hash32 \<Rightarrow> 'tx workload_state \<Rightarrow> 'tx pc \<times> 'tx outcome option" where
  "prepareOnce wid rv =
     (case ws_prepared rv of
        Some prepared \<Rightarrow> (PSend wid rv prepared, None)
      | None \<Rightarrow>
          (case ws_signature rv of
             Some sig \<Rightarrow> (PPrepare wid rv sig, None)
           | None \<Rightarrow>
               (case envelope_SigningDigest (envelopeFor (ws_desired rv)) of
                  Inl err \<Rightarrow> (PIdle, Some (Inl (ErrDigest err)))
                | Inr digest \<Rightarrow> (PSign wid rv digest, None))))"

definition matches ::
  "('pub, 'key) crypto \<Rightarrow> ('key, 'tx) publisher_v2 \<Rightarrow> 'tx workload_state \<Rightarrow> on_chain \<Rightarrow> bool" where
  "matches cr p rv oc \<longleftrightarrow>
     oc_Exists oc \<and> oc_Key oc = ws_key rv \<and> recordIsOurs cr p (ws_desired rv) (oc_Signature oc)"

fun resume :: "('pub, 'key) crypto \<Rightarrow> ('key, 'tx) publisher_v2 \<Rightarrow> 'tx pc \<Rightarrow> 'tx response
    \<Rightarrow> (('key, 'tx) publisher_v2 \<times> 'tx pc \<times> 'tx outcome option) option" where
  "resume cr p (PLatest wid rv) (RLatest r) =
     (case r of
        Inl err \<Rightarrow> Some (p, PIdle, Some (Inl (ErrReading err)))
      | Inr onchain \<Rightarrow>
          (if matches cr p rv onchain then Some (p, PConfirm wid rv, None)
           else Some (p, prepareOnce wid rv)))"
| "resume cr p (PSign wid rv digest) (RSign r) =
     (case r of
        Inl err \<Rightarrow> Some (p, PIdle, Some (Inl (ErrSigning err)))
      | Inr sig \<Rightarrow> Some (p, PPrepare wid rv sig, None))"
| "resume cr p (PPrepare wid rv sig) (RPrepare r) =
     (case r of
        Inl err \<Rightarrow> Some (p, PIdle, Some (Inl (ErrPreparing err)))
      | Inr prepared \<Rightarrow> Some (p, PStore wid rv sig prepared, None))"
| "resume cr p (PStore wid rv sig prepared) RLocked =
     Some (storeAttempt p wid rv sig prepared, PSend wid rv prepared, None)"
| "resume cr p (PSend wid rv prepared) (RSend r) =
     (case r of
        Inl err \<Rightarrow> Some (p, PIdle, Some (Inl (ErrSending err)))
      | Inr sent \<Rightarrow> Some (p, PWait wid rv prepared, None))"
| "resume cr p (PWait wid rv prepared) (RWait r) =
     (case r of
        Inl err \<Rightarrow> Some (p, PIdle, Some (Inl (ErrWaiting err)))
      | Inr WaitMinedSuccess \<Rightarrow> Some (p, PConfirm wid rv, None)
      | Inr WaitReverted \<Rightarrow> Some (p, PDiscard wid rv prepared, None)
      | Inr WaitUnknown \<Rightarrow> Some (p, PReconcile wid rv prepared, None))"
| "resume cr p (PReconcile wid rv prepared) (RLatest r) =
     (case r of
        Inr latest \<Rightarrow>
          (if matches cr p rv latest then Some (p, PConfirm wid rv, None)
           else Some (p, PIdle, Some (Inl (ErrOutcomeUnknown (ds_Label (ws_desired rv)) prepared))))
      | Inl err \<Rightarrow> Some (p, PIdle, Some (Inl (ErrOutcomeUnknown (ds_Label (ws_desired rv)) prepared))))"
| "resume cr p (PConfirm wid rv) RLocked =
     (case confirm p wid rv of (p', again) \<Rightarrow> Some (p', PIdle, Some (Inr again)))"
| "resume cr p (PDiscard wid rv prepared) RLocked =
     Some (discardAttempt p wid (ws_seq rv), PIdle,
           Some (Inl (ErrReverted (ds_Label (ws_desired rv)) prepared)))"
| "resume cr p pc r = None"

text \<open>
  One run of \<^verbatim>\<open>process\<close> without interleaving, over the answers its calls get. \<open>None\<close> means that the
  answers do not fit the calls.
\<close>

fun runProcess :: "('pub, 'key) crypto \<Rightarrow> ('key, 'tx) publisher_v2 \<Rightarrow> 'tx pc \<times> 'tx outcome option \<Rightarrow> 'tx response list
    \<Rightarrow> (('key, 'tx) publisher_v2 \<times> 'tx outcome) option" where
  "runProcess cr p (pc, Some res) rs = (if rs = [] then Some (p, res) else None)"
| "runProcess cr p (pc, None) [] = None"
| "runProcess cr p (pc, None) (r # rs) =
     (case resume cr p pc r of None \<Rightarrow> None | Some (p', st) \<Rightarrow> runProcess cr p' st rs)"

definition process :: "('pub, 'key) crypto \<Rightarrow> ('key, 'tx) publisher_v2 \<Rightarrow> hash32 \<Rightarrow> 'tx response list
    \<Rightarrow> (('key, 'tx) publisher_v2 \<times> 'tx outcome) option" where
  "process cr p wid rs = runProcess cr p (beginProcess p wid) rs"

text \<open>What \<^verbatim>\<open>processNext\<close> does with the item after \<^verbatim>\<open>process\<close> returned; \<^verbatim>\<open>Done\<close> is deferred.\<close>

definition processNextCalls :: "hash32 \<Rightarrow> 'tx outcome \<Rightarrow> hash32 queue_call list" where
  "processNextCalls item res =
     (case res of
        Inl err \<Rightarrow> [QAddRateLimited item]
      | Inr True \<Rightarrow> [QForget item, QAdd item]
      | Inr False \<Rightarrow> [QForget item]) @ [QDone item]"

end
