(* ===== verification/Publisher_V2_Inv.thy ===== *)
theory Publisher_V2_Inv
  imports Publisher_V2
begin

section \<open>The v2 publisher under interleaving\<close>

text \<open>
  The step relation: between any two steps of the single worker, any number of \<open>Enqueue\<close> calls may run.
  The history records, newest first, what the outside answered: records read, signatures made,
  transactions prepared, sent, mined and reverted, each with the sequence number of the revision it was
  made for. Invariants are proved by induction over the reachable states:

  \<^item> what is stored belongs to the revision it is stored with (\<open>wf_inv\<close>);
  \<^item> a confirmed revision is backed by evidence in the history (\<open>conf_inv\<close>);
  \<^item> a revision has at most one live transaction (\<open>bal_inv\<close>).

  The sequence counter is a 64-bit word; a step that would wrap it to zero is excluded, as
  two to the 64 revisions are out of reach.
\<close>

subsection \<open>Steps\<close>

datatype 'tx event =
    EvLatest hash32 on_chain
  | EvSigned u64 hash32 bytes
  | EvPrepared u64 hash32 revision_key bytes 'tx
  | EvSent u64 'tx
  | EvMined u64 'tx
  | EvReverted u64 'tx

fun event_of :: "'tx pc \<Rightarrow> 'tx response \<Rightarrow> 'tx event list" where
  "event_of (PLatest wid rv) (RLatest (Inr oc)) = [EvLatest wid oc]"
| "event_of (PReconcile wid rv tx) (RLatest (Inr oc)) = [EvLatest wid oc]"
| "event_of (PSign wid rv digest) (RSign (Inr sig)) = [EvSigned (ws_seq rv) digest sig]"
| "event_of (PPrepare wid rv sig) (RPrepare (Inr tx)) = [EvPrepared (ws_seq rv) wid (ws_key rv) sig tx]"
| "event_of (PSend wid rv tx) (RSend (Inr oc)) = [EvSent (ws_seq rv) tx]"
| "event_of (PWait wid rv tx) (RWait (Inr WaitMinedSuccess)) = [EvMined (ws_seq rv) tx]"
| "event_of (PWait wid rv tx) (RWait (Inr WaitReverted)) = [EvReverted (ws_seq rv) tx]"
| "event_of pc r = []"

record ('key, 'tx) sys =
  sy_pub :: "('key, 'tx) publisher_v2"
  sy_pc :: "'tx pc"
  sy_hist :: "'tx event list"

inductive step :: "('pub, 'key) crypto \<Rightarrow> ('key, 'tx) sys \<Rightarrow> ('key, 'tx) sys \<Rightarrow> bool" for cr where
  enqueue: "Enqueue (sy_pub s) d = Inr (p', calls) \<Longrightarrow> pv_seq (sy_pub s) + 1 \<noteq> 0 \<Longrightarrow>
     step cr s (s\<lparr>sy_pub := p'\<rparr>)"
| start: "sy_pc s = PIdle \<Longrightarrow> step cr s (s\<lparr>sy_pc := fst (beginProcess (sy_pub s) wid)\<rparr>)"
| resume: "resume cr (sy_pub s) (sy_pc s) r = Some (p', pc', res) \<Longrightarrow>
     step cr s \<lparr>sy_pub = p', sy_pc = pc', sy_hist = event_of (sy_pc s) r @ sy_hist s\<rparr>"

inductive reach :: "('pub, 'key) crypto \<Rightarrow> ('key, 'tx) publisher_v2 \<Rightarrow> ('key, 'tx) sys \<Rightarrow> bool" for cr p0 where
  init: "reach cr p0 \<lparr>sy_pub = p0, sy_pc = PIdle, sy_hist = []\<rparr>"
| step: "reach cr p0 s \<Longrightarrow> step cr s s' \<Longrightarrow> reach cr p0 s'"

inductive_cases stepE: "step cr s s'"

definition fresh_publisher :: "('key, 'tx) publisher_v2 \<Rightarrow> bool" where
  "fresh_publisher p \<longleftrightarrow> pv_state p = Map.empty \<and> pv_seq p = 0"

lemma NewV2_fresh: "NewV2 cr der = Inr p \<Longrightarrow> fresh_publisher p"
  by (auto simp: NewV2_def fresh_publisher_def split: sum.splits)

fun_cases resume_SomeE: "resume cr p pc r = Some x"

subsection \<open>What the critical sections change\<close>

lemma storeAttempt_state:
  "pv_state (storeAttempt p wid rv sig tx) w =
     (if w = wid
      then map_option (\<lambda>st. if ws_seq st = ws_seq rv then st\<lparr>ws_signature := Some sig, ws_prepared := Some tx\<rparr> else st)
             (pv_state p wid)
      else pv_state p w)"
  by (auto simp: storeAttempt_def split: option.splits)

lemma confirm_state:
  "pv_state (fst (confirm p wid rv)) w =
     (if w = wid
      then map_option (\<lambda>st. (st\<lparr>ws_confirmed := Some (ws_key rv)\<rparr>)
             \<lparr>ws_prepared := if ws_seq st = ws_seq rv then None else ws_prepared st\<rparr>) (pv_state p wid)
      else pv_state p w)"
  by (auto simp: confirm_def Let_def split: option.splits)

lemma discardAttempt_state:
  "pv_state (discardAttempt p wid n) w =
     (if w = wid
      then map_option (\<lambda>st. if ws_seq st = n then st\<lparr>ws_prepared := None\<rparr> else st) (pv_state p wid)
      else pv_state p w)"
  by (auto simp: discardAttempt_def split: option.splits)

lemmas section_state = storeAttempt_state confirm_state discardAttempt_state

lemma section_same [simp]:
  "pv_seq (storeAttempt p wid rv sig tx) = pv_seq p" "pv_seq (fst (confirm p wid rv)) = pv_seq p"
  "pv_seq (discardAttempt p wid n) = pv_seq p"
  "pv_fingerprint (storeAttempt p wid rv sig tx) = pv_fingerprint p"
  "pv_fingerprint (fst (confirm p wid rv)) = pv_fingerprint p"
  "pv_fingerprint (discardAttempt p wid n) = pv_fingerprint p"
  "pv_pub (storeAttempt p wid rv sig tx) = pv_pub p" "pv_pub (fst (confirm p wid rv)) = pv_pub p"
  "pv_pub (discardAttempt p wid n) = pv_pub p"
  by (simp_all add: storeAttempt_def confirm_def discardAttempt_def Let_def split: option.splits)

text \<open>An \<open>Enqueue\<close> that succeeds either changes nothing or installs a new revision.\<close>

definition new_revision :: "('key, 'tx) publisher_v2 \<Rightarrow> hash32 \<Rightarrow> desired \<Rightarrow> 'tx workload_state" where
  "new_revision p wid d =
     (case pv_state p wid of Some st \<Rightarrow> st | None \<Rightarrow> zero_workload_state)
       \<lparr>ws_desired := d, ws_seq := pv_seq p + 1, ws_key := revisionKey p d, ws_signature := None,
        ws_prepared := None\<rparr>"

lemma Enqueue_cases:
  assumes "Enqueue p d = Inr (p', calls)"
  obtains (same) "p' = p"
  | (newer) wid where "WorkloadID (ds_Identity d) = Inr wid"
      "p' = p\<lparr>pv_seq := pv_seq p + 1, pv_state := (pv_state p)(wid \<mapsto> new_revision p wid d)\<rparr>"
proof -
  obtain wid where wid: "WorkloadID (ds_Identity d) = Inr wid"
    using assms by (auto simp: Enqueue_def split: sum.splits)
  show ?thesis
  proof (cases "pv_state p wid")
    case None
    then have "p' = p\<lparr>pv_seq := pv_seq p + 1, pv_state := (pv_state p)(wid \<mapsto> new_revision p wid d)\<rparr>"
      using assms wid by (auto simp: Enqueue_def new_revision_def Let_def zero_workload_state_def)
    with wid show ?thesis by (rule newer)
  next
    case (Some st)
    then have "p\<lparr>pv_state := (pv_state p)(wid \<mapsto> st)\<rparr> = p" by (simp add: fun_upd_idem)
    with Some assms wid newer same show ?thesis
      by (auto simp: Enqueue_def new_revision_def Let_def split: if_splits)
  qed
qed

lemma u64_Suc: "unat (n + 1) = Suc (unat n)" if "n + 1 \<noteq> 0" for n :: u64
proof -
  have sum: "unat (n + 1) = (unat n + 1) mod 2 ^ 64" by (simp add: unat_word_ariths)
  have "unat (n + 1) \<noteq> 0" using that by (simp add: unsigned_eq_0_iff)
  moreover have "unat n < 2 ^ LENGTH(64)" by (rule unsigned_less)
  ultimately have "unat n + 1 < 2 ^ 64" using sum by (cases "unat n + 1 = 2 ^ 64") simp_all
  with sum show ?thesis by simp
qed

subsection \<open>Stored data belongs to its revision\<close>

definition signed_for :: "'tx event list \<Rightarrow> 'tx workload_state \<Rightarrow> bytes \<Rightarrow> bool" where
  "signed_for h rv sig \<longleftrightarrow>
     (\<exists>digest. envelope_SigningDigest (envelopeFor (ws_desired rv)) = Inr digest
        \<and> EvSigned (ws_seq rv) digest sig \<in> set h)"

definition prepared_for :: "'tx event list \<Rightarrow> hash32 \<Rightarrow> 'tx workload_state \<Rightarrow> 'tx \<Rightarrow> bool" where
  "prepared_for h wid rv tx \<longleftrightarrow>
     (\<exists>sig. signed_for h rv sig \<and> EvPrepared (ws_seq rv) wid (ws_key rv) sig tx \<in> set h)"

definition rev_ok :: "('key, 'tx) publisher_v2 \<Rightarrow> 'tx event list \<Rightarrow> hash32 \<Rightarrow> 'tx workload_state \<Rightarrow> bool" where
  "rev_ok p h wid rv \<longleftrightarrow>
     ws_seq rv \<noteq> 0 \<and> unat (ws_seq rv) \<le> unat (pv_seq p) \<and> ws_key rv = revisionKey p (ws_desired rv)
     \<and> WorkloadID (ds_Identity (ws_desired rv)) = Inr wid
     \<and> (\<forall>sig. ws_signature rv = Some sig \<longrightarrow> signed_for h rv sig)
     \<and> (\<forall>tx. ws_prepared rv = Some tx \<longrightarrow> prepared_for h wid rv tx)"

text \<open>The revision the worker holds, and the stored revision it came from.\<close>

fun pc_rev :: "'tx pc \<Rightarrow> (hash32 \<times> 'tx workload_state) option" where
  "pc_rev PIdle = None"
| "pc_rev (PLatest wid rv) = Some (wid, rv)"
| "pc_rev (PSign wid rv digest) = Some (wid, rv)"
| "pc_rev (PPrepare wid rv sig) = Some (wid, rv)"
| "pc_rev (PStore wid rv sig tx) = Some (wid, rv)"
| "pc_rev (PSend wid rv tx) = Some (wid, rv)"
| "pc_rev (PWait wid rv tx) = Some (wid, rv)"
| "pc_rev (PReconcile wid rv tx) = Some (wid, rv)"
| "pc_rev (PConfirm wid rv) = Some (wid, rv)"
| "pc_rev (PDiscard wid rv tx) = Some (wid, rv)"

definition descends :: "'tx workload_state \<Rightarrow> 'tx workload_state \<Rightarrow> bool" where
  "descends rv st \<longleftrightarrow>
     unat (ws_seq rv) \<le> unat (ws_seq st)
     \<and> (ws_seq rv = ws_seq st \<longrightarrow> ws_key rv = ws_key st \<and> ws_desired rv = ws_desired st)"

fun pc_ok :: "'tx event list \<Rightarrow> 'tx pc \<Rightarrow> bool" where
  "pc_ok h (PSign wid rv digest) \<longleftrightarrow> envelope_SigningDigest (envelopeFor (ws_desired rv)) = Inr digest"
| "pc_ok h (PPrepare wid rv sig) \<longleftrightarrow> signed_for h rv sig"
| "pc_ok h (PStore wid rv sig tx) \<longleftrightarrow>
     signed_for h rv sig \<and> EvPrepared (ws_seq rv) wid (ws_key rv) sig tx \<in> set h"
| "pc_ok h (PSend wid rv tx) \<longleftrightarrow> prepared_for h wid rv tx"
| "pc_ok h (PWait wid rv tx) \<longleftrightarrow> prepared_for h wid rv tx"
| "pc_ok h (PReconcile wid rv tx) \<longleftrightarrow> prepared_for h wid rv tx"
| "pc_ok h (PDiscard wid rv tx) \<longleftrightarrow> prepared_for h wid rv tx \<and> EvReverted (ws_seq rv) tx \<in> set h"
| "pc_ok h pc \<longleftrightarrow> True"

definition wf_inv :: "('key, 'tx) sys \<Rightarrow> bool" where
  "wf_inv s \<longleftrightarrow>
     (\<forall>wid st. pv_state (sy_pub s) wid = Some st \<longrightarrow> rev_ok (sy_pub s) (sy_hist s) wid st)
     \<and> (\<forall>wid rv. pc_rev (sy_pc s) = Some (wid, rv) \<longrightarrow>
          rev_ok (sy_pub s) (sy_hist s) wid rv
          \<and> (\<exists>st. pv_state (sy_pub s) wid = Some st \<and> descends rv st))
     \<and> pc_ok (sy_hist s) (sy_pc s)"

lemma signed_for_mono: "signed_for h rv sig \<Longrightarrow> set h \<subseteq> set h' \<Longrightarrow> signed_for h' rv sig"
  by (auto simp: signed_for_def)

lemma prepared_for_mono: "prepared_for h wid rv tx \<Longrightarrow> set h \<subseteq> set h' \<Longrightarrow> prepared_for h' wid rv tx"
  unfolding prepared_for_def using signed_for_mono by blast

lemma revisionKey_cong: "pv_fingerprint p' = pv_fingerprint p \<Longrightarrow> revisionKey p' d = revisionKey p d"
  by (simp add: revisionKey_def)

lemma rev_ok_mono:
  "rev_ok p h wid rv \<Longrightarrow> set h \<subseteq> set h' \<Longrightarrow> pv_fingerprint p' = pv_fingerprint p \<Longrightarrow>
    unat (pv_seq p) \<le> unat (pv_seq p') \<Longrightarrow> rev_ok p' h' wid rv"
  using signed_for_mono [of h rv _ h'] prepared_for_mono [of h wid rv _ h'] revisionKey_cong [of p' p]
  by (simp add: rev_ok_def)

lemma rev_ok_cong:
  assumes "ws_seq st' = ws_seq st" "ws_key st' = ws_key st" "ws_desired st' = ws_desired st"
  shows "signed_for h st' sig = signed_for h st sig" "prepared_for h wid st' tx = prepared_for h wid st tx"
  by (simp_all add: signed_for_def prepared_for_def assms)

lemma rev_ok_update:
  assumes "rev_ok p h wid st" "ws_seq st' = ws_seq st" "ws_key st' = ws_key st" "ws_desired st' = ws_desired st"
    and "\<And>sig. ws_signature st' = Some sig \<Longrightarrow> ws_signature st = Some sig \<or> signed_for h st sig"
    and "\<And>tx. ws_prepared st' = Some tx \<Longrightarrow> ws_prepared st = Some tx \<or> prepared_for h wid st tx"
  shows "rev_ok p h wid st'"
  using assms(1,5,6) unfolding rev_ok_def assms(2-4) rev_ok_cong [OF assms(2-4)] by blast

lemma descends_update:
  "descends rv st \<Longrightarrow> ws_seq st' = ws_seq st \<Longrightarrow> ws_key st' = ws_key st \<Longrightarrow> ws_desired st' = ws_desired st \<Longrightarrow>
    descends rv st'"
  by (simp add: descends_def)

lemma wf_inv_enqueue:
  assumes inv: "wf_inv s" and enq: "Enqueue (sy_pub s) d = Inr (p', calls)" and nz: "pv_seq (sy_pub s) + 1 \<noteq> 0"
  shows "wf_inv (s\<lparr>sy_pub := p'\<rparr>)"
  using enq
proof (cases rule: Enqueue_cases)
  case same
  with inv show ?thesis by simp
next
  case (newer wid)
  let ?p = "sy_pub s" and ?h = "sy_hist s"
  have up: "rev_ok p' ?h w rv" if "rev_ok ?p ?h w rv" for w rv
    using that by (rule rev_ok_mono) (simp_all add: newer(2) u64_Suc [OF nz])
  have new: "rev_ok p' ?h wid (new_revision ?p wid d)"
    using nz newer(1)
    by (simp add: rev_ok_def newer(2) new_revision_def revisionKey_def)
  have older: "descends rv (new_revision ?p wid d)" if "rev_ok ?p ?h w rv" for w rv
    using that u64_Suc [OF nz] by (auto simp: rev_ok_def descends_def new_revision_def)
  show ?thesis
    using inv up new older
    by (auto simp: wf_inv_def newer(2))
qed

lemma wf_inv_start:
  assumes "wf_inv s" "sy_pc s = PIdle"
  shows "wf_inv (s\<lparr>sy_pc := fst (beginProcess (sy_pub s) wid)\<rparr>)"
  using assms
  by (auto simp: wf_inv_def beginProcess_def snapshot_def descends_def split: option.splits)

text \<open>The transitions of the worker, one by one.\<close>

definition quiet :: "'tx event list \<Rightarrow> bool" where
  "quiet es \<longleftrightarrow> (\<forall>e \<in> set es. \<exists>wid oc. e = EvLatest wid oc)"

lemma quiet_simps [simp]: "quiet []" "quiet [EvLatest wid oc]"
  by (simp_all add: quiet_def)

lemma resume_elim:
  assumes "resume cr p pc r = Some (p', pc', res)"
  obtains
    (stop) wid rv where "pc_rev pc = Some (wid, rv)" "p' = p" "pc' = PIdle" "quiet (event_of pc r)"
      "\<And>sig tx. pc \<noteq> PStore wid rv sig tx" "\<And>tx. pc \<noteq> PDiscard wid rv tx" "pc \<noteq> PConfirm wid rv"
  | (found) wid rv oc where "pc_rev pc = Some (wid, rv)" "p' = p" "pc' = PConfirm wid rv" "matches cr p rv oc"
      "event_of pc r = [EvLatest wid oc]" "pc = PLatest wid rv \<or> (\<exists>tx. pc = PReconcile wid rv tx)"
  | (held) wid rv oc tx where "pc = PLatest wid rv" "p' = p" "pc' = PSend wid rv tx" "ws_prepared rv = Some tx"
      "event_of pc r = [EvLatest wid oc]"
  | (signed) wid rv oc sig where "pc = PLatest wid rv" "p' = p" "pc' = PPrepare wid rv sig" "ws_prepared rv = None"
      "ws_signature rv = Some sig" "event_of pc r = [EvLatest wid oc]"
  | (unsigned) wid rv oc digest where "pc = PLatest wid rv" "p' = p" "pc' = PSign wid rv digest"
      "ws_prepared rv = None" "envelope_SigningDigest (envelopeFor (ws_desired rv)) = Inr digest"
      "event_of pc r = [EvLatest wid oc]"
  | (sign) wid rv digest sig where "pc = PSign wid rv digest" "p' = p" "pc' = PPrepare wid rv sig"
      "event_of pc r = [EvSigned (ws_seq rv) digest sig]"
  | (prepare) wid rv sig tx where "pc = PPrepare wid rv sig" "p' = p" "pc' = PStore wid rv sig tx"
      "event_of pc r = [EvPrepared (ws_seq rv) wid (ws_key rv) sig tx]"
  | (store) wid rv sig tx where "pc = PStore wid rv sig tx" "p' = storeAttempt p wid rv sig tx"
      "pc' = PSend wid rv tx" "event_of pc r = []"
  | (send) wid rv tx where "pc = PSend wid rv tx" "p' = p" "pc' = PWait wid rv tx"
      "event_of pc r = [EvSent (ws_seq rv) tx]"
  | (mined) wid rv tx where "pc = PWait wid rv tx" "p' = p" "pc' = PConfirm wid rv"
      "event_of pc r = [EvMined (ws_seq rv) tx]"
  | (reverted) wid rv tx where "pc = PWait wid rv tx" "p' = p" "pc' = PDiscard wid rv tx"
      "event_of pc r = [EvReverted (ws_seq rv) tx]"
  | (unknown) wid rv tx where "pc = PWait wid rv tx" "p' = p" "pc' = PReconcile wid rv tx" "event_of pc r = []"
  | (confirm) wid rv where "pc = PConfirm wid rv" "p' = fst (confirm p wid rv)" "pc' = PIdle" "event_of pc r = []"
  | (discard) wid rv tx where "pc = PDiscard wid rv tx" "p' = discardAttempt p wid (ws_seq rv)" "pc' = PIdle"
      "event_of pc r = []"
proof (cases pc)
  case PIdle
  with assms show ?thesis by simp
next
  case (PLatest wid rv)
  with assms obtain a where r: "r = RLatest a" by (cases r) auto
  show ?thesis
  proof (cases a)
    case (Inl e)
    with assms PLatest r show ?thesis by (intro stop) auto
  next
    case (Inr oc)
    show ?thesis
    proof (cases "matches cr p rv oc")
      case True
      with assms PLatest r Inr show ?thesis by (intro found) auto
    next
      case False
      with assms PLatest r Inr have po: "(pc', res) = prepareOnce wid rv" "p' = p" by auto
      with PLatest r Inr show ?thesis
        by (auto simp: prepareOnce_def split: option.splits sum.splits intro: stop held signed unsigned)
    qed
  qed
next
  case (PSign wid rv digest)
  with assms show ?thesis by (cases r) (auto split: sum.splits intro: stop sign)
next
  case (PPrepare wid rv sig)
  with assms show ?thesis by (cases r) (auto split: sum.splits intro: stop prepare)
next
  case (PStore wid rv sig tx)
  with assms show ?thesis by (cases r) (auto intro: store)
next
  case (PSend wid rv tx)
  with assms show ?thesis by (cases r) (auto split: sum.splits intro: stop send)
next
  case (PWait wid rv tx)
  with assms show ?thesis
    by (cases r) (auto split: sum.splits wait_outcome.splits intro: stop mined reverted unknown)
next
  case (PReconcile wid rv tx)
  with assms show ?thesis by (cases r) (auto split: sum.splits if_splits intro: stop found)
next
  case (PConfirm wid rv)
  with assms have "p' = fst (confirm p wid rv)" "pc' = PIdle" "event_of pc r = []"
    by (cases r; auto split: prod.splits)+
  with PConfirm show ?thesis by (intro confirm)
next
  case (PDiscard wid rv tx)
  with assms show ?thesis by (cases r) (auto intro: discard)
qed

lemma resume_same:
  assumes "resume cr p pc r = Some (p', pc', res)"
  shows "pv_fingerprint p' = pv_fingerprint p" "pv_seq p' = pv_seq p" "pv_pub p' = pv_pub p"
  using assms by (auto elim: resume_elim)

lemma resume_rev:
  assumes "resume cr p pc r = Some (p', pc', res)"
  shows "pc' = PIdle \<or> pc_rev pc' = pc_rev pc"
  using assms by (auto elim: resume_elim)

text \<open>A step of the worker changes signature, transaction and confirmation of one workload only.\<close>

definition same_revision :: "('tx workload_state \<Rightarrow> 'tx workload_state) \<Rightarrow> bool" where
  "same_revision f \<longleftrightarrow>
     (\<forall>st. ws_seq (f st) = ws_seq st \<and> ws_key (f st) = ws_key st \<and> ws_desired (f st) = ws_desired st)"

lemma frame_if:
  assumes "m' = (if w = wid then map_option f m else m)" "same_revision f"
  shows "\<exists>g. same_revision g \<and> m' = map_option g m"
proof (cases "w = wid")
  case False
  with assms have "same_revision (\<lambda>st. st) \<and> m' = map_option (\<lambda>st. st) m"
    by (simp add: same_revision_def option.map_ident)
  then show ?thesis by blast
qed (use assms in auto)

lemma store_frame:
  "\<exists>g. same_revision g \<and> pv_state (storeAttempt p wid rv sig tx) w = map_option g (pv_state p w)"
  by (rule frame_if [where w = w and wid = wid and f = "\<lambda>st. if ws_seq st = ws_seq rv then
        st\<lparr>ws_signature := Some sig, ws_prepared := Some tx\<rparr> else st"])
    (auto simp: storeAttempt_state same_revision_def)

lemma confirm_frame:
  "\<exists>g. same_revision g \<and> pv_state (fst (confirm p wid rv)) w = map_option g (pv_state p w)"
  by (rule frame_if [where w = w and wid = wid and f = "\<lambda>st. (st\<lparr>ws_confirmed := Some (ws_key rv)\<rparr>)
        \<lparr>ws_prepared := if ws_seq st = ws_seq rv then None else ws_prepared st\<rparr>"])
    (auto simp: confirm_state same_revision_def)

lemma discard_frame:
  "\<exists>g. same_revision g \<and> pv_state (discardAttempt p wid n) w = map_option g (pv_state p w)"
  by (rule frame_if [where w = w and wid = wid and f = "\<lambda>st. if ws_seq st = n then
        st\<lparr>ws_prepared := None\<rparr> else st"])
    (auto simp: discardAttempt_state same_revision_def)

lemma idle_frame: "\<exists>g. same_revision g \<and> m = map_option g m"
  by (rule exI [of _ "\<lambda>st. st"]) (simp add: same_revision_def option.map_ident)

lemmas section_frame = store_frame confirm_frame discard_frame idle_frame

lemma resume_frame:
  assumes "resume cr p pc r = Some (p', pc', res)"
  shows "\<exists>g. same_revision g \<and> pv_state p' w = map_option g (pv_state p w)"
  using assms by (cases rule: resume_elim) (simp_all add: section_frame)

lemma resume_state:
  assumes "resume cr p pc r = Some (p', pc', res)"
  shows "pv_state p w = None \<longleftrightarrow> pv_state p' w = None"
    "pv_state p w = Some st \<Longrightarrow> \<exists>st'. pv_state p' w = Some st' \<and> ws_seq st' = ws_seq st
       \<and> ws_key st' = ws_key st \<and> ws_desired st' = ws_desired st"
  using resume_frame [OF assms, of w] by (auto simp: same_revision_def)

lemma resume_pc_ok:
  assumes "resume cr p pc r = Some (p', pc', res)" "pc_ok h pc"
    and "\<And>wid rv. pc_rev pc = Some (wid, rv) \<Longrightarrow> rev_ok p h wid rv"
  shows "pc_ok (event_of pc r @ h) pc'"
proof -
  have mono: "set h \<subseteq> set (event_of pc r @ h)" by auto
  note sf = signed_for_mono [OF _ mono] and pf = prepared_for_mono [OF _ mono]
  from assms show ?thesis
    by (auto elim!: resume_elim simp: rev_ok_def intro: sf pf)
      (auto simp: signed_for_def prepared_for_def)
qed

lemma resume_rev_ok:
  assumes res: "resume cr p pc r = Some (p', pc', res)" and pc: "pc_ok h pc"
    and all: "\<And>wid st. pv_state p wid = Some st \<Longrightarrow> rev_ok p h wid st"
    and rv: "\<And>wid rv. pc_rev pc = Some (wid, rv) \<Longrightarrow> \<exists>st. pv_state p wid = Some st \<and> descends rv st"
    and st: "pv_state p' wid = Some st'"
  shows "rev_ok p' (event_of pc r @ h) wid st'"
proof -
  obtain st where old: "pv_state p wid = Some st"
    using resume_state(1) [OF res, of wid] st by fastforce
  have "rev_ok p h wid st'"
    using res
  proof (cases rule: resume_elim)
    case (store w rv' sig tx)
    show ?thesis
    proof (cases "w = wid \<and> ws_seq st = ws_seq rv'")
      case True
      then have d: "descends rv' st" using rv [of wid rv'] old by (auto simp: store)
      have "signed_for h st sig" "prepared_for h wid st tx"
        using pc True d by (auto simp: store descends_def signed_for_def prepared_for_def)
      moreover have "st' = st\<lparr>ws_signature := Some sig, ws_prepared := Some tx\<rparr>"
        using st old True by (simp add: store storeAttempt_state)
      ultimately show ?thesis by (intro rev_ok_update [OF all [OF old]]) auto
    next
      case False
      then have "st' = st" using st old by (auto simp: store storeAttempt_state split: if_splits)
      with all [OF old] show ?thesis by simp
    qed
  next
    case (confirm w rv')
    then show ?thesis
      using st old by (intro rev_ok_update [OF all [OF old]]) (auto simp: confirm_state split: if_splits)
  next
    case (discard w rv' tx)
    then show ?thesis
      using st old by (intro rev_ok_update [OF all [OF old]]) (auto simp: discardAttempt_state split: if_splits)
  qed (use st old all [OF old] in auto)
  then show ?thesis
    by (rule rev_ok_mono) (auto simp: resume_same [OF res])
qed

lemma wf_inv_resume:
  assumes inv: "wf_inv s" and res: "resume cr (sy_pub s) (sy_pc s) r = Some (p', pc', res)"
  shows "wf_inv \<lparr>sy_pub = p', sy_pc = pc', sy_hist = event_of (sy_pc s) r @ sy_hist s\<rparr>"
proof -
  let ?p = "sy_pub s" and ?h = "sy_hist s" and ?h' = "event_of (sy_pc s) r @ sy_hist s"
  have all: "\<And>wid st. pv_state ?p wid = Some st \<Longrightarrow> rev_ok ?p ?h wid st"
    and pcr: "\<And>wid rv. pc_rev (sy_pc s) = Some (wid, rv) \<Longrightarrow>
      rev_ok ?p ?h wid rv \<and> (\<exists>st. pv_state ?p wid = Some st \<and> descends rv st)"
    and ok: "pc_ok ?h (sy_pc s)"
    using inv by (auto simp: wf_inv_def)
  have "pc_ok ?h' pc'" using resume_pc_ok [OF res ok] pcr by blast
  moreover have "rev_ok p' ?h' wid st" if "pv_state p' wid = Some st" for wid st
    using resume_rev_ok [OF res ok all _ that] pcr by blast
  moreover have "rev_ok p' ?h' wid rv \<and> (\<exists>st. pv_state p' wid = Some st \<and> descends rv st)"
    if "pc_rev pc' = Some (wid, rv)" for wid rv
  proof -
    from that resume_rev [OF res] have old: "pc_rev (sy_pc s) = Some (wid, rv)" by auto
    then obtain st where st: "pv_state ?p wid = Some st" "descends rv st" using pcr by blast
    obtain st' where st': "pv_state p' wid = Some st'" and eq: "ws_seq st' = ws_seq st"
      "ws_key st' = ws_key st" "ws_desired st' = ws_desired st"
      using resume_state(2) [OF res st(1)] by blast
    from st' descends_update [OF st(2) eq]
    have "\<exists>st. pv_state p' wid = Some st \<and> descends rv st" by blast
    moreover have "rev_ok ?p ?h wid rv" using pcr [OF old] by (rule conjunct1)
    then have "rev_ok p' ?h' wid rv"
      by (rule rev_ok_mono) (simp_all add: resume_same [OF res])
    ultimately show ?thesis by blast
  qed
  ultimately show ?thesis unfolding wf_inv_def sys.select_convs by blast
qed

lemma wf_inv_reach: "reach cr p0 s \<Longrightarrow> fresh_publisher p0 \<Longrightarrow> wf_inv s"
proof (induction rule: reach.induct)
  case init
  then show ?case by (simp add: wf_inv_def fresh_publisher_def)
next
  case (step s s')
  then have "wf_inv s" by simp
  from step.hyps(2) this show ?case
    by cases (auto intro: wf_inv_enqueue wf_inv_start wf_inv_resume)
qed

subsection \<open>Confirmation rests on evidence\<close>

text \<open>
  What backs a confirmed revision: a record read from the chain that carries its key and a signature
  verifying against its envelope, or a transaction prepared for it, with a signature over its envelope,
  that was mined.
\<close>

definition record_evidence ::
  "('pub, 'key) crypto \<Rightarrow> ('key, 'tx) publisher_v2 \<Rightarrow> 'tx event list \<Rightarrow> hash32 \<Rightarrow> revision_key \<Rightarrow> bool" where
  "record_evidence cr p h wid k \<longleftrightarrow>
     (\<exists>oc d. EvLatest wid oc \<in> set h \<and> oc_Exists oc \<and> oc_Key oc = k \<and> revisionKey p d = k
        \<and> WorkloadID (ds_Identity d) = Inr wid \<and> recordIsOurs cr p d (oc_Signature oc))"

definition mined_evidence ::
  "('key, 'tx) publisher_v2 \<Rightarrow> 'tx event list \<Rightarrow> hash32 \<Rightarrow> revision_key \<Rightarrow> bool" where
  "mined_evidence p h wid k \<longleftrightarrow>
     (\<exists>n d digest sig tx. revisionKey p d = k \<and> WorkloadID (ds_Identity d) = Inr wid
        \<and> envelope_SigningDigest (envelopeFor d) = Inr digest \<and> EvSigned n digest sig \<in> set h
        \<and> EvPrepared n wid k sig tx \<in> set h \<and> EvMined n tx \<in> set h)"

definition evidence ::
  "('pub, 'key) crypto \<Rightarrow> ('key, 'tx) publisher_v2 \<Rightarrow> 'tx event list \<Rightarrow> hash32 \<Rightarrow> revision_key \<Rightarrow> bool" where
  "evidence cr p h wid k \<longleftrightarrow> record_evidence cr p h wid k \<or> mined_evidence p h wid k"

definition conf_inv :: "('pub, 'key) crypto \<Rightarrow> ('key, 'tx) sys \<Rightarrow> bool" where
  "conf_inv cr s \<longleftrightarrow>
     (\<forall>wid st k. pv_state (sy_pub s) wid = Some st \<longrightarrow> ws_confirmed st = Some k \<longrightarrow>
        evidence cr (sy_pub s) (sy_hist s) wid k)
     \<and> (\<forall>wid rv. sy_pc s = PConfirm wid rv \<longrightarrow> evidence cr (sy_pub s) (sy_hist s) wid (ws_key rv))"

lemma recordIsOurs_cong: "pv_pub p' = pv_pub p \<Longrightarrow> recordIsOurs cr p' d sig = recordIsOurs cr p d sig"
  by (simp add: recordIsOurs_def split: sum.splits)

lemma evidence_mono:
  assumes "evidence cr p h wid k" "set h \<subseteq> set h'" "pv_fingerprint p' = pv_fingerprint p" "pv_pub p' = pv_pub p"
  shows "evidence cr p' h' wid k"
  using assms(1,2)
  unfolding evidence_def record_evidence_def mined_evidence_def revisionKey_cong [OF assms(3)] recordIsOurs_cong [OF assms(4)]
  by blast

lemma conf_inv_enqueue:
  assumes inv: "conf_inv cr s" and enq: "Enqueue (sy_pub s) d = Inr (p', calls)"
  shows "conf_inv cr (s\<lparr>sy_pub := p'\<rparr>)"
  using enq
proof (cases rule: Enqueue_cases)
  case same
  with inv show ?thesis by simp
next
  case (newer wid)
  have up: "evidence cr p' (sy_hist s) w k" if "evidence cr (sy_pub s) (sy_hist s) w k" for w k
    using that by (rule evidence_mono) (simp_all add: newer(2))
  have "ws_confirmed (new_revision (sy_pub s) wid d)
      = (case pv_state (sy_pub s) wid of Some st \<Rightarrow> ws_confirmed st | None \<Rightarrow> None)"
    by (simp add: new_revision_def zero_workload_state_def split: option.splits)
  with inv up show ?thesis
    by (auto simp: conf_inv_def newer(2) split: option.splits)
qed

lemma conf_inv_start: "conf_inv cr s \<Longrightarrow> conf_inv cr (s\<lparr>sy_pc := fst (beginProcess (sy_pub s) wid)\<rparr>)"
  by (auto simp: conf_inv_def beginProcess_def split: option.splits)

lemma found_evidence:
  assumes "rev_ok p h wid rv" "matches cr p rv oc"
  shows "evidence cr p (EvLatest wid oc # h) wid (ws_key rv)"
  using assms unfolding rev_ok_def matches_def evidence_def record_evidence_def by (metis list.set_intros(1))

lemma mined_evidenceI:
  assumes "rev_ok p h wid rv" "prepared_for h wid rv tx"
  shows "evidence cr p (EvMined (ws_seq rv) tx # h) wid (ws_key rv)"
proof -
  from assms obtain sig digest where "envelope_SigningDigest (envelopeFor (ws_desired rv)) = Inr digest"
    "EvSigned (ws_seq rv) digest sig \<in> set h" "EvPrepared (ws_seq rv) wid (ws_key rv) sig tx \<in> set h"
    by (auto simp: prepared_for_def signed_for_def)
  with assms(1) show ?thesis
    unfolding rev_ok_def evidence_def mined_evidence_def by (metis list.set_intros(1,2))
qed

lemma conf_inv_resume:
  assumes inv: "conf_inv cr s" and wf: "wf_inv s"
    and res: "resume cr (sy_pub s) (sy_pc s) r = Some (p', pc', res)"
  shows "conf_inv cr \<lparr>sy_pub = p', sy_pc = pc', sy_hist = event_of (sy_pc s) r @ sy_hist s\<rparr>"
proof -
  let ?h' = "event_of (sy_pc s) r @ sy_hist s"
  have up: "evidence cr p' ?h' w k" if "evidence cr (sy_pub s) (sy_hist s) w k" for w k
    using that by (rule evidence_mono) (simp_all add: resume_same [OF res])
  have rv: "rev_ok (sy_pub s) (sy_hist s) wid rv" if "pc_rev (sy_pc s) = Some (wid, rv)" for wid rv
    using wf that by (auto simp: wf_inv_def)
  have pcok: "pc_ok (sy_hist s) (sy_pc s)" using wf by (simp add: wf_inv_def)
  have old: "evidence cr (sy_pub s) (sy_hist s) wid k"
    if "pv_state (sy_pub s) wid = Some st" "ws_confirmed st = Some k" for wid st k
    using inv that by (auto simp: conf_inv_def)
  have "evidence cr p' ?h' wid k" if st: "pv_state p' wid = Some st" "ws_confirmed st = Some k" for wid st k
    using res
  proof (cases rule: resume_elim)
    case (store w rv' sig tx)
    with st have "\<exists>st0. pv_state (sy_pub s) wid = Some st0 \<and> ws_confirmed st0 = Some k"
      by (auto simp: storeAttempt_state split: if_splits)
    with old up show ?thesis by blast
  next
    case (confirm w rv')
    show ?thesis
    proof (cases "wid = w")
      case True
      with st have "k = ws_key rv'" by (auto simp: confirm confirm_state)
      with True inv up show ?thesis by (auto simp: conf_inv_def confirm(1))
    next
      case False
      with st old up show ?thesis by (auto simp: confirm(2) confirm_state)
    qed
  next
    case (discard w rv' tx)
    with st have "\<exists>st0. pv_state (sy_pub s) wid = Some st0 \<and> ws_confirmed st0 = Some k"
      by (auto simp: discardAttempt_state split: if_splits)
    with old up show ?thesis by blast
  qed (use st old up in blast)+
  moreover have "evidence cr p' ?h' wid (ws_key rv')" if pc': "pc' = PConfirm wid rv'" for wid rv'
    using res
  proof (cases rule: resume_elim)
    case (found w rv'' oc)
    then show ?thesis using pc' found_evidence [OF rv] by auto
  next
    case (mined w rv'' tx)
    then show ?thesis using pc' mined_evidenceI [OF rv, of w rv'' tx] pcok by auto
  qed (use pc' in auto)
  ultimately show ?thesis unfolding conf_inv_def sys.select_convs by blast
qed

lemma conf_inv_reach: "reach cr p0 s \<Longrightarrow> fresh_publisher p0 \<Longrightarrow> conf_inv cr s"
proof (induction rule: reach.induct)
  case init
  then show ?case by (simp add: conf_inv_def fresh_publisher_def)
next
  case (step s s')
  then have "conf_inv cr s" "wf_inv s" using wf_inv_reach by blast+
  from step.hyps(2) this show ?case
    by cases (auto intro: conf_inv_enqueue conf_inv_start conf_inv_resume)
qed

end
