(* ===== verification/Publisher_V2_Once.thy ===== *)
theory Publisher_V2_Once
  imports Publisher_V2_Inv
begin

section \<open>One live transaction per revision\<close>

text \<open>
  The v2 publisher prepares a revision once, and again only after the transaction of the attempt before
  was reverted: preparing twice would take a second nonce and publish twice. The invariant counts, for
  every sequence number, the prepared and the reverted transactions in the history and relates them to
  what the worker holds and what is stored.
\<close>

fun is_prepared :: "u64 \<Rightarrow> 'tx event \<Rightarrow> bool" where
  "is_prepared n (EvPrepared m wid k sig tx) \<longleftrightarrow> m = n"
| "is_prepared n e \<longleftrightarrow> False"

fun is_reverted :: "u64 \<Rightarrow> 'tx event \<Rightarrow> bool" where
  "is_reverted n (EvReverted m tx) \<longleftrightarrow> m = n"
| "is_reverted n e \<longleftrightarrow> False"

definition preps :: "u64 \<Rightarrow> 'tx event list \<Rightarrow> nat" where
  "preps n h = length (filter (is_prepared n) h)"

definition revs :: "u64 \<Rightarrow> 'tx event list \<Rightarrow> nat" where
  "revs n h = length (filter (is_reverted n) h)"

lemma count_simps [simp]:
  "preps n [] = 0" "revs n [] = 0"
  "preps n (es @ h) = preps n es + preps n h" "revs n (es @ h) = revs n es + revs n h"
  "preps n (e # h) = (if is_prepared n e then 1 else 0) + preps n h"
  "revs n (e # h) = (if is_reverted n e then 1 else 0) + revs n h"
  by (simp_all add: preps_def revs_def)

lemma quiet_counts: "quiet es \<Longrightarrow> preps n es = 0 \<and> revs n es = 0"
  by (induction es) (auto simp: quiet_def)

text \<open>A stored revision no worker is busy with.\<close>

definition settled :: "'tx event list \<Rightarrow> 'tx workload_state \<Rightarrow> bool" where
  "settled h st \<longleftrightarrow>
     (ws_prepared st \<noteq> None \<longrightarrow> preps (ws_seq st) h = revs (ws_seq st) h + 1)
     \<and> (ws_prepared st = None \<longrightarrow> ws_confirmed st \<noteq> Some (ws_key st) \<longrightarrow> preps (ws_seq st) h = revs (ws_seq st) h)"

text \<open>What the worker's control state says of the stored revision it works on, and of the counts.\<close>

fun pc_stored :: "'tx pc \<Rightarrow> 'tx workload_state \<Rightarrow> bool" where
  "pc_stored (PLatest wid rv) st \<longleftrightarrow> ws_prepared st = ws_prepared rv"
| "pc_stored (PSign wid rv digest) st \<longleftrightarrow> ws_prepared st = None"
| "pc_stored (PPrepare wid rv sig) st \<longleftrightarrow> ws_prepared st = None"
| "pc_stored (PStore wid rv sig tx) st \<longleftrightarrow> ws_prepared st = None"
| "pc_stored (PSend wid rv tx) st \<longleftrightarrow> ws_prepared st = Some tx"
| "pc_stored (PWait wid rv tx) st \<longleftrightarrow> ws_prepared st = Some tx"
| "pc_stored (PReconcile wid rv tx) st \<longleftrightarrow> ws_prepared st = Some tx"
| "pc_stored pc st \<longleftrightarrow> True"

fun pc_counts :: "'tx event list \<Rightarrow> 'tx pc \<Rightarrow> bool" where
  "pc_counts h (PLatest wid rv) \<longleftrightarrow>
     preps (ws_seq rv) h = revs (ws_seq rv) h + (if ws_prepared rv = None then 0 else 1)"
| "pc_counts h (PSign wid rv digest) \<longleftrightarrow> preps (ws_seq rv) h = revs (ws_seq rv) h"
| "pc_counts h (PPrepare wid rv sig) \<longleftrightarrow> preps (ws_seq rv) h = revs (ws_seq rv) h"
| "pc_counts h (PStore wid rv sig tx) \<longleftrightarrow> preps (ws_seq rv) h = revs (ws_seq rv) h + 1"
| "pc_counts h (PSend wid rv tx) \<longleftrightarrow> preps (ws_seq rv) h = revs (ws_seq rv) h + 1"
| "pc_counts h (PWait wid rv tx) \<longleftrightarrow> preps (ws_seq rv) h = revs (ws_seq rv) h + 1"
| "pc_counts h (PReconcile wid rv tx) \<longleftrightarrow> preps (ws_seq rv) h = revs (ws_seq rv) h + 1"
| "pc_counts h (PDiscard wid rv tx) \<longleftrightarrow> preps (ws_seq rv) h = revs (ws_seq rv) h"
| "pc_counts h pc \<longleftrightarrow> True"

text \<open>
  The relation of a stored revision to the worker: busy with it, superseding what the worker holds (then
  nothing was prepared for it yet), or settled.
\<close>

definition stored_ok :: "'tx event list \<Rightarrow> 'tx pc \<Rightarrow> hash32 \<Rightarrow> 'tx workload_state \<Rightarrow> bool" where
  "stored_ok h pc wid st \<longleftrightarrow>
     (case pc_rev pc of
        None \<Rightarrow> settled h st
      | Some (w, rv) \<Rightarrow>
          (if w \<noteq> wid then settled h st \<and> ws_seq st \<noteq> ws_seq rv
           else if ws_seq st = ws_seq rv then pc_stored pc st
           else ws_prepared st = None \<and> preps (ws_seq st) h = 0 \<and> revs (ws_seq st) h = 0))"

definition bal_inv :: "('key, 'tx) sys \<Rightarrow> bool" where
  "bal_inv s \<longleftrightarrow>
     (\<forall>n. preps n (sy_hist s) \<le> revs n (sy_hist s) + 1)
     \<and> (\<forall>n. unat (pv_seq (sy_pub s)) < unat n \<longrightarrow> preps n (sy_hist s) = 0 \<and> revs n (sy_hist s) = 0)
     \<and> (\<forall>w w' st st'. pv_state (sy_pub s) w = Some st \<longrightarrow> pv_state (sy_pub s) w' = Some st' \<longrightarrow>
          ws_seq st = ws_seq st' \<longrightarrow> w = w')
     \<and> (\<forall>wid st. pv_state (sy_pub s) wid = Some st \<longrightarrow> stored_ok (sy_hist s) (sy_pc s) wid st)
     \<and> pc_counts (sy_hist s) (sy_pc s)"

lemma bal_invD:
  assumes "bal_inv s"
  shows "preps n (sy_hist s) \<le> revs n (sy_hist s) + 1"
    and "unat (pv_seq (sy_pub s)) < unat n \<Longrightarrow> preps n (sy_hist s) = 0 \<and> revs n (sy_hist s) = 0"
    and "pv_state (sy_pub s) w = Some st \<Longrightarrow> pv_state (sy_pub s) w' = Some st' \<Longrightarrow> ws_seq st = ws_seq st' \<Longrightarrow> w = w'"
    and "pv_state (sy_pub s) wid = Some st \<Longrightarrow> stored_ok (sy_hist s) (sy_pc s) wid st"
    and "pc_counts (sy_hist s) (sy_pc s)"
  using assms unfolding bal_inv_def by blast+

lemma bal_inv_enqueue:
  assumes inv: "bal_inv s" and wf: "wf_inv s" and enq: "Enqueue (sy_pub s) d = Inr (p', calls)"
    and nz: "pv_seq (sy_pub s) + 1 \<noteq> 0"
  shows "bal_inv (s\<lparr>sy_pub := p'\<rparr>)"
  using enq
proof (cases rule: Enqueue_cases)
  case same
  with inv show ?thesis by simp
next
  case (newer wid)
  let ?n = "pv_seq (sy_pub s) + 1" and ?h = "sy_hist s"
  have le: "unat (ws_seq st) < unat ?n" if "pv_state (sy_pub s) w = Some st" for w st
    using wf that u64_Suc [OF nz] by (auto simp: wf_inv_def rev_ok_def le_Suc_eq less_Suc_eq_le)
  have ne: "ws_seq st \<noteq> ?n" "?n \<noteq> ws_seq st" if "pv_state (sy_pub s) w = Some st" for w st
    using le [OF that] by auto
  have lerv: "unat (ws_seq rv) < unat ?n" if "pc_rev (sy_pc s) = Some (w, rv)" for w rv
    using wf that u64_Suc [OF nz] by (auto simp: wf_inv_def rev_ok_def less_Suc_eq_le)
  have zero: "preps ?n ?h = 0" "revs ?n ?h = 0"
    using bal_invD(2) [OF inv, of ?n] u64_Suc [OF nz] by auto
  have new: "ws_seq (new_revision (sy_pub s) wid d) = ?n" "ws_prepared (new_revision (sy_pub s) wid d) = None"
    by (simp_all add: new_revision_def)
  have "stored_ok ?h (sy_pc s) wid (new_revision (sy_pub s) wid d)"
    using lerv zero by (auto simp: stored_ok_def new settled_def split: option.splits)
  then have "stored_ok ?h (sy_pc s) w st" if "pv_state p' w = Some st" for w st
    using that bal_invD(4) [OF inv, of w st] by (auto simp: newer(2) split: if_splits)
  moreover have "w = w'"
    if "pv_state p' w = Some st" "pv_state p' w' = Some st'" "ws_seq st = ws_seq st'" for w w' st st'
    using that bal_invD(3) [OF inv] ne by (auto simp: newer(2) new split: if_splits)
  moreover have "preps n ?h = 0 \<and> revs n ?h = 0" if "unat (pv_seq p') < unat n" for n
    using that u64_Suc [OF nz] by (intro bal_invD(2) [OF inv]) (simp add: newer(2))
  moreover have upd: "sy_hist (s\<lparr>sy_pub := p'\<rparr>) = ?h" "sy_pc (s\<lparr>sy_pub := p'\<rparr>) = sy_pc s"
    "sy_pub (s\<lparr>sy_pub := p'\<rparr>) = p'" by simp_all
  ultimately show ?thesis
    using bal_invD(1,5) [OF inv] unfolding bal_inv_def upd by blast
qed

lemma bal_inv_start:
  assumes inv: "bal_inv s" and idle: "sy_pc s = PIdle"
  shows "bal_inv (s\<lparr>sy_pc := fst (beginProcess (sy_pub s) wid)\<rparr>)"
proof (cases "snapshot (sy_pub s) wid")
  case None
  with inv idle show ?thesis by (simp add: beginProcess_def bal_inv_def)
next
  case (Some st)
  then have st: "pv_state (sy_pub s) wid = Some st" and unconf: "ws_confirmed st \<noteq> Some (ws_key st)"
    by (auto simp: snapshot_def split: option.splits if_splits)
  have pc: "fst (beginProcess (sy_pub s) wid) = PLatest wid st" by (simp add: beginProcess_def Some)
  have settled: "settled (sy_hist s) st'" if "pv_state (sy_pub s) w = Some st'" for w st'
    using bal_invD(4) [OF inv that] by (simp add: stored_ok_def idle)
  have "stored_ok (sy_hist s) (PLatest wid st) w st'" if "pv_state (sy_pub s) w = Some st'" for w st'
    using settled [OF that] that st bal_invD(3) [OF inv st that] by (auto simp: stored_ok_def)
  moreover have "pc_counts (sy_hist s) (PLatest wid st)"
    using settled [OF st] unconf by (auto simp: settled_def)
  ultimately show ?thesis
    using bal_invD(1-3) [OF inv] unfolding bal_inv_def pc by simp
qed

subsection \<open>Steps of the worker\<close>

lemma resume_pc_rev: "resume cr p pc r = Some (p', pc', res) \<Longrightarrow> \<exists>wid rv. pc_rev pc = Some (wid, rv)"
  by (auto elim: resume_elim)

lemma resume_other:
  assumes "resume cr p pc r = Some (p', pc', res)" "pc_rev pc = Some (wid, rv)" "w \<noteq> wid"
  shows "pv_state p' w = pv_state p w"
  using assms by (cases rule: resume_elim) (auto simp: section_state)

text \<open>Only the counts of the worker's own revision change, and they change as its control state says.\<close>

lemma resume_counts_other:
  assumes "resume cr p pc r = Some (p', pc', res)" "pc_rev pc = Some (wid, rv)" "n \<noteq> ws_seq rv"
  shows "preps n (event_of pc r) = 0 \<and> revs n (event_of pc r) = 0"
  using assms by (cases rule: resume_elim) (auto simp: quiet_counts)

lemma resume_pc_counts:
  assumes "resume cr p pc r = Some (p', pc', res)" "pc_counts h pc"
  shows "pc_counts (event_of pc r @ h) pc'"
  using assms by (cases rule: resume_elim) (auto simp: quiet_counts)

lemma resume_counts_own:
  assumes "resume cr p pc r = Some (p', pc', res)" "pc_counts h pc" "pc_rev pc = Some (wid, rv)"
    and "preps (ws_seq rv) h \<le> revs (ws_seq rv) h + 1"
  shows "preps (ws_seq rv) (event_of pc r @ h) \<le> revs (ws_seq rv) (event_of pc r @ h) + 1"
  using assms by (cases rule: resume_elim) (auto simp: quiet_counts)

text \<open>The stored revision the worker is busy with stays in step with its control state.\<close>

lemma resume_stored_own:
  assumes res: "resume cr p pc r = Some (p', pc', res)" and pc: "pc_rev pc = Some (wid, rv)"
    and st: "pv_state p wid = Some st" "pv_state p' wid = Some st'" and seq: "ws_seq st = ws_seq rv"
    and key: "ws_key st = ws_key rv" and held: "pc_stored pc st" "pc_counts h pc"
  shows "if pc' = PIdle then settled (event_of pc r @ h) st' else pc_stored pc' st'"
  using res
proof (cases rule: resume_elim)
  case (stop w rv')
  then have "st' = st" using st by simp
  with stop pc seq held show ?thesis
    by (cases pc) (auto simp: settled_def quiet_counts split: if_splits)
next
  case (store w rv' sig tx)
  with pc st seq show ?thesis by (auto simp: storeAttempt_state)
next
  case (confirm w rv')
  with pc st seq key show ?thesis by (auto simp: confirm_state settled_def)
next
  case (discard w rv' tx)
  with pc st seq held show ?thesis by (auto simp: discardAttempt_state settled_def)
qed (use pc st held in auto)

text \<open>A revision that superseded the worker's stays untouched.\<close>

lemma resume_stored_newer:
  assumes res: "resume cr p pc r = Some (p', pc', res)" and pc: "pc_rev pc = Some (wid, rv)"
    and st: "pv_state p wid = Some st" "pv_state p' wid = Some st'" and seq: "ws_seq st \<noteq> ws_seq rv"
  shows "ws_seq st' = ws_seq st" "ws_prepared st' = ws_prepared st"
  using res st pc seq by (cases rule: resume_elim; auto simp: section_state)+

lemma resume_stored_ok:
  assumes inv: "bal_inv s" and wf: "wf_inv s"
    and res: "resume cr (sy_pub s) (sy_pc s) r = Some (p', pc', res)"
    and st': "pv_state p' wid = Some st'"
  shows "stored_ok (event_of (sy_pc s) r @ sy_hist s) pc' wid st'"
proof -
  let ?h = "sy_hist s" and ?h' = "event_of (sy_pc s) r @ sy_hist s"
  obtain w rv where pc: "pc_rev (sy_pc s) = Some (w, rv)" using resume_pc_rev [OF res] by blast
  obtain st where st: "pv_state (sy_pub s) wid = Some st"
    using resume_state(1) [OF res, of wid] st' by fastforce
  note ok = bal_invD(4) [OF inv st]
  have pc': "pc' = PIdle \<or> pc_rev pc' = Some (w, rv)" using resume_rev [OF res] pc by simp
  consider (other) "w \<noteq> wid" | (own) "w = wid" "ws_seq st = ws_seq rv" | (newer) "w = wid" "ws_seq st \<noteq> ws_seq rv"
    by blast
  then show ?thesis
  proof cases
    case other
    then have eq: "st' = st" using resume_other [OF res pc] st st' by simp
    have "settled ?h st" "ws_seq st \<noteq> ws_seq rv" using ok other pc by (simp_all add: stored_ok_def)
    with resume_counts_other [OF res pc] have "settled ?h' st" by (simp add: settled_def)
    with eq other pc' \<open>ws_seq st \<noteq> ws_seq rv\<close> show ?thesis by (auto simp: stored_ok_def)
  next
    case own
    have d: "ws_key st = ws_key rv"
      using wf pc st own by (auto simp: wf_inv_def descends_def)
    have "pc_stored (sy_pc s) st" using ok own pc by (simp add: stored_ok_def)
    with resume_stored_own [OF res _ _ _ own(2) d _ bal_invD(5) [OF inv]] pc own st st'
    have "if pc' = PIdle then settled ?h' st' else pc_stored pc' st'" by simp
    moreover have "ws_seq st' = ws_seq rv"
      using resume_state(2) [OF res st] st' own by auto
    ultimately show ?thesis using pc' own by (auto simp: stored_ok_def split: if_splits)
  next
    case newer
    have zero: "ws_prepared st = None" "preps (ws_seq st) ?h = 0" "revs (ws_seq st) ?h = 0"
      using ok newer pc by (simp_all add: stored_ok_def)
    note same = resume_stored_newer [OF res pc [unfolded newer(1)] st st' newer(2)]
    have "preps (ws_seq st) ?h' = 0" "revs (ws_seq st) ?h' = 0"
      using zero resume_counts_other [OF res pc newer(2)] by simp_all
    with zero same newer pc' show ?thesis by (auto simp: stored_ok_def settled_def)
  qed
qed

lemma bal_inv_resume:
  assumes inv: "bal_inv s" and wf: "wf_inv s"
    and res: "resume cr (sy_pub s) (sy_pc s) r = Some (p', pc', res)"
  shows "bal_inv \<lparr>sy_pub = p', sy_pc = pc', sy_hist = event_of (sy_pc s) r @ sy_hist s\<rparr>"
proof -
  let ?h' = "event_of (sy_pc s) r @ sy_hist s"
  obtain w rv where pc: "pc_rev (sy_pc s) = Some (w, rv)" using resume_pc_rev [OF res] by blast
  have "preps n ?h' \<le> revs n ?h' + 1" for n
    using resume_counts_own [OF res bal_invD(5) [OF inv] pc bal_invD(1) [OF inv]]
      resume_counts_other [OF res pc, of n] bal_invD(1) [OF inv, of n]
    by (cases "n = ws_seq rv") auto
  moreover have "preps n ?h' = 0 \<and> revs n ?h' = 0" if "unat (pv_seq p') < unat n" for n
  proof -
    have "unat (ws_seq rv) \<le> unat (pv_seq (sy_pub s))" using wf pc by (auto simp: wf_inv_def rev_ok_def)
    with that have "n \<noteq> ws_seq rv" by (auto simp: resume_same [OF res])
    then show ?thesis
      using resume_counts_other [OF res pc, of n] bal_invD(2) [OF inv, of n] that
      by (simp add: resume_same [OF res])
  qed
  moreover have "w = w'" if new: "pv_state p' w = Some st" "pv_state p' w' = Some st'" "ws_seq st = ws_seq st'"
    for w w' st st'
  proof -
    obtain u u' where u: "pv_state (sy_pub s) w = Some u" "pv_state (sy_pub s) w' = Some u'"
      using new(1,2) resume_state(1) [OF res, of w] resume_state(1) [OF res, of w'] by fastforce
    moreover have "ws_seq u = ws_seq st" "ws_seq u' = ws_seq st'"
      using resume_state(2) [OF res u(1)] resume_state(2) [OF res u(2)] new by auto
    ultimately show ?thesis using bal_invD(3) [OF inv u] new(3) by simp
  qed
  moreover have "pc_counts ?h' pc'" by (rule resume_pc_counts [OF res bal_invD(5) [OF inv]])
  moreover note resume_stored_ok [OF inv wf res]
  ultimately show ?thesis unfolding bal_inv_def sys.select_convs by blast
qed

lemma bal_inv_reach: "reach cr p0 s \<Longrightarrow> fresh_publisher p0 \<Longrightarrow> bal_inv s"
proof (induction rule: reach.induct)
  case init
  then show ?case by (simp add: bal_inv_def fresh_publisher_def)
next
  case (step s s')
  then have "bal_inv s" "wf_inv s" using wf_inv_reach by blast+
  from step.hyps(2) this show ?case
    by cases (auto intro: bal_inv_enqueue bal_inv_start bal_inv_resume)
qed

end
