(* ===== verification/Publisher_V2_Props.thy ===== *)
theory Publisher_V2_Props
  imports Publisher_V2_Once
begin

section \<open>Properties of the v2 publisher\<close>

text \<open>
  The guarantees of \<^verbatim>\<open>publisher_v2.go\<close>, over every interleaving of \<open>Enqueue\<close> calls with the worker and
  every answer of chain and signer: what confirmation means, that a revision is prepared once, that what
  is sent is signed for exactly its revision, that the chain is read before anything is prepared; and
  the behaviour of each critical section, with two departures from what the comments promise.

  \<open>exec\<close> runs a list of actions; it is what concrete histories are built with.
\<close>

subsection \<open>Concrete runs\<close>

datatype 'tx action = AEnqueue desired | AStart hash32 | AResume "'tx response"

fun exec :: "('pub, 'key) crypto \<Rightarrow> ('key, 'tx) sys \<Rightarrow> 'tx action list \<Rightarrow> ('key, 'tx) sys option" where
  "exec cr s [] = Some s"
| "exec cr s (AEnqueue d # as) =
     (case Enqueue (sy_pub s) d of
        Inl err \<Rightarrow> None
      | Inr (p', calls) \<Rightarrow> if pv_seq (sy_pub s) + 1 = 0 then None else exec cr (s\<lparr>sy_pub := p'\<rparr>) as)"
| "exec cr s (AStart wid # as) =
     (if sy_pc s = PIdle then exec cr (s\<lparr>sy_pc := fst (beginProcess (sy_pub s) wid)\<rparr>) as else None)"
| "exec cr s (AResume r # as) =
     (case resume cr (sy_pub s) (sy_pc s) r of
        None \<Rightarrow> None
      | Some (p', pc', res) \<Rightarrow>
          exec cr \<lparr>sy_pub = p', sy_pc = pc', sy_hist = event_of (sy_pc s) r @ sy_hist s\<rparr> as)"

lemma exec_reach: "reach cr p0 s \<Longrightarrow> exec cr s as = Some s' \<Longrightarrow> reach cr p0 s'"
proof (induction cr s as rule: exec.induct)
  case (1 cr s)
  then show ?case by simp
next
  case (2 cr s d as)
  then obtain p' calls where enq: "Enqueue (sy_pub s) d = Inr (p', calls)" "pv_seq (sy_pub s) + 1 \<noteq> 0"
    and rest: "exec cr (s\<lparr>sy_pub := p'\<rparr>) as = Some s'"
    by (auto split: sum.splits if_splits prod.splits)
  have "reach cr p0 (s\<lparr>sy_pub := p'\<rparr>)"
    using 2(2) step.enqueue [OF enq] by (rule reach.step)
  with 2(1) [OF enq(1) refl enq(2)] rest show ?case by blast
next
  case (3 cr s wid as)
  then show ?case by (auto split: if_splits intro: reach.step step.start)
next
  case (4 cr s r as)
  then obtain p' pc' res where res: "resume cr (sy_pub s) (sy_pc s) r = Some (p', pc', res)"
    and rest: "exec cr \<lparr>sy_pub = p', sy_pc = pc', sy_hist = event_of (sy_pc s) r @ sy_hist s\<rparr> as = Some s'"
    by (auto split: option.splits prod.splits)
  from 4(2) step.resume [OF res]
  have "reach cr p0 \<lparr>sy_pub = p', sy_pc = pc', sy_hist = event_of (sy_pc s) r @ sy_hist s\<rparr>"
    by (rule reach.step)
  with 4(1) [OF res refl refl] rest show ?case by blast
qed

text \<open>A publisher whose verifier accepts every signature, and a desired revision of one Deployment.\<close>

definition accept_all :: "(unit, unit) crypto" where
  "accept_all = \<lparr>x509_ParsePKIXPublicKey = \<lambda>_. Inr (), as_ecdsa = \<lambda>_. Some (), ecdsa_VerifyASN1 = \<lambda>_ _ _. True,
      on_P256 = \<lambda>_. True\<rparr>"

definition pub0 :: "(unit, nat) publisher_v2" where
  "pub0 = \<lparr>pv_fingerprint = 9, pv_pub = (), pv_state = Map.empty, pv_seq = 0\<rparr>"

definition web_desired :: "hash32 \<Rightarrow> desired" where
  "web_desired h =
     \<lparr>ds_Identity = web_identity ''prod'', ds_Version = V2, ds_ConfigHash = h, ds_UID = ''u1'', ds_Label = ''default/web''\<rparr>"

definition web_id :: hash32 where
  "web_id = projr (WorkloadID (web_identity ''prod''))"

lemma web_WorkloadID: "WorkloadID (web_identity ''prod'') = Inr web_id"
  using Encode_web(1) by (metis WorkloadID_def bindE_simps(2) sum.sel(2) web_id_def)

lemma web_digest: "\<exists>digest. envelope_SigningDigest (envelopeFor (web_desired h)) = Inr digest"
proof -
  have "Encode (e_Identity (envelopeFor (web_desired h))) = Inr (projr (Encode (web_identity ''prod'')))"
    using Encode_web(1) by (simp add: envelopeFor_def web_desired_def)
  then show ?thesis by (simp add: envelope_SigningDigest_def SigningPreimage_eq)
qed

definition no_record :: on_chain where
  "no_record = \<lparr>oc_Exists = False, oc_Key = zero_key, oc_Signature = []\<rparr>"

definition publish_run :: "nat action list" where
  "publish_run =
     [AEnqueue (web_desired 7), AStart web_id, AResume (RLatest (Inr no_record)), AResume (RSign (Inr ''sig'')),
      AResume (RPrepare (Inr 1)), AResume RLocked, AResume (RSend (Inr SendAccepted)),
      AResume (RWait (Inr WaitMinedSuccess)), AResume RLocked]"

definition start_sys :: "(unit, nat) sys" where
  "start_sys = \<lparr>sy_pub = pub0, sy_pc = PIdle, sy_hist = []\<rparr>"

lemma start_sys_reach: "reach accept_all pub0 start_sys" "fresh_publisher pub0"
  by (simp_all add: start_sys_def reach.init fresh_publisher_def pub0_def)

lemmas publisher_eval =
  start_sys_def pub0_def publish_run_def Enqueue_def Let_def web_WorkloadID zero_workload_state_def
  beginProcess_def snapshot_def matches_def no_record_def prepareOnce_def storeAttempt_def confirm_def
  discardAttempt_def

lemma web_desired_identity [simp]: "ds_Identity (web_desired h) = web_identity ''prod''"
  by (simp add: web_desired_def)

definition published_sys :: "(unit, nat) sys" where
  "published_sys = the (exec accept_all start_sys publish_run)"

lemma publish_run_exec:
  "exec accept_all start_sys publish_run = Some published_sys"
  "\<exists>st. pv_state (sy_pub published_sys) web_id = Some st \<and> ws_confirmed st = Some (revisionKey pub0 (web_desired 7))"
  "preps 1 (sy_hist published_sys) = 1" "revs 1 (sy_hist published_sys) = 0"
  "EvSent 1 1 \<in> set (sy_hist published_sys)"
  "EvPrepared 1 web_id (revisionKey pub0 (web_desired 7)) ''sig'' 1 \<in> set (sy_hist published_sys)"
  using web_digest [of 7] unfolding published_sys_def
  by (auto simp: publisher_eval revisionKey_def)

lemma published_reach: "reach accept_all pub0 published_sys"
  using exec_reach [OF start_sys_reach(1) publish_run_exec(1)] .

subsection \<open>What is sent and when\<close>

text \<open>The history after a step: the new events come first.\<close>

lemma step_hist: "step cr s s' \<Longrightarrow> \<exists>es. sy_hist s' = es @ sy_hist s"
  by (auto elim: step.cases)

lemma step_same_key: "step cr s s' \<Longrightarrow> pv_fingerprint (sy_pub s') = pv_fingerprint (sy_pub s)"
  by (auto elim!: stepE Enqueue_cases simp: resume_same)

definition sent_ok :: "('key, 'tx) publisher_v2 \<Rightarrow> 'tx event list \<Rightarrow> u64 \<Rightarrow> 'tx \<Rightarrow> bool" where
  "sent_ok p h n tx \<longleftrightarrow>
     (\<exists>wid d digest sig. WorkloadID (ds_Identity d) = Inr wid
        \<and> envelope_SigningDigest (envelopeFor d) = Inr digest \<and> EvSigned n digest sig \<in> set h
        \<and> EvPrepared n wid (revisionKey p d) sig tx \<in> set h)"

lemma sent_ok_mono:
  assumes "sent_ok p h n tx" "set h \<subseteq> set h'" "pv_fingerprint p' = pv_fingerprint p"
  shows "sent_ok p' h' n tx"
  using assms(1,2) unfolding sent_ok_def revisionKey_cong [OF assms(3)] by blast

lemma sent_ok_prepared:
  "rev_ok p h wid rv \<Longrightarrow> prepared_for h wid rv tx \<Longrightarrow> sent_ok p h (ws_seq rv) tx"
  unfolding rev_ok_def prepared_for_def signed_for_def sent_ok_def by metis

lemma sent_inv_reach:
  assumes "reach cr p0 s" "fresh_publisher p0" "EvSent n tx \<in> set (sy_hist s)"
  shows "sent_ok (sy_pub s) (sy_hist s) n tx"
  using assms
proof (induction arbitrary: n tx rule: reach.induct)
  case init
  then show ?case by simp
next
  case (step s s')
  have wf: "wf_inv s" using step.hyps(1) step.prems(1) by (rule wf_inv_reach)
  obtain es where h: "sy_hist s' = es @ sy_hist s" using step_hist [OF step.hyps(2)] by blast
  have "sent_ok (sy_pub s) (sy_hist s) n tx"
  proof (cases "EvSent n tx \<in> set (sy_hist s)")
    case True
    with step.IH step.prems(1) show ?thesis by blast
  next
    case False
    from step.hyps(2) show ?thesis
    proof cases
      case (resume r p' pc' res)
      with False step.prems(2) have ev: "EvSent n tx \<in> set (event_of (sy_pc s) r)" by auto
      from resume(2) show ?thesis
      proof (cases rule: resume_elim)
        case (stop wid rv)
        with ev show ?thesis by (auto simp: quiet_def)
      next
        case (send wid rv tx')
        with ev have "n = ws_seq rv" "tx = tx'" by auto
        moreover have "rev_ok (sy_pub s) (sy_hist s) wid rv" "prepared_for (sy_hist s) wid rv tx'"
          using wf by (auto simp: wf_inv_def send(1))
        ultimately show ?thesis using sent_ok_prepared by simp
      qed (use ev in auto)
    qed (use False step.prems(2) in auto)
  qed
  then show ?case
    by (rule sent_ok_mono) (use h step_same_key [OF step.hyps(2)] in auto)
qed

text \<open>Every control state after the first chain read knows of that read.\<close>

definition asked :: "('key, 'tx) sys \<Rightarrow> bool" where
  "asked s \<longleftrightarrow>
     (\<forall>wid rv. pc_rev (sy_pc s) = Some (wid, rv) \<longrightarrow> sy_pc s \<noteq> PLatest wid rv \<longrightarrow>
        (\<exists>oc. EvLatest wid oc \<in> set (sy_hist s)))"

lemma asked_resume:
  assumes "asked s" "resume cr (sy_pub s) (sy_pc s) r = Some (p', pc', res)"
  shows "asked \<lparr>sy_pub = p', sy_pc = pc', sy_hist = event_of (sy_pc s) r @ sy_hist s\<rparr>"
  using assms(2,1) by (cases rule: resume_elim) (auto simp: asked_def)

lemma asked_reach: "reach cr p0 s \<Longrightarrow> asked s"
proof (induction rule: reach.induct)
  case init
  then show ?case by (simp add: asked_def)
next
  case (step s s')
  from step.hyps(2) step.IH show ?case
    by cases (auto simp: asked_resume, auto simp: asked_def beginProcess_def split: option.splits)
qed

lemma asked_before_prepare:
  assumes "reach cr p0 s" "sy_hist s = pre @ EvPrepared n wid k sig tx # post"
  shows "\<exists>oc. EvLatest wid oc \<in> set post"
  using assms
proof (induction arbitrary: pre rule: reach.induct)
  case init
  then show ?case by simp
next
  case (step s s')
  from step.hyps(2) show ?case
  proof cases
    case (resume r p' pc' res)
    show ?thesis
    proof (cases "\<exists>pre'. sy_hist s = pre' @ EvPrepared n wid k sig tx # post")
      case True
      with step.IH show ?thesis by blast
    next
      case False
      have h: "event_of (sy_pc s) r @ sy_hist s = pre @ EvPrepared n wid k sig tx # post"
        using step.prems resume(1) by simp
      have "event_of (sy_pc s) r = [] \<or> (\<exists>e. event_of (sy_pc s) r = [e])"
        by (cases "(sy_pc s, r)" rule: event_of.cases) auto
      with h False have e: "event_of (sy_pc s) r = [EvPrepared n wid k sig tx]" "post = sy_hist s"
        by (auto simp: Cons_eq_append_conv)
      from resume(2) show ?thesis
      proof (cases rule: resume_elim)
        case (prepare w rv sig' tx')
        with e asked_reach [OF step.hyps(1)] show ?thesis by (auto simp: asked_def)
      qed (use e in \<open>auto simp: quiet_def\<close>)
    qed
  qed (use step in auto)
qed

subsection \<open>Guarantees over all interleavings\<close>

text \<open>
  C7: a confirmed revision is on the chain for a reason. In every reachable state, a workload whose
  revision \<open>k\<close> is recorded as confirmed was either read from the chain as a record with key \<open>k\<close> whose
  signature verifies, under the publisher's key, against the envelope of a revision with that key and
  identity, or was prepared with a signature over such an envelope and mined.
\<close>

theorem confirmed_has_evidence:
  assumes "reach cr p0 s" "fresh_publisher p0"
    and "pv_state (sy_pub s) wid = Some st" "ws_confirmed st = Some k"
  shows "record_evidence cr (sy_pub s) (sy_hist s) wid k \<or> mined_evidence (sy_pub s) (sy_hist s) wid k"
  using conf_inv_reach [OF assms(1,2)] assms(3,4) unfolding conf_inv_def evidence_def by blast

theorem confirmed_has_evidence_witness:
  "\<exists>k. record_evidence accept_all (sy_pub published_sys) (sy_hist published_sys) web_id k
     \<or> mined_evidence (sy_pub published_sys) (sy_hist published_sys) web_id k"
  using publish_run_exec(2) confirmed_has_evidence [OF published_reach start_sys_reach(2)] by blast

text \<open>
  A revision is prepared once, and again only after a revert. In every reachable state, and so at
  every moment of a run, the transactions prepared for a revision outnumber its reverted ones by at most
  one, whatever the chain answers and however often the revision is retried or superseded.
\<close>

lemma prepared_once:
  assumes "reach cr p0 s" "fresh_publisher p0"
  shows "preps n (sy_hist s) \<le> revs n (sy_hist s) + 1"
  using bal_invD(1) [OF bal_inv_reach [OF assms]] .

text \<open>
  What is sent is signed for exactly what it publishes. Every transaction handed to the chain was
  prepared for one workload and one revision, with a signature the signer made over the signing digest
  of the envelope of a desired state with that workload identity and that revision key.
\<close>

lemma sent_is_signed:
  assumes "reach cr p0 s" "fresh_publisher p0" "EvSent n tx \<in> set (sy_hist s)"
  shows "\<exists>wid d digest sig. WorkloadID (ds_Identity d) = Inr wid
     \<and> envelope_SigningDigest (envelopeFor d) = Inr digest \<and> EvSigned n digest sig \<in> set (sy_hist s)
     \<and> EvPrepared n wid (revisionKey (sy_pub s) d) sig tx \<in> set (sy_hist s)"
  using sent_inv_reach [OF assms] unfolding sent_ok_def .

text \<open>
  The chain is asked before anything is prepared: when a transaction is prepared for a workload, a
  record of that workload has been read from the chain before.
\<close>

lemma chain_read_before_prepare:
  assumes "reach cr p0 s" "sy_hist s = pre @ EvPrepared n wid k sig tx # post"
  shows "\<exists>oc. EvLatest wid oc \<in> set post"
  by (rule asked_before_prepare [OF assms])

text \<open>The calls a control state is away from the end of the run, at most.\<close>

fun pc_rank :: "'tx pc \<times> 'tx outcome option \<Rightarrow> nat" where
  "pc_rank (pc, Some res) = 0"
| "pc_rank (PIdle, None) = 0"
| "pc_rank (PLatest wid rv, None) = 8"
| "pc_rank (PSign wid rv digest, None) = 7"
| "pc_rank (PPrepare wid rv sig, None) = 6"
| "pc_rank (PStore wid rv sig tx, None) = 5"
| "pc_rank (PSend wid rv tx, None) = 4"
| "pc_rank (PWait wid rv tx, None) = 3"
| "pc_rank (PReconcile wid rv tx, None) = 2"
| "pc_rank (PConfirm wid rv, None) = 1"
| "pc_rank (PDiscard wid rv tx, None) = 1"

lemma prepareOnce_rank: "pc_rank (prepareOnce wid rv) < 8"
  by (simp add: prepareOnce_def split: option.splits sum.splits)

lemma resume_rank:
  assumes "resume cr p pc r = Some (p', st)"
  shows "pc_rank st < pc_rank (pc, None)"
  using assms
  by (cases "(cr, p, pc, r)" rule: resume.cases)
    (simp_all add: prepareOnce_rank split: sum.splits if_splits wait_outcome.splits prod.splits, auto simp: prepareOnce_rank)

lemma runProcess_length:
  "runProcess cr p st rs = Some x \<Longrightarrow> length rs \<le> pc_rank st"
proof (induction cr p st rs rule: runProcess.induct)
  case (3 cr p pc r rs)
  then obtain p' st' where res: "resume cr p pc r = Some (p', st')" "runProcess cr p' st' rs = Some x"
    by (auto split: option.splits prod.splits)
  with 3(1) [OF res(1) refl] have "length rs \<le> pc_rank st'" by blast
  with resume_rank [OF res(1)] show ?case by simp
qed (auto split: if_splits)

text \<open>
  An environment answers the call a control state is about to make; the run follows it when each of its
  answers is the environment's.
\<close>

fun follows :: "('pub, 'key) crypto \<Rightarrow> (('key, 'tx) publisher_v2 \<Rightarrow> 'tx pc \<Rightarrow> 'tx response) \<Rightarrow> ('key, 'tx) publisher_v2
    \<Rightarrow> 'tx pc \<times> 'tx outcome option \<Rightarrow> 'tx response list \<Rightarrow> bool" where
  "follows cr env p (pc, Some res) rs \<longleftrightarrow> rs = []"
| "follows cr env p (pc, None) [] \<longleftrightarrow> False"
| "follows cr env p (pc, None) (r # rs) \<longleftrightarrow>
     r = env p pc \<and> (case resume cr p pc r of None \<Rightarrow> False | Some (p', st) \<Rightarrow> follows cr env p' st rs)"

definition answers_all :: "('pub, 'key) crypto \<Rightarrow> (('key, 'tx) publisher_v2 \<Rightarrow> 'tx pc \<Rightarrow> 'tx response) \<Rightarrow> bool" where
  "answers_all cr env \<longleftrightarrow> (\<forall>p pc. pc \<noteq> PIdle \<longrightarrow> resume cr p pc (env p pc) \<noteq> None)"

lemma resume_continues: "resume cr p pc r = Some (p', pc', None) \<Longrightarrow> pc_rev pc' = pc_rev pc \<and> pc' \<noteq> PIdle"
  by (erule resume_SomeE)
    (auto simp: prepareOnce_def split: sum.splits if_splits option.splits prod.splits wait_outcome.splits)

lemma runProcess_follows:
  assumes "answers_all cr env" "fst st \<noteq> PIdle \<or> snd st \<noteq> None"
  shows "\<exists>rs p' res. follows cr env p st rs \<and> runProcess cr p st rs = Some (p', res)"
  using assms(2)
proof (induction "pc_rank st" arbitrary: p st rule: less_induct)
  case less
  obtain pc res where st: "st = (pc, res)" by (cases st)
  show ?case
  proof (cases res)
    case (Some out)
    then have "follows cr env p st [] \<and> runProcess cr p st [] = Some (p, out)" by (simp add: st)
    then show ?thesis by blast
  next
    case None
    with less.prems st assms(1) obtain p' pc' res' where next_state: "resume cr p pc (env p pc) = Some (p', pc', res')"
      by (fastforce simp: answers_all_def)
    then have "pc' \<noteq> PIdle \<or> res' \<noteq> None" using resume_continues [of cr p pc "env p pc" p' pc'] by (cases res') auto
    with less.hyps [of "(pc', res')" p'] resume_rank [OF next_state] st None
    obtain rs p'' out where "follows cr env p' (pc', res') rs" "runProcess cr p' (pc', res') rs = Some (p'', out)"
      by auto
    with next_state st None have "follows cr env p st (env p pc # rs)" "runProcess cr p st (env p pc # rs) = Some (p'', out)"
      by simp_all
    then show ?thesis by blast
  qed
qed

text \<open>
  C33: \<^verbatim>\<open>process\<close> returns. Whatever environment answers its calls, with successes, errors, unknown outcomes or
  reverts, a run from any memory ends with an outcome, and it has made at most eight calls by then.
\<close>

theorem process_terminates:
  assumes "answers_all cr env"
  shows "\<exists>rs p' res. follows cr env p (beginProcess p wid) rs \<and> length rs \<le> 8 \<and> process cr p wid rs = Some (p', res)"
proof -
  have start: "fst (beginProcess p wid) \<noteq> PIdle \<or> snd (beginProcess p wid) \<noteq> None"
    and rank: "pc_rank (beginProcess p wid) \<le> 8"
    by (simp_all add: beginProcess_def split: option.splits)
  obtain rs p' res where run: "follows cr env p (beginProcess p wid) rs"
    "runProcess cr p (beginProcess p wid) rs = Some (p', res)"
    using runProcess_follows [OF assms start] by blast
  with runProcess_length [OF run(2)] rank show ?thesis by (fastforce simp: process_def)
qed

text \<open>An environment in which every read fails.\<close>

fun failing_env :: "('key, 'tx) publisher_v2 \<Rightarrow> 'tx pc \<Rightarrow> 'tx response" where
  "failing_env p (PLatest wid rv) = RLatest (Inl ''down'')"
| "failing_env p (PReconcile wid rv tx) = RLatest (Inl ''down'')"
| "failing_env p (PSign wid rv digest) = RSign (Inl ''down'')"
| "failing_env p (PPrepare wid rv sig) = RPrepare (Inl ''down'')"
| "failing_env p (PSend wid rv tx) = RSend (Inl ''down'')"
| "failing_env p (PWait wid rv tx) = RWait (Inl ''down'')"
| "failing_env p pc = RLocked"

lemma failing_env_answers: "answers_all cr failing_env"
proof -
  have "resume cr p pc (failing_env p pc) \<noteq> None" if "pc \<noteq> PIdle" for p pc
    using that by (cases pc) (auto split: prod.splits)
  then show ?thesis unfolding answers_all_def by blast
qed

theorem process_terminates_witness:
  "\<exists>rs p' res. follows accept_all failing_env pub0 (beginProcess pub0 web_id) rs \<and> length rs \<le> 8
     \<and> process accept_all pub0 web_id rs = Some (p', res)"
  by (rule process_terminates [OF failing_env_answers])

subsection \<open>One run, branch by branch\<close>

text \<open>
  The answers of a run in which everything works: the chain holds no matching record, and what the
  revision still lacks (signature, transaction) is made, sent and mined.
\<close>

definition good_answers :: "'tx workload_state \<Rightarrow> on_chain \<Rightarrow> bytes \<Rightarrow> 'tx \<Rightarrow> send_outcome \<Rightarrow> 'tx response list" where
  "good_answers rv oc sig tx sent =
     [RLatest (Inr oc)]
     @ (if ws_prepared rv = None
        then (if ws_signature rv = None then [RSign (Inr sig)] else []) @ [RPrepare (Inr tx), RLocked] else [])
     @ [RSend (Inr sent), RWait (Inr WaitMinedSuccess), RLocked]"

text \<open>
  The good path publishes and confirms, wherever an earlier run stopped. From any unconfirmed
  revision (fresh, signed, or with a transaction already prepared), when the chain holds no matching
  record and the calls still to be made succeed, \<^verbatim>\<open>process\<close> returns without error and without asking to run
  again; it signs only if there is no signature and prepares only if there is no transaction; the revision
  is confirmed, its transaction gone, its signature kept, every other workload untouched, and a later run
  has nothing to do.
\<close>

lemma process_publishes:
  assumes "snapshot p wid = Some rv" "\<not> matches cr p rv oc"
    and "envelope_SigningDigest (envelopeFor (ws_desired rv)) = Inr digest"
  shows "\<exists>p'. process cr p wid (good_answers rv oc sig tx sent) = Some (p', Inr False)
     \<and> pv_state p' = (pv_state p)(wid \<mapsto> rv\<lparr>ws_signature :=
            if ws_signature rv = None \<and> ws_prepared rv = None then Some sig else ws_signature rv,
            ws_confirmed := Some (ws_key rv), ws_prepared := None\<rparr>)
     \<and> snapshot p' wid = None"
proof -
  have st: "pv_state p wid = Some rv"
    using assms(1) by (auto simp: snapshot_def split: option.splits if_splits)
  note run = process_def beginProcess_def assms(1) prepareOnce_def storeAttempt_def st confirm_def Let_def
    good_answers_def
  show ?thesis
  proof (cases "ws_prepared rv")
    case (Some tx')
    with assms(2) show ?thesis by (simp add: run) (simp add: snapshot_def)
  next
    case None
    then show ?thesis
      using assms(2,3) by (cases "ws_signature rv") (simp_all add: run, simp_all add: snapshot_def)
  qed
qed

definition enqueued_pub :: "(unit, nat) publisher_v2" where
  "enqueued_pub = fst (projr (Enqueue pub0 (web_desired 7)))"

lemma enqueued_snapshot:
  "\<exists>rv. snapshot enqueued_pub web_id = Some rv \<and> ws_signature rv = None \<and> ws_prepared rv = None
     \<and> ws_desired rv = web_desired 7"
  by (simp add: enqueued_pub_def publisher_eval)

text \<open>
  Retries reuse the transaction. A run that finds a prepared transaction goes straight to sending it:
  it neither signs nor prepares, and if the outcome stays unknown the attempt is kept as it is.
\<close>

lemma process_reuses_attempt:
  assumes "snapshot p wid = Some rv" "ws_prepared rv = Some tx" "\<not> matches cr p rv oc" "\<not> matches cr p rv oc'"
  shows "process cr p wid [RLatest (Inr oc), RSend (Inr sent), RWait (Inr WaitUnknown), RLatest (Inr oc')]
     = Some (p, Inl (ErrOutcomeUnknown (ds_Label (ws_desired rv)) tx))"
  using assms by (simp add: process_def beginProcess_def prepareOnce_def)

definition held_pub :: "(unit, nat) publisher_v2" where
  "held_pub =
     (case snapshot enqueued_pub web_id of
        Some rv \<Rightarrow> storeAttempt enqueued_pub web_id rv ''sig'' 1
      | None \<Rightarrow> enqueued_pub)"

text \<open>
  A revert frees the attempt and nothing else: after a reverted transaction the run fails with the
  revert error, the transaction is dropped and the signature kept, so the next run prepares afresh.
\<close>

lemma process_revert_discards:
  assumes "snapshot p wid = Some rv" "ws_prepared rv = Some tx" "\<not> matches cr p rv oc"
  shows "\<exists>p'. process cr p wid [RLatest (Inr oc), RSend (Inr sent), RWait (Inr WaitReverted), RLocked]
         = Some (p', Inl (ErrReverted (ds_Label (ws_desired rv)) tx))
     \<and> pv_state p' = (pv_state p)(wid \<mapsto> rv\<lparr>ws_prepared := None\<rparr>)"
proof -
  have st: "pv_state p wid = Some rv"
    using assms(1) by (auto simp: snapshot_def split: option.splits if_splits)
  then show ?thesis
    using assms by (simp add: process_def beginProcess_def prepareOnce_def discardAttempt_def)
qed

subsection \<open>Enqueue\<close>

text \<open>
  A new revision supersedes. When the desired state is neither the confirmed nor the currently
  desired revision of its workload, \<^verbatim>\<open>Enqueue\<close> installs it under a fresh sequence number, drops signature and
  transaction of the old one, keeps what is confirmed, leaves every other workload alone and queues the
  workload.
\<close>

lemma Enqueue_supersedes:
  assumes "WorkloadID (ds_Identity d) = Inr wid" "pv_state p wid = Some st"
    and "ws_confirmed st \<noteq> Some (revisionKey p d)" "ws_key st \<noteq> revisionKey p d"
  shows "Enqueue p d = Inr (p\<lparr>pv_seq := pv_seq p + 1,
      pv_state := (pv_state p)(wid \<mapsto> st\<lparr>ws_desired := d, ws_seq := pv_seq p + 1, ws_key := revisionKey p d,
        ws_signature := None, ws_prepared := None\<rparr>)\<rparr>, [QAdd wid])"
  using assms by (simp add: Enqueue_def Let_def)

lemma held_pub_state:
  "\<exists>st. pv_state held_pub web_id = Some st \<and> ws_confirmed st = None
     \<and> ws_key st = revisionKey pub0 (web_desired 7) \<and> ws_seq st \<noteq> 0 \<and> ws_prepared st = Some 1"
  "pv_fingerprint held_pub = pv_fingerprint pub0"
  by (simp_all add: held_pub_def enqueued_pub_def publisher_eval revisionKey_def)

lemma other_hash_other_key: "revisionKey p (web_desired h) = revisionKey p (web_desired h') \<longleftrightarrow> h = h'"
  by (auto simp: revisionKey_def web_desired_def Incarnation_def envelopeFor_def)

text \<open>
  C34: a rollback to the confirmed revision is dropped. When revision A is confirmed and a newer revision
  B is desired but not yet confirmed, enqueueing A again changes nothing and queues nothing. The comment on
  \<^verbatim>\<open>Enqueue\<close> says as much, that a revision identical to the confirmed one is dropped; the consequence is that the
  rollback does not supersede B: the worker still finds B and goes on to publish it.
\<close>

theorem rollback_to_confirmed_is_dropped:
  assumes "WorkloadID (ds_Identity a) = Inr wid" "pv_state p wid = Some st" "ws_seq st \<noteq> 0"
    and "ws_confirmed st = Some (revisionKey p a)" "ws_key st \<noteq> revisionKey p a"
  shows "Enqueue p a = Inr (p, []) \<and> snapshot p wid = Some st"
proof -
  have "p\<lparr>pv_state := (pv_state p)(wid \<mapsto> st)\<rparr> = p" using assms(2) by (simp add: fun_upd_idem)
  with assms show ?thesis by (simp add: Enqueue_def snapshot_def)
qed

definition moved_on :: "nat action list" where
  "moved_on = publish_run @ [AEnqueue (web_desired 8)]"

definition moved_on_pub :: "(unit, nat) publisher_v2" where
  "moved_on_pub = sy_pub (the (exec accept_all start_sys moved_on))"

lemma moved_on_state:
  "\<exists>st. pv_state moved_on_pub web_id = Some st \<and> ws_seq st \<noteq> 0
     \<and> ws_confirmed st = Some (revisionKey moved_on_pub (web_desired 7))
     \<and> ws_key st = revisionKey moved_on_pub (web_desired 8)"
  using web_digest [of 7] other_hash_other_key [of pub0 7 8]
  by (auto simp: moved_on_pub_def moved_on_def publisher_eval revisionKey_def web_desired_def envelopeFor_def Incarnation_def)

theorem rollback_to_confirmed_is_dropped_witness:
  "Enqueue moved_on_pub (web_desired 7) = Inr (moved_on_pub, [])
   \<and> (\<exists>st. snapshot moved_on_pub web_id = Some st \<and> ws_key st = revisionKey moved_on_pub (web_desired 8))"
proof -
  obtain st where st: "pv_state moved_on_pub web_id = Some st" "ws_seq st \<noteq> 0"
    "ws_confirmed st = Some (revisionKey moved_on_pub (web_desired 7))"
    "ws_key st = revisionKey moved_on_pub (web_desired 8)" using moved_on_state by blast
  have "ws_key st \<noteq> revisionKey moved_on_pub (web_desired 7)"
    using st(4) other_hash_other_key [of moved_on_pub 8 7] by simp
  with rollback_to_confirmed_is_dropped [of "web_desired 7" web_id moved_on_pub st] st web_WorkloadID
  show ?thesis by simp
qed

text \<open>
  A signature is lost when preparing fails. A run that signs and then fails to prepare leaves the
  publisher as it was, so the next run signs again, although the package comment says that a revision is
  signed once.
\<close>

lemma failed_prepare_forgets_signature:
  assumes "snapshot p wid = Some rv" "ws_signature rv = None" "ws_prepared rv = None"
    and "envelope_SigningDigest (envelopeFor (ws_desired rv)) = Inr digest" "\<not> matches cr p rv oc"
  shows "process cr p wid [RLatest (Inr oc), RSign (Inr sig), RPrepare (Inl err)] = Some (p, Inl (ErrPreparing err))
     \<and> resume cr p (PLatest wid rv) (RLatest (Inr oc)) = Some (p, PSign wid rv digest, None)"
  using assms by (simp add: process_def beginProcess_def prepareOnce_def)

text \<open>
  Confirming on behalf of a superseded revision. When a newer revision was enqueued while the worker
  was busy, \<^verbatim>\<open>confirm\<close> records the worker's key as confirmed all the same, keeps the newer revision with its
  signature and transaction, and asks for another run.
\<close>

lemma confirm_superseded:
  assumes "pv_state p wid = Some st" "ws_seq st \<noteq> ws_seq rv"
  shows "confirm p wid rv
     = (p\<lparr>pv_state := (pv_state p)(wid \<mapsto> st\<lparr>ws_confirmed := Some (ws_key rv)\<rparr>)\<rparr>, True)
     \<and> processNextCalls wid (Inr True) = [QForget wid, QAdd wid, QDone wid]"
  using assms by (simp add: confirm_def processNextCalls_def Let_def)

end
