(* ===== verification/Registry.thy ===== *)
theory Registry
  imports Envelope
begin

section \<open>The registry contracts\<close>

text \<open>
  \<^verbatim>\<open>contracts/contracts/AttestationRegistry.sol\<close> and \<^verbatim>\<open>AttestationRegistryV2.sol\<close>: the on-chain log the
  operator writes and the verifier reads. A contract's state is a record of its immutable publisher, its
  mapping (total, with the zero struct where nothing was written) and the events it emitted. A call
  either reverts with an error, leaving the state as it was, or gives the next state.

  The interface both offer is the locale \<open>registry\<close>: who may write, what is refused, and that a read
  returns what was last accepted for its key. Its lemmas are proved once and hold for both contracts by
  interpretation.
\<close>

type_synonym address = "160 word"

text \<open>A sequence of transactions; a reverted one has no effect.\<close>

definition transact :: "('r \<Rightarrow> u64 \<Rightarrow> address \<Rightarrow> 'a \<Rightarrow> 'e + 'r) \<Rightarrow> 'r \<Rightarrow> u64 \<times> address \<times> 'a \<Rightarrow> 'r" where
  "transact call r c = (case c of (ts, sender, a) \<Rightarrow> (case call r ts sender a of Inl _ \<Rightarrow> r | Inr r' \<Rightarrow> r'))"

definition history :: "('r \<Rightarrow> u64 \<Rightarrow> address \<Rightarrow> 'a \<Rightarrow> 'e + 'r) \<Rightarrow> 'r \<Rightarrow> (u64 \<times> address \<times> 'a) list \<Rightarrow> 'r" where
  "history call r cs = foldl (transact call) r cs"

definition accepted :: "('a \<Rightarrow> bool) \<Rightarrow> address \<Rightarrow> (u64 \<times> address \<times> 'a) \<Rightarrow> bool" where
  "accepted ok pub c = (case c of (ts, sender, a) \<Rightarrow> sender = pub \<and> ok a)"

definition last_accepted ::
  "('a \<Rightarrow> bool) \<Rightarrow> ('a \<Rightarrow> hash32) \<Rightarrow> address \<Rightarrow> (u64 \<times> address \<times> 'a) list \<Rightarrow> hash32 \<Rightarrow> (u64 \<times> address \<times> 'a) option" where
  "last_accepted ok key pub cs k = find (\<lambda>c. accepted ok pub c \<and> key (snd (snd c)) = k) (rev cs)"

subsection \<open>The interface\<close>

text \<open>
  \<open>call r ts sender a\<close> is a publish transaction in a block with timestamp \<open>ts\<close>; \<open>admissible\<close> is what the
  contract requires of the arguments; \<open>entry\<close> is the record it stores.
\<close>

locale registry =
  fixes publisher_of :: "'r \<Rightarrow> address"
    and call :: "'r \<Rightarrow> u64 \<Rightarrow> address \<Rightarrow> 'a \<Rightarrow> 'e + 'r"
    and lookup :: "'r \<Rightarrow> hash32 \<Rightarrow> 'rec option"
    and key_of :: "'a \<Rightarrow> hash32"
    and admissible :: "'a \<Rightarrow> bool"
    and entry :: "u64 \<Rightarrow> 'a \<Rightarrow> 'rec"
  assumes call_accepts: "sender = publisher_of r \<Longrightarrow> admissible a \<Longrightarrow> \<exists>r'. call r ts sender a = Inr r'"
    and call_refuses: "sender \<noteq> publisher_of r \<or> \<not> admissible a \<Longrightarrow> \<exists>e. call r ts sender a = Inl e"
    and call_publisher: "call r ts sender a = Inr r' \<Longrightarrow> publisher_of r' = publisher_of r"
    and call_lookup: "call r ts sender a = Inr r' \<Longrightarrow>
      lookup r' k = (if k = key_of a then Some (entry ts a) else lookup r k)"
begin

lemma call_cases:
  "(\<exists>r'. call r ts sender a = Inr r') \<longleftrightarrow> sender = publisher_of r \<and> admissible a"
  using call_accepts [of sender r a ts] call_refuses [of sender r a ts] by (metis sum.simps(4))

lemma transact_refused:
  assumes "\<not> accepted admissible (publisher_of r) (ts, sender, a)"
  shows "transact call r (ts, sender, a) = r"
proof -
  from assms have "sender \<noteq> publisher_of r \<or> \<not> admissible a" by (simp add: accepted_def)
  from call_refuses [OF this, of ts] show ?thesis by (auto simp: transact_def)
qed

lemma transact_accepted:
  assumes "accepted admissible (publisher_of r) (ts, sender, a)"
  shows "lookup (transact call r (ts, sender, a)) k = (if k = key_of a then Some (entry ts a) else lookup r k)"
    "publisher_of (transact call r (ts, sender, a)) = publisher_of r"
proof -
  from assms obtain r' where r': "call r ts sender a = Inr r'"
    using call_cases [of r ts sender a] by (auto simp: accepted_def)
  then have "transact call r (ts, sender, a) = r'" by (simp add: transact_def)
  with r' show "lookup (transact call r (ts, sender, a)) k = (if k = key_of a then Some (entry ts a) else lookup r k)"
    "publisher_of (transact call r (ts, sender, a)) = publisher_of r"
    using call_lookup call_publisher by simp_all
qed

lemma transact_publisher: "publisher_of (transact call r c) = publisher_of r"
  using transact_refused transact_accepted(2) by (cases c) metis

lemma history_publisher: "publisher_of (history call r cs) = publisher_of r"
  by (induction cs arbitrary: r) (simp_all add: history_def transact_publisher)

text \<open>A read returns the entry of the last accepted transaction for its key.\<close>

lemma history_lookup:
  "lookup (history call r cs) k =
     (case last_accepted admissible key_of (publisher_of r) cs k of
        None \<Rightarrow> lookup r k
      | Some (ts, sender, a) \<Rightarrow> Some (entry ts a))"
proof (induction cs rule: rev_induct)
  case Nil
  then show ?case by (simp add: history_def last_accepted_def)
next
  case (snoc c cs)
  obtain ts sender a where c: "c = (ts, sender, a)" by (cases c) auto
  have h: "history call r (cs @ [c]) = transact call (history call r cs) (ts, sender, a)"
    by (simp add: history_def c)
  show ?case
  proof (cases "accepted admissible (publisher_of r) (ts, sender, a)")
    case True
    then have "accepted admissible (publisher_of (history call r cs)) (ts, sender, a)"
      by (simp add: history_publisher)
    from transact_accepted(1) [OF this] snoc True show ?thesis
      unfolding h by (simp add: c last_accepted_def)
  next
    case False
    then have "transact call (history call r cs) (ts, sender, a) = history call r cs"
      by (intro transact_refused) (simp add: history_publisher)
    with snoc False show ?thesis unfolding h by (simp add: c last_accepted_def)
  qed
qed

text \<open>Nobody but the publisher changes anything.\<close>

lemma history_others:
  assumes "list_all (\<lambda>(ts, sender, a). sender \<noteq> publisher_of r) cs"
  shows "history call r cs = r"
  using assms
proof (induction cs)
  case (Cons c cs)
  then have "transact call r c = r"
    using transact_refused [of r] by (cases c) (auto simp: accepted_def)
  with Cons show ?case by (simp add: history_def)
qed (simp add: history_def)

end

subsection \<open>AttestationRegistry.sol\<close>

datatype revert_error = NotPublisher | InvalidHashVersion | EmptySignature

record attestation_v1 =
  a1_configHash :: hash32
  a1_signature :: bytes
  a1_signerFingerprint :: hash32
  a1_blockTimestamp :: u64
  a1_hashVersion :: u16
  a1_exists :: bool

record publish_args_v1 =
  p1_deploymentId :: hash32
  p1_hashVersion :: u16
  p1_configHash :: hash32
  p1_signature :: bytes
  p1_signerFingerprint :: hash32

record published_event_v1 =
  ev1_deploymentId :: hash32
  ev1_hashVersion :: u16
  ev1_configHash :: hash32
  ev1_signerFingerprint :: hash32
  ev1_blockTimestamp :: u64

record registry_v1 =
  r1_publisher :: address
  r1_latest :: "hash32 \<Rightarrow> attestation_v1"
  r1_events :: "published_event_v1 list"

definition zero_attestation_v1 :: attestation_v1 where
  "zero_attestation_v1 =
     \<lparr>a1_configHash = 0, a1_signature = [], a1_signerFingerprint = 0, a1_blockTimestamp = 0,
      a1_hashVersion = 0, a1_exists = False\<rparr>"

definition deploy_v1 :: "address \<Rightarrow> registry_v1 option" where
  "deploy_v1 pub =
     (if pub = 0 then None
      else Some \<lparr>r1_publisher = pub, r1_latest = (\<lambda>_. zero_attestation_v1), r1_events = []\<rparr>)"

definition publish_v1 :: "registry_v1 \<Rightarrow> u64 \<Rightarrow> address \<Rightarrow> publish_args_v1 \<Rightarrow> revert_error + registry_v1" where
  "publish_v1 r ts sender a =
     (if sender \<noteq> r1_publisher r then Inl NotPublisher
      else if p1_hashVersion a = 0 then Inl InvalidHashVersion
      else Inr (r\<lparr>r1_latest := (r1_latest r)(p1_deploymentId a :=
                  \<lparr>a1_configHash = p1_configHash a, a1_signature = p1_signature a,
                   a1_signerFingerprint = p1_signerFingerprint a, a1_blockTimestamp = ts,
                   a1_hashVersion = p1_hashVersion a, a1_exists = True\<rparr>),
                r1_events := r1_events r @ [\<lparr>ev1_deploymentId = p1_deploymentId a,
                  ev1_hashVersion = p1_hashVersion a, ev1_configHash = p1_configHash a,
                  ev1_signerFingerprint = p1_signerFingerprint a, ev1_blockTimestamp = ts\<rparr>]\<rparr>))"

definition getLatest_v1 :: "registry_v1 \<Rightarrow> hash32 \<Rightarrow> attestation_v1" where
  "getLatest_v1 r k = r1_latest r k"

definition lookup_v1 :: "registry_v1 \<Rightarrow> hash32 \<Rightarrow> attestation_v1 option" where
  "lookup_v1 r k = (if a1_exists (getLatest_v1 r k) then Some (getLatest_v1 r k) else None)"

definition entry_v1 :: "u64 \<Rightarrow> publish_args_v1 \<Rightarrow> attestation_v1" where
  "entry_v1 ts a =
     \<lparr>a1_configHash = p1_configHash a, a1_signature = p1_signature a,
      a1_signerFingerprint = p1_signerFingerprint a, a1_blockTimestamp = ts,
      a1_hashVersion = p1_hashVersion a, a1_exists = True\<rparr>"

interpretation reg1: registry r1_publisher publish_v1 lookup_v1 p1_deploymentId "\<lambda>a. p1_hashVersion a \<noteq> 0" entry_v1
  by unfold_locales
    (auto simp: publish_v1_def lookup_v1_def getLatest_v1_def entry_v1_def split: if_splits)

subsection \<open>AttestationRegistryV2.sol\<close>

record attestation_v2 =
  a2_configHash :: hash32
  a2_signerFingerprint :: hash32
  a2_incarnation :: hash32
  a2_signature :: bytes
  a2_blockTimestamp :: u64
  a2_hashVersion :: u16
  a2_exists :: bool

record publish_args_v2 =
  p2_workloadId :: hash32
  p2_hashVersion :: u16
  p2_configHash :: hash32
  p2_incarnation :: hash32
  p2_signature :: bytes
  p2_signerFingerprint :: hash32

record published_event_v2 =
  ev2_workloadId :: hash32
  ev2_hashVersion :: u16
  ev2_configHash :: hash32
  ev2_incarnation :: hash32
  ev2_signerFingerprint :: hash32
  ev2_signature :: bytes
  ev2_blockTimestamp :: u64

record registry_v2 =
  r2_publisher :: address
  r2_latest :: "hash32 \<Rightarrow> attestation_v2"
  r2_events :: "published_event_v2 list"

definition zero_attestation_v2 :: attestation_v2 where
  "zero_attestation_v2 =
     \<lparr>a2_configHash = 0, a2_signerFingerprint = 0, a2_incarnation = 0, a2_signature = [],
      a2_blockTimestamp = 0, a2_hashVersion = 0, a2_exists = False\<rparr>"

definition deploy_v2 :: "address \<Rightarrow> registry_v2 option" where
  "deploy_v2 pub =
     (if pub = 0 then None
      else Some \<lparr>r2_publisher = pub, r2_latest = (\<lambda>_. zero_attestation_v2), r2_events = []\<rparr>)"

definition publish_v2 :: "registry_v2 \<Rightarrow> u64 \<Rightarrow> address \<Rightarrow> publish_args_v2 \<Rightarrow> revert_error + registry_v2" where
  "publish_v2 r ts sender a =
     (if sender \<noteq> r2_publisher r then Inl NotPublisher
      else if p2_hashVersion a = 0 then Inl InvalidHashVersion
      else if length (p2_signature a) = 0 then Inl EmptySignature
      else Inr (r\<lparr>r2_latest := (r2_latest r)(p2_workloadId a :=
                  \<lparr>a2_configHash = p2_configHash a, a2_signerFingerprint = p2_signerFingerprint a,
                   a2_incarnation = p2_incarnation a, a2_signature = p2_signature a,
                   a2_blockTimestamp = ts, a2_hashVersion = p2_hashVersion a, a2_exists = True\<rparr>),
                r2_events := r2_events r @ [\<lparr>ev2_workloadId = p2_workloadId a,
                  ev2_hashVersion = p2_hashVersion a, ev2_configHash = p2_configHash a,
                  ev2_incarnation = p2_incarnation a, ev2_signerFingerprint = p2_signerFingerprint a,
                  ev2_signature = p2_signature a, ev2_blockTimestamp = ts\<rparr>]\<rparr>))"

definition getLatest_v2 :: "registry_v2 \<Rightarrow> hash32 \<Rightarrow> attestation_v2" where
  "getLatest_v2 r k = r2_latest r k"

definition lookup_v2 :: "registry_v2 \<Rightarrow> hash32 \<Rightarrow> attestation_v2 option" where
  "lookup_v2 r k = (if a2_exists (getLatest_v2 r k) then Some (getLatest_v2 r k) else None)"

definition entry_v2 :: "u64 \<Rightarrow> publish_args_v2 \<Rightarrow> attestation_v2" where
  "entry_v2 ts a =
     \<lparr>a2_configHash = p2_configHash a, a2_signerFingerprint = p2_signerFingerprint a,
      a2_incarnation = p2_incarnation a, a2_signature = p2_signature a,
      a2_blockTimestamp = ts, a2_hashVersion = p2_hashVersion a, a2_exists = True\<rparr>"

definition admissible_v2 :: "publish_args_v2 \<Rightarrow> bool" where
  "admissible_v2 a \<longleftrightarrow> p2_hashVersion a \<noteq> 0 \<and> p2_signature a \<noteq> []"

interpretation reg2: registry r2_publisher publish_v2 lookup_v2 p2_workloadId admissible_v2 entry_v2
  by unfold_locales
    (auto simp: publish_v2_def lookup_v2_def getLatest_v2_def entry_v2_def admissible_v2_def split: if_splits)

subsection \<open>Properties of the registries\<close>

text \<open>
  Over any sequence of transactions from any senders, a v2 record reads back as the last publish
  accepted for its workload: sent by the publisher with a version other than zero and a signature that
  is not empty. Everything else reverts and leaves no trace.
\<close>

lemma registry_v2_latest:
  "lookup_v2 (history publish_v2 r cs) k =
     (case last_accepted admissible_v2 p2_workloadId (r2_publisher r) cs k of
        None \<Rightarrow> lookup_v2 r k
      | Some (ts, sender, a) \<Rightarrow> Some (entry_v2 ts a))"
  by (rule reg2.history_lookup)

text \<open>
  The same for the v1 registry, where an empty signature is accepted.
\<close>

lemma registry_v1_latest:
  "lookup_v1 (history publish_v1 r cs) k =
     (case last_accepted (\<lambda>a. p1_hashVersion a \<noteq> 0) p1_deploymentId (r1_publisher r) cs k of
        None \<Rightarrow> lookup_v1 r k
      | Some (ts, sender, a) \<Rightarrow> Some (entry_v1 ts a))"
  by (rule reg1.history_lookup)

text \<open>The event of an accepted v2 publish holds the whole record.\<close>

definition event_entry :: "published_event_v2 \<Rightarrow> attestation_v2" where
  "event_entry ev =
     \<lparr>a2_configHash = ev2_configHash ev, a2_signerFingerprint = ev2_signerFingerprint ev,
      a2_incarnation = ev2_incarnation ev, a2_signature = ev2_signature ev,
      a2_blockTimestamp = ev2_blockTimestamp ev, a2_hashVersion = ev2_hashVersion ev, a2_exists = True\<rparr>"

definition last_event :: "published_event_v2 list \<Rightarrow> hash32 \<Rightarrow> published_event_v2 option" where
  "last_event evs k = find (\<lambda>ev. ev2_workloadId ev = k) (rev evs)"

lemma publish_v2_logged:
  assumes "\<forall>k. lookup_v2 r k = map_option event_entry (last_event (r2_events r) k)"
  shows "\<forall>k. lookup_v2 (transact publish_v2 r c) k
    = map_option event_entry (last_event (r2_events (transact publish_v2 r c)) k)"
proof -
  obtain ts sender a where c: "c = (ts, sender, a)" by (cases c) auto
  show ?thesis
  proof (cases "publish_v2 r ts sender a")
    case (Inl e)
    with assms show ?thesis by (simp add: c transact_def)
  next
    case (Inr r')
    have "\<exists>ev. r2_events r' = r2_events r @ [ev] \<and> ev2_workloadId ev = p2_workloadId a \<and> event_entry ev = entry_v2 ts a"
      using Inr by (auto simp: publish_v2_def event_entry_def entry_v2_def split: if_splits)
    with assms reg2.call_lookup [OF Inr] show ?thesis
      by (auto simp: c transact_def Inr last_event_def)
  qed
qed

text \<open>
  C27: the v2 event log alone reconstructs the storage: from deployment on, whatever transactions are
  sent, the latest event of a workload carries exactly the stored record, signature included.
\<close>

theorem registry_v2_log_complete:
  assumes "deploy_v2 pub = Some r"
  shows "lookup_v2 (history publish_v2 r cs) k
    = map_option event_entry (last_event (r2_events (history publish_v2 r cs)) k)"
proof -
  have "\<forall>k. lookup_v2 (history publish_v2 r cs) k
    = map_option event_entry (last_event (r2_events (history publish_v2 r cs)) k)"
  proof (induction cs rule: rev_induct)
    case Nil
    show ?case
      using assms
      by (auto simp: history_def deploy_v2_def lookup_v2_def getLatest_v2_def zero_attestation_v2_def last_event_def
          split: if_splits)
  next
    case (snoc c cs)
    from publish_v2_logged [OF snoc, of c] show ?case by (simp add: history_def)
  qed
  then show ?thesis by blast
qed

definition sample_args :: publish_args_v2 where
  "sample_args =
     \<lparr>p2_workloadId = 5, p2_hashVersion = 2, p2_configHash = 7, p2_incarnation = 8, p2_signature = ''sig'',
      p2_signerFingerprint = 9\<rparr>"

theorem registry_v2_log_complete_witness:
  "lookup_v2 (history publish_v2 (the (deploy_v2 1)) [(100, 1, sample_args), (101, 2, sample_args)]) 5
     = Some (entry_v2 100 sample_args)
   \<and> map_option event_entry (last_event (r2_events (history publish_v2 (the (deploy_v2 1))
        [(100, 1, sample_args), (101, 2, sample_args)])) 5) = Some (entry_v2 100 sample_args)"
proof -
  have d: "deploy_v2 1 = Some (the (deploy_v2 1))" by (simp add: deploy_v2_def)
  have "lookup_v2 (history publish_v2 (the (deploy_v2 1)) [(100, 1, sample_args), (101, 2, sample_args)]) 5
      = Some (entry_v2 100 sample_args)"
    by (simp add: history_def transact_def publish_v2_def deploy_v2_def sample_args_def lookup_v2_def getLatest_v2_def
        entry_v2_def)
  with registry_v2_log_complete [OF d, of "[(100, 1, sample_args), (101, 2, sample_args)]" 5] show ?thesis by simp
qed

end
