(* ===== verification/Chain_Client.thy ===== *)
theory Chain_Client
  imports Registry
begin

section \<open>The chain clients: client.go and client\_v2.go\<close>

text \<open>
  \<^verbatim>\<open>internal/chain/client.go\<close> and \<^verbatim>\<open>client_v2.go\<close>: construction of readers and writers, publishing, and
  decoding of what \<^verbatim>\<open>getLatest\<close> returns. What go-ethereum does is an argument: the record \<open>eth\<close> of
  constructors, and per call the function that transacts, sends, waits or calls the contract.

  The lemmas show that each decoder accepts exactly the value lists the contract's ABI produces, that
  it reads the contract's record back field by field, and that the guards of the client imply those of
  the contract.
\<close>

subsection \<open>Errors and connections\<close>

datatype chain_error =
    ErrDial string string
  | ErrParseABI string
  | ErrPrivateKey string
  | ErrTransactor string
  | ErrReadOnly
  | ErrVersionZero
  | ErrRefuseEmptySignature
  | ErrPublishTx string
  | ErrGetLatest string
  | ErrValueCount nat nat
  | ErrABIType string
  | ErrNoPreparedTx
  | ErrNoConnection

record ('ec, 'k, 'auth) eth =
  eth_Dial :: "string \<Rightarrow> string + 'ec"
  eth_RegistryABI :: "string + unit"
  eth_RegistryV2ABI :: "string + unit"
  eth_HexToAddress :: "string \<Rightarrow> address"
  eth_HexToECDSA :: "string \<Rightarrow> string + 'k"
  eth_NewKeyedTransactor :: "'k \<Rightarrow> int \<Rightarrow> string + 'auth"

definition wrap :: "('e \<Rightarrow> chain_error) \<Rightarrow> 'e + 'a \<Rightarrow> chain_error + 'a" where
  "wrap f m = (case m of Inl e \<Rightarrow> Inl (f e) | Inr x \<Rightarrow> Inr x)"

lemma wrap_simps [simp, res_simps]: "wrap f (Inl e) = Inl (f e)" "wrap f (Inr x) = Inr x"
  by (simp_all add: wrap_def)

lemma wrap_Inr_iff [res_simps]: "wrap f m = Inr y \<longleftrightarrow> m = Inr y"
  by (cases m) auto

text \<open>\<^verbatim>\<open>strings.TrimPrefix\<close>.\<close>

definition TrimPrefix :: "string \<Rightarrow> string \<Rightarrow> string" where
  "TrimPrefix s pre = (if take (length pre) s = pre then drop (length pre) s else s)"

text \<open>The values \<^verbatim>\<open>BoundContract.Call\<close> returns, by their Go types.\<close>

datatype abi_value = ABytes32 hash32 | ABytes bytes | AUint64 u64 | AUint16 u16 | ABool bool | AAddress address | AOther string

fun as_bytes32 :: "abi_value \<Rightarrow> hash32 option" where
  "as_bytes32 (ABytes32 h) = Some h"
| "as_bytes32 _ = None"

fun as_bytes :: "abi_value \<Rightarrow> bytes option" where
  "as_bytes (ABytes b) = Some b"
| "as_bytes _ = None"

fun as_uint64 :: "abi_value \<Rightarrow> u64 option" where
  "as_uint64 (AUint64 n) = Some n"
| "as_uint64 _ = None"

fun as_uint16 :: "abi_value \<Rightarrow> u16 option" where
  "as_uint16 (AUint16 n) = Some n"
| "as_uint16 _ = None"

fun as_bool :: "abi_value \<Rightarrow> bool option" where
  "as_bool (ABool b) = Some b"
| "as_bool _ = None"

fun as_address :: "abi_value \<Rightarrow> address option" where
  "as_address (AAddress a) = Some a"
| "as_address _ = None"

definition typed :: "string \<Rightarrow> 'a option \<Rightarrow> chain_error + 'a" where
  "typed field v = (case v of None \<Rightarrow> Inl (ErrABIType field) | Some x \<Rightarrow> Inr x)"

lemma typed_simps [simp, res_simps]: "typed f None = Inl (ErrABIType f)" "typed f (Some x) = Inr x"
  by (simp_all add: typed_def)

lemma typed_Inr_iff [res_simps]: "typed f v = Inr x \<longleftrightarrow> v = Some x"
  by (cases v) auto

lemma as_value_iff [res_simps]:
  "as_bytes32 v = Some h \<longleftrightarrow> v = ABytes32 h" "as_bytes v = Some b \<longleftrightarrow> v = ABytes b"
  "as_uint64 v = Some n \<longleftrightarrow> v = AUint64 n" "as_uint16 v = Some m \<longleftrightarrow> v = AUint16 m"
  "as_bool v = Some x \<longleftrightarrow> v = ABool x" "as_address v = Some ad \<longleftrightarrow> v = AAddress ad"
  by (cases v; auto)+

text \<open>The arguments of the two \<^verbatim>\<open>Transact\<close> calls, in the order the clients pass them.\<close>

definition publish_values_v1 :: "publish_args_v1 \<Rightarrow> abi_value list" where
  "publish_values_v1 a =
     [ABytes32 (p1_deploymentId a), AUint16 (p1_hashVersion a), ABytes32 (p1_configHash a), ABytes (p1_signature a),
      ABytes32 (p1_signerFingerprint a)]"

definition publish_values_v2 :: "publish_args_v2 \<Rightarrow> abi_value list" where
  "publish_values_v2 a =
     [ABytes32 (p2_workloadId a), AUint16 (p2_hashVersion a), ABytes32 (p2_configHash a), ABytes32 (p2_incarnation a),
      ABytes (p2_signature a), ABytes32 (p2_signerFingerprint a)]"

text \<open>
  The entry point \<^verbatim>\<open>publish\<close> of the two contracts: the values of a call are bound to the parameters in the order
  of the Solidity declarations; a call whose values have other types is refused.
\<close>

definition calldata_v1 :: "abi_value list \<Rightarrow> publish_args_v1 option" where
  "calldata_v1 vs =
     (if length vs \<noteq> 5 then None
      else Option.bind (as_bytes32 (vs ! 0)) (\<lambda>deploymentId.
           Option.bind (as_uint16 (vs ! 1)) (\<lambda>hashVersion.
           Option.bind (as_bytes32 (vs ! 2)) (\<lambda>configHash.
           Option.bind (as_bytes (vs ! 3)) (\<lambda>signature.
           Option.bind (as_bytes32 (vs ! 4)) (\<lambda>signerFingerprint.
             Some \<lparr>p1_deploymentId = deploymentId, p1_hashVersion = hashVersion, p1_configHash = configHash,
                   p1_signature = signature, p1_signerFingerprint = signerFingerprint\<rparr>))))))"

definition calldata_v2 :: "abi_value list \<Rightarrow> publish_args_v2 option" where
  "calldata_v2 vs =
     (if length vs \<noteq> 6 then None
      else Option.bind (as_bytes32 (vs ! 0)) (\<lambda>workloadId.
           Option.bind (as_uint16 (vs ! 1)) (\<lambda>hashVersion.
           Option.bind (as_bytes32 (vs ! 2)) (\<lambda>configHash.
           Option.bind (as_bytes32 (vs ! 3)) (\<lambda>incarnation.
           Option.bind (as_bytes (vs ! 4)) (\<lambda>signature.
           Option.bind (as_bytes32 (vs ! 5)) (\<lambda>signerFingerprint.
             Some \<lparr>p2_workloadId = workloadId, p2_hashVersion = hashVersion, p2_configHash = configHash,
                   p2_incarnation = incarnation, p2_signature = signature,
                   p2_signerFingerprint = signerFingerprint\<rparr>)))))))"

text \<open>The clients pass their arguments in the contract's order.\<close>

lemma calldata_publish_values [simp]:
  "calldata_v1 (publish_values_v1 a1) = Some a1" "calldata_v2 (publish_values_v2 a2) = Some a2"
  by (simp_all add: calldata_v1_def calldata_v2_def publish_values_v1_def publish_values_v2_def)

subsection \<open>client.go\<close>

record attestation =
  at_ConfigHash :: hash32
  at_Signature :: bytes
  at_SignerFingerprint :: hash32
  at_BlockTimestamp :: u64
  at_HashVersion :: u16
  at_Exists :: bool

record ('ec, 'auth) client_v1 =
  cl_ec :: "'ec option"
  cl_auth :: "'auth option"
  cl_address :: address

definition NewReader :: "('ec, 'k, 'auth) eth \<Rightarrow> string \<Rightarrow> string \<Rightarrow> chain_error + ('ec, 'auth) client_v1" where
  "NewReader eth rpcURL contractAddr =
     bindE (wrap (ErrDial rpcURL) (eth_Dial eth rpcURL)) (\<lambda>ec.
     bindE (wrap ErrParseABI (eth_RegistryABI eth)) (\<lambda>parsed.
       Inr \<lparr>cl_ec = Some ec, cl_auth = None, cl_address = eth_HexToAddress eth contractAddr\<rparr>))"

definition NewWriter ::
  "('ec, 'k, 'auth) eth \<Rightarrow> string \<Rightarrow> string \<Rightarrow> string \<Rightarrow> int \<Rightarrow> chain_error + ('ec, 'auth) client_v1" where
  "NewWriter eth rpcURL contractAddr privHex chainID =
     bindE (NewReader eth rpcURL contractAddr) (\<lambda>c.
     bindE (wrap ErrPrivateKey (eth_HexToECDSA eth (TrimPrefix privHex ''0x''))) (\<lambda>key.
     bindE (wrap ErrTransactor (eth_NewKeyedTransactor eth key chainID)) (\<lambda>auth.
       Inr (c\<lparr>cl_auth := Some auth\<rparr>))))"

definition Address_v1 :: "('ec, 'auth) client_v1 \<Rightarrow> address" where
  "Address_v1 c = cl_address c"

text \<open>The connections a \<^verbatim>\<open>Close\<close> releases.\<close>

definition Close_v1 :: "('ec, 'auth) client_v1 \<Rightarrow> 'ec list" where
  "Close_v1 c = (case cl_ec c of None \<Rightarrow> [] | Some ec \<Rightarrow> [ec])"

text \<open>\<open>send\<close> is \<^verbatim>\<open>BoundContract.Transact\<close> on \<^verbatim>\<open>publish\<close>: it sends the values and returns the transaction's hash.\<close>

definition PublishAttestation ::
  "('ec, 'auth) client_v1 \<Rightarrow> ('auth \<Rightarrow> abi_value list \<Rightarrow> string + string) \<Rightarrow> publish_args_v1 \<Rightarrow> chain_error + string" where
  "PublishAttestation c send a =
     (case cl_auth c of
        None \<Rightarrow> Inl ErrReadOnly
      | Some auth \<Rightarrow>
          (if p1_hashVersion a = 0 then Inl ErrVersionZero else wrap ErrPublishTx (send auth (publish_values_v1 a))))"

definition decodeAttestation :: "abi_value list \<Rightarrow> chain_error + attestation" where
  "decodeAttestation out =
     (if length out \<noteq> 6 then Inl (ErrValueCount (length out) 6)
      else
        bindE (typed ''configHash'' (as_bytes32 (out ! 0))) (\<lambda>configHash.
        bindE (typed ''signature'' (as_bytes (out ! 1))) (\<lambda>signature.
        bindE (typed ''signerFingerprint'' (as_bytes32 (out ! 2))) (\<lambda>fingerprint.
        bindE (typed ''blockTimestamp'' (as_uint64 (out ! 3))) (\<lambda>ts.
        bindE (typed ''hashVersion'' (as_uint16 (out ! 4))) (\<lambda>version.
        bindE (typed ''exists'' (as_bool (out ! 5))) (\<lambda>ex.
          Inr \<lparr>at_ConfigHash = configHash, at_Signature = signature, at_SignerFingerprint = fingerprint,
               at_BlockTimestamp = ts, at_HashVersion = version, at_Exists = ex\<rparr>)))))))"

definition LatestAttestation :: "(hash32 \<Rightarrow> string + abi_value list) \<Rightarrow> hash32 \<Rightarrow> chain_error + attestation" where
  "LatestAttestation call deploymentID =
     bindE (wrap ErrGetLatest (call deploymentID)) decodeAttestation"

subsection \<open>client\_v2.go\<close>

record attestation2 =
  at2_ConfigHash :: hash32
  at2_Signature :: bytes
  at2_SignerFingerprint :: hash32
  at2_Incarnation :: hash32
  at2_BlockTimestamp :: u64
  at2_HashVersion :: u16
  at2_Exists :: bool

record ('ec, 'auth) client_v2 =
  cv_ec :: "'ec option"
  cv_auth :: "'auth option"
  cv_address :: address

definition newClientV2 :: "('ec, 'k, 'auth) eth \<Rightarrow> address \<Rightarrow> chain_error + ('ec, 'auth) client_v2" where
  "newClientV2 eth addr =
     bindE (wrap ErrParseABI (eth_RegistryV2ABI eth)) (\<lambda>parsed.
       Inr \<lparr>cv_ec = None, cv_auth = None, cv_address = addr\<rparr>)"

definition NewReaderV2 :: "('ec, 'k, 'auth) eth \<Rightarrow> string \<Rightarrow> string \<Rightarrow> chain_error + ('ec, 'auth) client_v2" where
  "NewReaderV2 eth rpcURL contractAddr =
     bindE (wrap (ErrDial rpcURL) (eth_Dial eth rpcURL)) (\<lambda>ec.
     bindE (newClientV2 eth (eth_HexToAddress eth contractAddr)) (\<lambda>c.
       Inr (c\<lparr>cv_ec := Some ec\<rparr>)))"

definition NewWriterV2 ::
  "('ec, 'k, 'auth) eth \<Rightarrow> string \<Rightarrow> string \<Rightarrow> string \<Rightarrow> int \<Rightarrow> chain_error + ('ec, 'auth) client_v2" where
  "NewWriterV2 eth rpcURL contractAddr privHex chainID =
     bindE (NewReaderV2 eth rpcURL contractAddr) (\<lambda>c.
     bindE (wrap ErrPrivateKey (eth_HexToECDSA eth (TrimPrefix privHex ''0x''))) (\<lambda>key.
     bindE (wrap ErrTransactor (eth_NewKeyedTransactor eth key chainID)) (\<lambda>auth.
       Inr (c\<lparr>cv_auth := Some auth\<rparr>))))"

definition Address_v2 :: "('ec, 'auth) client_v2 \<Rightarrow> address" where
  "Address_v2 c = cv_address c"

definition Close_v2 :: "('ec, 'auth) client_v2 \<Rightarrow> 'ec list" where
  "Close_v2 c = (case cv_ec c of None \<Rightarrow> [] | Some ec \<Rightarrow> [ec])"

text \<open>A client is bound to the address it was given, and closing it releases the connection that was dialled.\<close>

lemma clients_bound:
  "NewReader eth rpcURL addr = Inr c \<Longrightarrow>
     \<exists>ec. eth_Dial eth rpcURL = Inr ec \<and> Close_v1 c = [ec] \<and> Address_v1 c = eth_HexToAddress eth addr"
  "NewWriter eth rpcURL addr key chain = Inr c \<Longrightarrow>
     \<exists>ec. eth_Dial eth rpcURL = Inr ec \<and> Close_v1 c = [ec] \<and> Address_v1 c = eth_HexToAddress eth addr"
  "NewReaderV2 eth rpcURL addr = Inr c2 \<Longrightarrow>
     \<exists>ec. eth_Dial eth rpcURL = Inr ec \<and> Close_v2 c2 = [ec] \<and> Address_v2 c2 = eth_HexToAddress eth addr"
  "NewWriterV2 eth rpcURL addr key chain = Inr c2 \<Longrightarrow>
     \<exists>ec. eth_Dial eth rpcURL = Inr ec \<and> Close_v2 c2 = [ec] \<and> Address_v2 c2 = eth_HexToAddress eth addr"
  by (auto simp: NewReader_def NewWriter_def NewReaderV2_def NewWriterV2_def newClientV2_def Close_v1_def Close_v2_def
      Address_v1_def Address_v2_def res_simps)

datatype submit_outcome = SubmitUnknown | SubmitAccepted

definition SubmitOutcome_String :: "submit_outcome \<Rightarrow> string" where
  "SubmitOutcome_String oc = (if oc = SubmitAccepted then ''accepted'' else ''unknown'')"

record 'tx prepared_publish =
  pp_TxHash :: hash32
  pp_tx :: "'tx option"

datatype publish_outcome = OutcomeUnknown | OutcomeMinedSuccess | OutcomeReverted

definition PublishOutcome_String :: "publish_outcome \<Rightarrow> string" where
  "PublishOutcome_String oc =
     (case oc of
        OutcomeMinedSuccess \<Rightarrow> ''mined-success''
      | OutcomeReverted \<Rightarrow> ''reverted''
      | OutcomeUnknown \<Rightarrow> ''unknown'')"

record publish_result =
  pr_TxHash :: string
  pr_Outcome :: publish_outcome
  pr_BlockNumber :: u64
  pr_GasUsed :: u64

record send_result =
  sr_Outcome :: submit_outcome
  sr_Cause :: "string option"

text \<open>A receipt; a \<^verbatim>\<open>*big.Int\<close> block number is read with \<^verbatim>\<open>Uint64()\<close>.\<close>

record receipt =
  rc_BlockNumber :: int
  rc_GasUsed :: u64
  rc_Status :: u64

text \<open>
  \<open>build\<close> is \<^verbatim>\<open>Transact\<close> with \<^verbatim>\<open>NoSend\<close>: it signs the call with these values and returns the transaction with its hash.
  \<^verbatim>\<open>common.Hash.Hex\<close> is 0x followed by the hex digits.
\<close>

definition Prepare :: "('ec, 'auth) client_v2 \<Rightarrow> ('auth \<Rightarrow> abi_value list \<Rightarrow> string + hash32 \<times> 'tx)
    \<Rightarrow> publish_args_v2 \<Rightarrow> chain_error + 'tx prepared_publish" where
  "Prepare c build a =
     (case cv_auth c of
        None \<Rightarrow> Inl ErrReadOnly
      | Some auth \<Rightarrow>
          (if p2_hashVersion a = 0 then Inl ErrVersionZero
           else if length (p2_signature a) = 0 then Inl ErrRefuseEmptySignature
           else bindE (wrap ErrPublishTx (build auth (publish_values_v2 a))) (\<lambda>(h, tx). Inr \<lparr>pp_TxHash = h, pp_tx = Some tx\<rparr>)))"

definition hash_hex :: "hash32 \<Rightarrow> string" where
  "hash_hex h = ''0x'' @ MustHex h"

definition prepared_Hash :: "'tx prepared_publish option \<Rightarrow> string" where
  "prepared_Hash p = (case p of None \<Rightarrow> [] | Some pp \<Rightarrow> hash_hex (pp_TxHash pp))"

text \<open>\<open>p\<close> is a pointer: nil is \<open>None\<close>. \<open>send\<close> is \<^verbatim>\<open>ethclient.SendTransaction\<close>.\<close>

definition the_tx :: "'tx prepared_publish option \<Rightarrow> 'tx option" where
  "the_tx p = (case p of None \<Rightarrow> None | Some pp \<Rightarrow> pp_tx pp)"

definition Send :: "('ec, 'auth) client_v2 \<Rightarrow> ('ec \<Rightarrow> 'tx \<Rightarrow> string option) \<Rightarrow> 'tx prepared_publish option
    \<Rightarrow> chain_error + send_result" where
  "Send c send p =
     (case the_tx p of
        None \<Rightarrow> Inl ErrNoPreparedTx
      | Some tx \<Rightarrow>
          (case cv_ec c of
             None \<Rightarrow> Inl ErrNoConnection
           | Some ec \<Rightarrow>
               (case send ec tx of
                  Some err \<Rightarrow> Inr \<lparr>sr_Outcome = SubmitUnknown, sr_Cause = Some err\<rparr>
                | None \<Rightarrow> Inr \<lparr>sr_Outcome = SubmitAccepted, sr_Cause = None\<rparr>)))"

text \<open>
  \<open>wait\<close> is \<^verbatim>\<open>bind.WaitMined\<close> on the client's connection, under the publish timeout. Without a connection Go
  panics there; \<^verbatim>\<open>PublishAndWait\<close> does not get that far, since \<^verbatim>\<open>Send\<close> refuses first.
\<close>

definition Wait :: "('ec, 'auth) client_v2 \<Rightarrow> ('ec option \<Rightarrow> 'tx \<Rightarrow> string + receipt) \<Rightarrow> 'tx prepared_publish option
    \<Rightarrow> publish_result" where
  "Wait c wait p =
     (let res = \<lparr>pr_TxHash = [], pr_Outcome = OutcomeUnknown, pr_BlockNumber = 0, pr_GasUsed = 0\<rparr>
      in case p of
           None \<Rightarrow> res
         | Some pp \<Rightarrow>
             (case pp_tx pp of
                None \<Rightarrow> res
              | Some tx \<Rightarrow>
                  (let res = res\<lparr>pr_TxHash := hash_hex (pp_TxHash pp)\<rparr>
                   in case wait (cv_ec c) tx of
                        Inl err \<Rightarrow> res
                      | Inr rcpt \<Rightarrow>
                          res\<lparr>pr_BlockNumber := word_of_int (rc_BlockNumber rcpt), pr_GasUsed := rc_GasUsed rcpt,
                             pr_Outcome := if rc_Status rcpt = 1 then OutcomeMinedSuccess else OutcomeReverted\<rparr>)))"

definition PublishAndWait :: "('ec, 'auth) client_v2 \<Rightarrow> ('auth \<Rightarrow> abi_value list \<Rightarrow> string + hash32 \<times> 'tx)
    \<Rightarrow> ('ec \<Rightarrow> 'tx \<Rightarrow> string option) \<Rightarrow> ('ec option \<Rightarrow> 'tx \<Rightarrow> string + receipt) \<Rightarrow> publish_args_v2
    \<Rightarrow> chain_error + publish_result" where
  "PublishAndWait c build send wait a =
     bindE (Prepare c build a) (\<lambda>p.
     bindE (Send c send (Some p)) (\<lambda>sent.
       if sr_Outcome sent = SubmitUnknown
       then Inr \<lparr>pr_TxHash = hash_hex (pp_TxHash p), pr_Outcome = OutcomeUnknown, pr_BlockNumber = 0, pr_GasUsed = 0\<rparr>
       else Inr (Wait c wait (Some p))))"

definition decodeAttestationV2 :: "abi_value list \<Rightarrow> chain_error + attestation2" where
  "decodeAttestationV2 out =
     (if length out \<noteq> 7 then Inl (ErrValueCount (length out) 7)
      else
        bindE (typed ''configHash'' (as_bytes32 (out ! 0))) (\<lambda>configHash.
        bindE (typed ''signature'' (as_bytes (out ! 1))) (\<lambda>signature.
        bindE (typed ''signerFingerprint'' (as_bytes32 (out ! 2))) (\<lambda>fingerprint.
        bindE (typed ''incarnation'' (as_bytes32 (out ! 3))) (\<lambda>inc.
        bindE (typed ''blockTimestamp'' (as_uint64 (out ! 4))) (\<lambda>ts.
        bindE (typed ''hashVersion'' (as_uint16 (out ! 5))) (\<lambda>version.
        bindE (typed ''exists'' (as_bool (out ! 6))) (\<lambda>ex.
          Inr \<lparr>at2_ConfigHash = configHash, at2_Signature = signature, at2_SignerFingerprint = fingerprint,
               at2_Incarnation = inc, at2_BlockTimestamp = ts, at2_HashVersion = version,
               at2_Exists = ex\<rparr>))))))))"

definition LatestAttestationV2 :: "(hash32 \<Rightarrow> string + abi_value list) \<Rightarrow> hash32 \<Rightarrow> chain_error + attestation2" where
  "LatestAttestationV2 call workloadID =
     bindE (wrap ErrGetLatest (call workloadID)) decodeAttestationV2"

subsection \<open>What the contract returns\<close>

text \<open>The return values of \<^verbatim>\<open>getLatest\<close>, in the order of the Solidity declarations.\<close>

definition abi_getLatest_v1 :: "registry_v1 \<Rightarrow> hash32 \<Rightarrow> abi_value list" where
  "abi_getLatest_v1 r k =
     (let a = getLatest_v1 r k
      in [ABytes32 (a1_configHash a), ABytes (a1_signature a), ABytes32 (a1_signerFingerprint a),
          AUint64 (a1_blockTimestamp a), AUint16 (a1_hashVersion a), ABool (a1_exists a)])"

definition abi_getLatest_v2 :: "registry_v2 \<Rightarrow> hash32 \<Rightarrow> abi_value list" where
  "abi_getLatest_v2 r k =
     (let a = getLatest_v2 r k
      in [ABytes32 (a2_configHash a), ABytes (a2_signature a), ABytes32 (a2_signerFingerprint a),
          ABytes32 (a2_incarnation a), AUint64 (a2_blockTimestamp a), AUint16 (a2_hashVersion a),
          ABool (a2_exists a)])"

lemma length_6: "length xs = 6 \<longleftrightarrow> (\<exists>a b c d e f. xs = [a, b, c, d, e, f])"
  by (auto simp: eval_nat_numeral length_Suc_conv)

lemma length_7: "length xs = 7 \<longleftrightarrow> (\<exists>a b c d e f g. xs = [a, b, c, d, e, f, g])"
  by (auto simp: eval_nat_numeral length_Suc_conv)

subsection \<open>Properties of the clients\<close>

text \<open>
  The v2 decoder accepts exactly the seven values of the ABI in their order and types, and puts each
  into its own field: a result \<open>att\<close> comes from one list of values only.
\<close>

lemma decodeAttestationV2_iff:
  "decodeAttestationV2 out = Inr att \<longleftrightarrow>
     out = [ABytes32 (at2_ConfigHash att), ABytes (at2_Signature att), ABytes32 (at2_SignerFingerprint att),
            ABytes32 (at2_Incarnation att), AUint64 (at2_BlockTimestamp att), AUint16 (at2_HashVersion att),
            ABool (at2_Exists att)]"
proof (cases "length out = 7")
  case True
  then obtain a b c d e f g where "out = [a, b, c, d, e, f, g]" by (auto simp: length_7)
  then show ?thesis by (cases att) (auto simp: decodeAttestationV2_def res_simps)
next
  case False
  then show ?thesis by (auto simp: decodeAttestationV2_def)
qed

text \<open>The same for the six values of v1.\<close>

lemma decodeAttestation_iff:
  "decodeAttestation out = Inr att \<longleftrightarrow>
     out = [ABytes32 (at_ConfigHash att), ABytes (at_Signature att), ABytes32 (at_SignerFingerprint att),
            AUint64 (at_BlockTimestamp att), AUint16 (at_HashVersion att), ABool (at_Exists att)]"
proof (cases "length out = 6")
  case True
  then obtain a b c d e f where "out = [a, b, c, d, e, f]" by (auto simp: length_6)
  then show ?thesis by (cases att) (auto simp: decodeAttestation_def res_simps)
next
  case False
  then show ?thesis by (auto simp: decodeAttestation_def)
qed

text \<open>What a client reads of a record.\<close>

definition read_v2 :: "attestation_v2 \<Rightarrow> attestation2" where
  "read_v2 a =
     \<lparr>at2_ConfigHash = a2_configHash a, at2_Signature = a2_signature a,
      at2_SignerFingerprint = a2_signerFingerprint a, at2_Incarnation = a2_incarnation a,
      at2_BlockTimestamp = a2_blockTimestamp a, at2_HashVersion = a2_hashVersion a, at2_Exists = a2_exists a\<rparr>"

definition read_v1 :: "attestation_v1 \<Rightarrow> attestation" where
  "read_v1 a =
     \<lparr>at_ConfigHash = a1_configHash a, at_Signature = a1_signature a,
      at_SignerFingerprint = a1_signerFingerprint a, at_BlockTimestamp = a1_blockTimestamp a,
      at_HashVersion = a1_hashVersion a, at_Exists = a1_exists a\<rparr>"

lemma LatestAttestationV2_reads:
  "LatestAttestationV2 (\<lambda>k. Inr (abi_getLatest_v2 r k)) k = Inr (read_v2 (getLatest_v2 r k))"
  by (simp add: LatestAttestationV2_def decodeAttestationV2_def abi_getLatest_v2_def read_v2_def Let_def)

lemma LatestAttestation_reads:
  "LatestAttestation (\<lambda>k. Inr (abi_getLatest_v1 r k)) k = Inr (read_v1 (getLatest_v1 r k))"
  by (simp add: LatestAttestation_def decodeAttestation_def abi_getLatest_v1_def read_v1_def Let_def)

text \<open>
  C25: what the operator publishes is what a reader reads. The transaction of a v2 publish the client is willing to
  prepare carries values that the contract binds to exactly the arguments given; sent by the registry's publisher
  it is accepted, and reading the workload afterwards gives exactly their version, hash, incarnation, signature
  and fingerprint with the block's timestamp.
\<close>

theorem publish_read_roundtrip_v2:
  assumes "Prepare c build a = Inr p" "sender = r2_publisher r"
  shows "\<exists>auth vs tx r'. cv_auth c = Some auth \<and> build auth vs = Inr (pp_TxHash p, tx) \<and> pp_tx p = Some tx
     \<and> calldata_v2 vs = Some a \<and> publish_v2 r ts sender a = Inr r'
     \<and> LatestAttestationV2 (\<lambda>k. Inr (abi_getLatest_v2 r' k)) (p2_workloadId a)
       = Inr \<lparr>at2_ConfigHash = p2_configHash a, at2_Signature = p2_signature a,
             at2_SignerFingerprint = p2_signerFingerprint a, at2_Incarnation = p2_incarnation a,
             at2_BlockTimestamp = ts, at2_HashVersion = p2_hashVersion a, at2_Exists = True\<rparr>"
proof -
  from assms(1) have ok: "p2_hashVersion a \<noteq> 0" "p2_signature a \<noteq> []"
    by (auto simp: Prepare_def split: option.splits if_splits)
  from assms(1) obtain auth tx where "cv_auth c = Some auth" "pp_tx p = Some tx"
    "build auth (publish_values_v2 a) = Inr (pp_TxHash p, tx)"
    by (auto simp: Prepare_def res_simps split: option.splits if_splits)
  moreover have "calldata_v2 (publish_values_v2 a) = Some a" by simp
  moreover have "\<exists>r'. publish_v2 r ts sender a = Inr r'
     \<and> LatestAttestationV2 (\<lambda>k. Inr (abi_getLatest_v2 r' k)) (p2_workloadId a)
       = Inr \<lparr>at2_ConfigHash = p2_configHash a, at2_Signature = p2_signature a,
             at2_SignerFingerprint = p2_signerFingerprint a, at2_Incarnation = p2_incarnation a,
             at2_BlockTimestamp = ts, at2_HashVersion = p2_hashVersion a, at2_Exists = True\<rparr>"
    using ok assms(2) by (simp add: publish_v2_def LatestAttestationV2_reads getLatest_v2_def read_v2_def)
  ultimately show ?thesis by blast
qed

definition writer_v2 :: "(unit, unit) client_v2" where
  "writer_v2 = \<lparr>cv_ec = Some (), cv_auth = Some (), cv_address = 3\<rparr>"

definition build_any :: "unit \<Rightarrow> abi_value list \<Rightarrow> string + hash32 \<times> abi_value list" where
  "build_any auth vs = Inr (11, vs)"

theorem publish_read_roundtrip_v2_witness:
  "\<exists>r'. publish_v2 (the (deploy_v2 1)) 100 1 sample_args = Inr r'
     \<and> LatestAttestationV2 (\<lambda>k. Inr (abi_getLatest_v2 r' k)) 5
       = Inr \<lparr>at2_ConfigHash = 7, at2_Signature = ''sig'', at2_SignerFingerprint = 9, at2_Incarnation = 8,
             at2_BlockTimestamp = 100, at2_HashVersion = 2, at2_Exists = True\<rparr>"
proof -
  have p: "Prepare writer_v2 build_any sample_args = Inr \<lparr>pp_TxHash = 11, pp_tx = Some (publish_values_v2 sample_args)\<rparr>"
    by (simp add: Prepare_def writer_v2_def build_any_def sample_args_def)
  have "1 = r2_publisher (the (deploy_v2 1))" by (simp add: deploy_v2_def)
  from publish_read_roundtrip_v2 [OF p this, of 100] show ?thesis by (auto simp: sample_args_def)
qed

text \<open>
  C26: publishing never mistakes uncertainty for failure. \<^verbatim>\<open>PublishAndWait\<close> returns an error exactly when
  nothing was sent (no key, version zero, an empty signature, a transaction that could not be built, no
  connection); a transport error or a missing receipt is the outcome unknown, and success or revert is
  reported only from a receipt.
\<close>

theorem PublishAndWait_outcomes:
  "(\<exists>e. PublishAndWait c build send wait a = Inl e) =
     (cv_auth c = None \<or> p2_hashVersion a = 0 \<or> p2_signature a = []
      \<or> (\<exists>e. build (the (cv_auth c)) (publish_values_v2 a) = Inl e) \<or> cv_ec c = None)
   \<and> (\<forall>res. PublishAndWait c build send wait a = Inr res \<longrightarrow>
        (\<exists>h tx. build (the (cv_auth c)) (publish_values_v2 a) = Inr (h, tx) \<and> pr_TxHash res = hash_hex h
          \<and> (pr_Outcome res \<noteq> OutcomeUnknown \<longrightarrow>
               send (the (cv_ec c)) tx = None
               \<and> (\<exists>rcpt. wait (cv_ec c) tx = Inr rcpt \<and> (pr_Outcome res = OutcomeMinedSuccess \<longleftrightarrow> rc_Status rcpt = 1)))))"
proof (cases "cv_auth c = None \<or> p2_hashVersion a = 0 \<or> p2_signature a = []")
  case True
  then show ?thesis by (cases "cv_auth c") (auto simp: PublishAndWait_def Prepare_def)
next
  case ok: False
  then obtain auth where auth: "cv_auth c = Some auth" by auto
  note prep = PublishAndWait_def Prepare_def auth
  show ?thesis
  proof (cases "build auth (publish_values_v2 a)")
    case (Inl e)
    with ok show ?thesis by (simp add: prep)
  next
    case (Inr htx)
    obtain h tx where htx: "htx = (h, tx)" by fastforce
    show ?thesis
    proof (cases "cv_ec c")
      case None
      with ok Inr htx show ?thesis by (simp add: prep Send_def the_tx_def)
    next
      case (Some ec)
      with ok Inr htx show ?thesis
        by (cases "send ec tx"; cases "wait (Some ec) tx") (simp_all add: prep Send_def the_tx_def Wait_def Let_def)
    qed
  qed
qed

theorem PublishAndWait_outcomes_witness:
  "\<exists>e. PublishAndWait writer_v2 build_any (\<lambda>_ _. None) (\<lambda>_ _. Inl ''timeout'') (sample_args\<lparr>p2_signature := []\<rparr>) = Inl e"
  using PublishAndWait_outcomes [of writer_v2 build_any "\<lambda>_ _. None" "\<lambda>_ _. Inl ''timeout''" "sample_args\<lparr>p2_signature := []\<rparr>"]
  by simp

end
