(* ===== verification/Kms_Signer.thy ===== *)
theory Kms_Signer
  imports Envelope
begin

section \<open>The KMS signer: kms.go\<close>

text \<open>
  \<^verbatim>\<open>internal/signer/kms.go\<close>: construction of a signer over an AWS KMS key and the signing of digests.
  AWS is an argument (\<open>kmsAPI\<close>): what it answers is not trusted but checked, and the lemmas show what the
  checks leave: a signer exists only for a P-256 key usable with ECDSA\_SHA\_256, it always signs under the
  canonical key id, and a signature it returns verifies under the key it publishes.
\<close>

datatype signer_error =
    ErrAWSConfig string
  | ErrEmptyKeyID
  | ErrGetPublicKey string
  | ErrNoResponse
  | ErrKeyUsage string
  | ErrKeySpec string
  | ErrAlgorithmNotOffered
  | ErrEmptyPublicKey
  | ErrUnparseableKey attest_error
  | ErrWrongCurve
  | ErrKMSSign string
  | ErrEmptyKMSSignature
  | ErrSigningAlgorithm string
  | ErrSigningKey string string
  | ErrSignatureInvalid

record public_key_output =
  pk_KeyId :: "string option"
  pk_KeyUsage :: string
  pk_KeySpec :: string
  pk_SigningAlgorithms :: "string list"
  pk_PublicKey :: bytes

record sign_input =
  si_KeyId :: string
  si_Message :: bytes
  si_MessageType :: string
  si_SigningAlgorithm :: string

record sign_output =
  so_KeyId :: "string option"
  so_Signature :: bytes
  so_SigningAlgorithm :: string

text \<open>A response pointer may be nil: \<open>None\<close>.\<close>

record kmsAPI =
  kms_Sign :: "sign_input \<Rightarrow> string + sign_output option"
  kms_GetPublicKey :: "string \<Rightarrow> string + public_key_output option"

record 'key kms_signer =
  ks_client :: kmsAPI
  ks_keyID :: string
  ks_configuredKeyID :: string
  ks_pubDER :: bytes
  ks_pub :: 'key

definition signingAlgorithm :: string where
  "signingAlgorithm = ''ECDSA_SHA_256''"

text \<open>
  \<^verbatim>\<open>strings.TrimSpace(s) == ""\<close>: every rune is white space. Besides the six ASCII characters these are
  U+0085, U+00A0, U+1680, U+2000 to U+200A, U+2028, U+2029, U+202F, U+205F and U+3000.
\<close>

definition ascii_space :: "char \<Rightarrow> bool" where
  "ascii_space c \<longleftrightarrow> byte_in c 0x09 0x0D \<or> c = CHR '' ''"

definition space_rune3 :: "char \<Rightarrow> char \<Rightarrow> char \<Rightarrow> bool" where
  "space_rune3 a b c \<longleftrightarrow>
     [a, b, c] = [CHR 0xE1, CHR 0x9A, CHR 0x80]
     \<or> a = CHR 0xE2 \<and> b = CHR 0x80 \<and> (byte_in c 0x80 0x8A \<or> c = CHR 0xA8 \<or> c = CHR 0xA9 \<or> c = CHR 0xAF)
     \<or> [a, b, c] = [CHR 0xE2, CHR 0x81, CHR 0x9F] \<or> [a, b, c] = [CHR 0xE3, CHR 0x80, CHR 0x80]"

fun blank :: "string \<Rightarrow> bool" where
  "blank [] = True"
| "blank (a # s) =
     (if ascii_space a then blank s
      else case s of
          [] \<Rightarrow> False
        | b # s2 \<Rightarrow>
            (if a = CHR 0xC2 \<and> (b = CHR 0x85 \<or> b = CHR 0xA0) then blank s2
             else case s2 of
                 [] \<Rightarrow> False
               | c # s3 \<Rightarrow> space_rune3 a b c \<and> blank s3))"

definition newWithClient ::
  "('pub, 'key) crypto \<Rightarrow> kmsAPI \<Rightarrow> string \<Rightarrow> signer_error + 'key kms_signer" where
  "newWithClient cr client keyID =
     (if blank keyID then Inl ErrEmptyKeyID
      else case kms_GetPublicKey client keyID of
          Inl err \<Rightarrow> Inl (ErrGetPublicKey err)
        | Inr None \<Rightarrow> Inl ErrNoResponse
        | Inr (Some out) \<Rightarrow>
            (if pk_KeyUsage out \<noteq> ''SIGN_VERIFY'' then Inl (ErrKeyUsage (pk_KeyUsage out))
             else if pk_KeySpec out \<noteq> ''ECC_NIST_P256'' then Inl (ErrKeySpec (pk_KeySpec out))
             else if signingAlgorithm \<notin> set (pk_SigningAlgorithms out) then Inl ErrAlgorithmNotOffered
             else if length (pk_PublicKey out) = 0 then Inl ErrEmptyPublicKey
             else case ParsePublicKeyDER cr (pk_PublicKey out) of
                 Inl err \<Rightarrow> Inl (ErrUnparseableKey err)
               | Inr pub \<Rightarrow>
                   (if \<not> on_P256 cr pub then Inl ErrWrongCurve
                    else let canonical = (case pk_KeyId out of
                                            None \<Rightarrow> keyID
                                          | Some k \<Rightarrow> if k = [] then keyID else k)
                         in Inr \<lparr>ks_client = client, ks_keyID = canonical, ks_configuredKeyID = keyID,
                                 ks_pubDER = pk_PublicKey out, ks_pub = pub\<rparr>)))"

text \<open>\<open>loadConfig\<close> is \<^verbatim>\<open>config.LoadDefaultConfig\<close> followed by \<^verbatim>\<open>kms.NewFromConfig\<close>.\<close>

definition NewKMSSigner ::
  "('pub, 'key) crypto \<Rightarrow> string + kmsAPI \<Rightarrow> string \<Rightarrow> signer_error + 'key kms_signer" where
  "NewKMSSigner cr loadConfig keyID =
     (case loadConfig of
        Inl err \<Rightarrow> Inl (ErrAWSConfig err)
      | Inr client \<Rightarrow> newWithClient cr client keyID)"

definition PublicKeyDER :: "'key kms_signer \<Rightarrow> bytes" where
  "PublicKeyDER s = ks_pubDER s"

definition KeyID :: "'key kms_signer \<Rightarrow> string" where
  "KeyID s = ks_keyID s"

definition ConfiguredKeyID :: "'key kms_signer \<Rightarrow> string" where
  "ConfiguredKeyID s = ks_configuredKeyID s"

definition sign_request :: "'key kms_signer \<Rightarrow> hash32 \<Rightarrow> sign_input" where
  "sign_request s digest =
     \<lparr>si_KeyId = ks_keyID s, si_Message = hash_bytes digest, si_MessageType = ''DIGEST'',
      si_SigningAlgorithm = signingAlgorithm\<rparr>"

definition SignDigest :: "('pub, 'key) crypto \<Rightarrow> 'key kms_signer \<Rightarrow> hash32 \<Rightarrow> signer_error + bytes" where
  "SignDigest cr s digest =
     (case kms_Sign (ks_client s) (sign_request s digest) of
        Inl err \<Rightarrow> Inl (ErrKMSSign err)
      | Inr None \<Rightarrow> Inl ErrNoResponse
      | Inr (Some out) \<Rightarrow>
          (if length (so_Signature out) = 0 then Inl ErrEmptyKMSSignature
           else if so_SigningAlgorithm out \<noteq> signingAlgorithm then Inl (ErrSigningAlgorithm (so_SigningAlgorithm out))
           else if so_KeyId out \<noteq> None \<and> so_KeyId out \<noteq> Some (ks_keyID s)
           then Inl (ErrSigningKey (the (so_KeyId out)) (ks_keyID s))
           else if \<not> VerifyConfigHashSignature cr (ks_pub s) digest (so_Signature out)
           then Inl ErrSignatureInvalid
           else Inr (so_Signature out)))"

text \<open>What the components that hold a signer rely on.\<close>

lemma newWithClient_key:
  assumes "newWithClient cr client keyID = Inr s"
  shows "ParsePublicKeyDER cr (PublicKeyDER s) = Inr (ks_pub s)" "on_P256 cr (ks_pub s)"
  using assms
  by (auto simp: newWithClient_def PublicKeyDER_def Let_def split: if_splits sum.splits option.splits)

lemma SignDigest_valid:
  assumes "SignDigest cr s digest = Inr sig"
  shows "sig \<noteq> []" "VerifyConfigHashSignature cr (ks_pub s) digest sig"
  using assms by (auto simp: SignDigest_def split: if_splits sum.splits option.splits)

subsection \<open>The contract of a signer\<close>

text \<open>
  Both publishers see a signer through two methods, \<^verbatim>\<open>SignDigest\<close> and \<^verbatim>\<open>PublicKeyDER\<close>. The contract they
  rely on: the key a signer publishes parses, and what it signs verifies under that key. The lemma is what
  a party that holds only the published key can conclude.
\<close>

locale signer_contract =
  fixes cr :: "('pub, 'key) crypto"
    and built :: "'s \<Rightarrow> bool"
    and der :: "'s \<Rightarrow> bytes"
    and sign :: "'s \<Rightarrow> hash32 \<Rightarrow> 'e + bytes"
  assumes key_parses: "built s \<Longrightarrow> \<exists>pub. ParsePublicKeyDER cr (der s) = Inr pub"
    and sign_verifies: "built s \<Longrightarrow> ParsePublicKeyDER cr (der s) = Inr pub \<Longrightarrow> sign s digest = Inr sig \<Longrightarrow>
      sig \<noteq> [] \<and> VerifyConfigHashSignature cr pub digest sig"
begin

lemma holder_verifies:
  assumes "built s" "sign s digest = Inr sig"
  obtains pub where "ParsePublicKeyDER cr (der s) = Inr pub" "sig \<noteq> []" "VerifyConfigHashSignature cr pub digest sig"
  using key_parses [OF assms(1)] sign_verifies [OF assms(1) _ assms(2)] by blast

end

interpretation kms: signer_contract cr "\<lambda>s. \<exists>client keyID. newWithClient cr client keyID = Inr s" PublicKeyDER "SignDigest cr"
  for cr :: "('pub, 'key) crypto"
  by unfold_locales (use newWithClient_key SignDigest_valid in fastforce)+

subsection \<open>Properties of the signer\<close>

text \<open>
  A signer is built only over a key that fits the protocol: KMS reported usage SIGN\_VERIFY, spec
  ECC\_NIST\_P256 and the algorithm ECDSA\_SHA\_256, the public key it returned parses as an ECDSA key on
  P-256, and the signer publishes exactly those bytes and signs under the id KMS resolved, not under an
  alias.
\<close>

lemma newWithClient_sound:
  assumes "newWithClient cr client keyID = Inr s"
  shows "\<exists>out. kms_GetPublicKey client keyID = Inr (Some out)
     \<and> pk_KeyUsage out = ''SIGN_VERIFY'' \<and> pk_KeySpec out = ''ECC_NIST_P256''
     \<and> ''ECDSA_SHA_256'' \<in> set (pk_SigningAlgorithms out)
     \<and> PublicKeyDER s = pk_PublicKey out \<and> pk_PublicKey out \<noteq> []
     \<and> ParsePublicKeyDER cr (PublicKeyDER s) = Inr (ks_pub s) \<and> on_P256 cr (ks_pub s)
     \<and> (\<forall>k. pk_KeyId out = Some k \<longrightarrow> k \<noteq> [] \<longrightarrow> KeyID s = k) \<and> ConfiguredKeyID s = keyID"
  using assms
  by (auto simp: newWithClient_def signingAlgorithm_def PublicKeyDER_def KeyID_def ConfiguredKeyID_def Let_def
      split: if_splits sum.splits option.splits)

definition sample_kms :: kmsAPI where
  "sample_kms =
     \<lparr>kms_Sign = \<lambda>inp. Inr (Some \<lparr>so_KeyId = Some (si_KeyId inp), so_Signature = ''sig'',
         so_SigningAlgorithm = ''ECDSA_SHA_256''\<rparr>),
      kms_GetPublicKey = \<lambda>k. Inr (Some \<lparr>pk_KeyId = Some ''arn:key'', pk_KeyUsage = ''SIGN_VERIFY'',
         pk_KeySpec = ''ECC_NIST_P256'', pk_SigningAlgorithms = [''ECDSA_SHA_256''], pk_PublicKey = ''der''\<rparr>)\<rparr>"

definition trusting :: "(unit, unit) crypto" where
  "trusting =
     \<lparr>x509_ParsePKIXPublicKey = \<lambda>_. Inr (), as_ecdsa = \<lambda>_. Some (), ecdsa_VerifyASN1 = \<lambda>_ _ sig. sig = ''sig'',
      on_P256 = \<lambda>_. True\<rparr>"

definition sample_signer :: "unit kms_signer" where
  "sample_signer =
     \<lparr>ks_client = sample_kms, ks_keyID = ''arn:key'', ks_configuredKeyID = ''alias/a'', ks_pubDER = ''der'', ks_pub = ()\<rparr>"

lemma sample_signer_built: "newWithClient trusting sample_kms ''alias/a'' = Inr sample_signer"
  by (simp add: newWithClient_def sample_kms_def trusting_def sample_signer_def ParsePublicKeyDER_def
      signingAlgorithm_def ascii_space_def byte_in_def space_rune3_def)

text \<open>
  C22: a signature the signer returns is never empty and verifies, under the signer's own public key, over
  exactly the digest it was asked to sign; it was requested for the canonical key id as a digest with
  ECDSA\_SHA\_256, and KMS did not name another key. Anything else is an error.
\<close>

theorem SignDigest_verifies:
  assumes "SignDigest cr s digest = Inr sig"
  shows "sig \<noteq> [] \<and> VerifyConfigHashSignature cr (ks_pub s) digest sig
     \<and> (\<exists>out. kms_Sign (ks_client s) \<lparr>si_KeyId = KeyID s, si_Message = hash_bytes digest, si_MessageType = ''DIGEST'',
              si_SigningAlgorithm = ''ECDSA_SHA_256''\<rparr> = Inr (Some out)
         \<and> so_Signature out = sig \<and> (so_KeyId out = None \<or> so_KeyId out = Some (KeyID s)))"
  using assms
  by (auto simp: SignDigest_def sign_request_def KeyID_def signingAlgorithm_def
      split: if_splits sum.splits option.splits)

theorem SignDigest_verifies_witness:
  "SignDigest trusting sample_signer 7 = Inr ''sig'' \<and> VerifyConfigHashSignature trusting (ks_pub sample_signer) 7 ''sig''"
proof -
  have "SignDigest trusting sample_signer 7 = Inr ''sig''"
    by (simp add: SignDigest_def sign_request_def sample_signer_def sample_kms_def signingAlgorithm_def trusting_def
        VerifyConfigHashSignature_def)
  with SignDigest_verifies [OF this] show ?thesis by blast
qed

end
