(* ===== verification/Publisher_Chain.thy ===== *)
theory Publisher_Chain
  imports Publisher_V2_Props Chain_Client Kms_Signer
begin

section \<open>The v2 publisher on the v2 registry\<close>

text \<open>
  The publisher of Publisher\_V2 sees the chain through the interface \<^verbatim>\<open>ChainV2\<close> of \<^verbatim>\<open>publisher_v2.go\<close>. Here
  that interface is a locale: the record of a workload as the publisher reads it, and the effect of a
  mined transaction. What the publisher needs of it is proved once, and the registry contract, read
  through the decoder of \<^verbatim>\<open>client_v2.go\<close>, is an interpretation.

  The repository has no code yet that implements \<^verbatim>\<open>ChainV2\<close> by \<^verbatim>\<open>ClientV2\<close> (only a test double implements it). The
  three definitions that connect the two, \<open>view_v2\<close>, \<open>registry_latest\<close> and \<open>publish_args_for\<close>, are therefore not
  translations: they pass each field on under its own name, as the comments of the interface ask.
\<close>

locale chain_v2 =
  fixes latest :: "'r \<Rightarrow> hash32 \<Rightarrow> on_chain"
    and mine :: "'r \<Rightarrow> u64 \<Rightarrow> hash32 \<Rightarrow> revision_key \<Rightarrow> bytes \<Rightarrow> 'r"
  assumes mine_latest: "rk_Version key \<noteq> 0 \<Longrightarrow> sig \<noteq> [] \<Longrightarrow>
      latest (mine r ts wid key sig) k =
        (if k = wid then \<lparr>oc_Exists = True, oc_Key = key, oc_Signature = sig\<rparr> else latest r k)"
begin

text \<open>
  A publisher with an empty memory that finds the record of its own earlier transaction confirms it and
  publishes nothing.
\<close>

lemma restart_confirms:
  assumes "ws_desired rv = d" "ws_key rv = revisionKey p d" "snapshot p wid = Some rv"
    and "ds_Version d \<noteq> 0" "recordIsOurs cr p d sig"
  shows "\<exists>p'. process cr p wid [RLatest (Inr (latest (mine r ts wid (revisionKey p d) sig) wid)), RLocked] = Some (p', Inr False)
     \<and> pv_state p' wid = Some (rv\<lparr>ws_confirmed := Some (revisionKey p d), ws_prepared := None\<rparr>)
     \<and> snapshot p' wid = None"
proof -
  have sig: "sig \<noteq> []" using assms(5) by (auto simp: recordIsOurs_def)
  have "rk_Version (revisionKey p d) \<noteq> 0" using assms(4) by (simp add: revisionKey_def)
  from mine_latest [OF this sig, of r ts wid wid]
  have m: "matches cr p rv (latest (mine r ts wid (revisionKey p d) sig) wid)"
    using assms by (simp add: matches_def)
  have st: "pv_state p wid = Some rv"
    using assms(3) by (auto simp: snapshot_def split: option.splits if_splits)
  show ?thesis
    using m st assms(2)
    by (simp add: process_def beginProcess_def assms(3) confirm_def Let_def) (simp add: snapshot_def)
qed

text \<open>Mining for one workload leaves what every other workload's worker reads.\<close>

lemma mine_elsewhere:
  "rk_Version key \<noteq> 0 \<Longrightarrow> sig \<noteq> [] \<Longrightarrow> k \<noteq> wid \<Longrightarrow>
    matches cr p rv (latest (mine r ts wid key sig) k) = matches cr p rv (latest r k)"
  by (simp add: mine_latest)

end

subsection \<open>The registry behind the interface\<close>

definition view_v2 :: "attestation2 \<Rightarrow> on_chain" where
  "view_v2 a =
     \<lparr>oc_Exists = at2_Exists a,
      oc_Key = \<lparr>rk_Version = at2_HashVersion a, rk_ConfigHash = at2_ConfigHash a, rk_Incarnation = at2_Incarnation a,
                rk_Fingerprint = at2_SignerFingerprint a\<rparr>,
      oc_Signature = at2_Signature a\<rparr>"

definition registry_latest :: "registry_v2 \<Rightarrow> hash32 \<Rightarrow> on_chain" where
  "registry_latest r k =
     (case LatestAttestationV2 (\<lambda>k. Inr (abi_getLatest_v2 r k)) k of
        Inl e \<Rightarrow> \<lparr>oc_Exists = False, oc_Key = zero_key, oc_Signature = []\<rparr>
      | Inr a \<Rightarrow> view_v2 a)"

definition publish_args_for :: "hash32 \<Rightarrow> revision_key \<Rightarrow> bytes \<Rightarrow> publish_args_v2" where
  "publish_args_for wid key sig =
     \<lparr>p2_workloadId = wid, p2_hashVersion = rk_Version key, p2_configHash = rk_ConfigHash key,
      p2_incarnation = rk_Incarnation key, p2_signature = sig, p2_signerFingerprint = rk_Fingerprint key\<rparr>"

definition registry_mine :: "registry_v2 \<Rightarrow> u64 \<Rightarrow> hash32 \<Rightarrow> revision_key \<Rightarrow> bytes \<Rightarrow> registry_v2" where
  "registry_mine r ts wid key sig = transact publish_v2 r (ts, r2_publisher r, publish_args_for wid key sig)"

interpretation rc: chain_v2 registry_latest registry_mine
  by unfold_locales
    (simp add: registry_latest_def LatestAttestationV2_reads registry_mine_def transact_def publish_v2_def
      publish_args_for_def getLatest_v2_def read_v2_def view_v2_def)

lemma NewV2_key:
  assumes "NewV2 cr der = Inr p" "ParsePublicKeyDER cr der = Inr pub"
  shows "pv_pub p = pub" "pv_fingerprint p = PublicKeyFingerprintBytes der" "pv_state p = Map.empty" "pv_seq p = 0"
  using assms by (auto simp: NewV2_def)

lemma Enqueue_fresh:
  assumes "Enqueue p d = Inr (p', calls)" "WorkloadID (ds_Identity d) = Inr wid" "pv_state p = Map.empty" "pv_seq p = 0"
  shows "\<exists>rv. snapshot p' wid = Some rv \<and> ws_desired rv = d \<and> ws_key rv = revisionKey p' d \<and> pv_pub p' = pv_pub p"
  using assms
  by (auto simp: Enqueue_def Let_def zero_workload_state_def snapshot_def revisionKey_def split: if_splits)

text \<open>
  C19: a restarted publisher does not publish twice. Take a signature the KMS signer made over a revision's
  envelope, mined into the registry. A publisher built anew for that signer, its memory empty, to which
  the same revision is enqueued, reads the registry through the client, recognises the record as its own
  and confirms the revision: it signs nothing, sends nothing, and has nothing left to do.
\<close>

theorem restart_does_not_republish:
  assumes "newWithClient cr client keyID = Inr s" "NewV2 cr (PublicKeyDER s) = Inr p0"
    and "Enqueue p0 d = Inr (p, calls)" "WorkloadID (ds_Identity d) = Inr wid" "ds_Version d \<noteq> 0"
    and "envelope_SigningDigest (envelopeFor d) = Inr digest" "SignDigest cr s digest = Inr sig"
  shows "\<exists>p'. process cr p wid [RLatest (Inr (registry_latest (registry_mine r ts wid (revisionKey p d) sig) wid)), RLocked]
        = Some (p', Inr False) \<and> snapshot p' wid = None"
proof -
  obtain pub where pub: "ParsePublicKeyDER cr (PublicKeyDER s) = Inr pub"
    and sig: "sig \<noteq> []" "VerifyConfigHashSignature cr pub digest sig"
    using kms.holder_verifies [OF _ assms(7)] assms(1) by blast
  note p0 = NewV2_key [OF assms(2) pub]
  obtain rv where rv: "snapshot p wid = Some rv" "ws_desired rv = d" "ws_key rv = revisionKey p d" "pv_pub p = pub"
    using Enqueue_fresh [OF assms(3,4) p0(3,4)] p0(1) by auto
  from sig have "recordIsOurs cr p d sig"
    using assms(6) rv(4) by (simp add: recordIsOurs_def)
  from rc.restart_confirms [OF rv(2,3,1) assms(5) this, of r ts] show ?thesis by blast
qed

theorem restart_does_not_republish_witness:
  "\<exists>p p' :: (unit, nat) publisher_v2. \<exists>rsp. process trusting p web_id [RLatest rsp, RLocked] = Some (p', Inr False)"
proof -
  have n: "NewV2 trusting (PublicKeyDER sample_signer) =
      Inr (\<lparr>pv_fingerprint = Sum256 ''der'', pv_pub = (), pv_state = Map.empty, pv_seq = 0\<rparr> :: (unit, nat) publisher_v2)"
    by (simp add: NewV2_def ParsePublicKeyDER_def trusting_def PublicKeyDER_def sample_signer_def PublicKeyFingerprintBytes_def)
  obtain p calls where e: "Enqueue (\<lparr>pv_fingerprint = Sum256 ''der'', pv_pub = (), pv_state = Map.empty, pv_seq = 0\<rparr>
      :: (unit, nat) publisher_v2) (web_desired 7) = Inr (p, calls)"
    by (simp add: Enqueue_def web_WorkloadID Let_def zero_workload_state_def)
  have w: "WorkloadID (ds_Identity (web_desired 7)) = Inr web_id" by (simp add: web_WorkloadID)
  have v: "ds_Version (web_desired 7) \<noteq> 0" by (simp add: web_desired_def V2_def)
  obtain digest where d: "envelope_SigningDigest (envelopeFor (web_desired 7)) = Inr digest" using web_digest by blast
  have s: "SignDigest trusting sample_signer digest = Inr ''sig''"
    by (simp add: SignDigest_def sign_request_def sample_signer_def sample_kms_def signingAlgorithm_def trusting_def
        VerifyConfigHashSignature_def)
  from restart_does_not_republish [OF sample_signer_built n e w v d s, of "the (deploy_v2 1)" 100] show ?thesis by blast
qed

end
