(* ===== verification/Publisher_V2_World.thy ===== *)
theory Publisher_V2_World
  imports Publisher_Chain
begin

section \<open>The v2 publisher on a chain\<close>

text \<open>
  Publisher\_V2\_Inv lets the chain and the signer answer anything. Here they are what they are: the registry
  contract, transactions that wait at a node until a block includes or drops them, and a signer that keeps its contract.
  A read returns the registry's record through the client, a transaction carries the arguments it was prepared
  with, and a receipt is given only for a transaction in a block, where it may have failed for want of gas or
  because the contract refused it. The chain includes the account's transactions
  in the order of their nonces and uses each nonce once; a transaction is prepared with a nonce that is still
  free, though not always one that no other prepared transaction has, for the node counts only the transactions
  it has. The account is the publisher's alone. Calls may still fail, a transaction may reach the node although \<^verbatim>\<open>Send\<close> saw an
  error, and a receipt may never be seen.

  The system refines the one of Publisher\_V2\_Inv, so its invariants hold; with the chain they become
  statements about the registry: a revision takes effect at most once, a confirmed revision is in the
  registry's log, and everything in the log was desired and is signed.
\<close>

record v2_tx =
  tx_nonce :: nat
  tx_args :: publish_args_v2

record 'key world =
  w_sys :: "('key, v2_tx) sys"
  w_wanted :: "desired set"
  w_registry :: registry_v2
  w_pool :: "v2_tx set"
  w_mined :: "(v2_tx \<times> bool) list"

subsection \<open>Steps\<close>

text \<open>The answers the signer and the chain can give to the call a control state makes.\<close>

fun can_answer :: "('pub, 'key) crypto \<Rightarrow> 'key world \<Rightarrow> v2_tx pc \<Rightarrow> v2_tx response \<Rightarrow> bool" where
  "can_answer cr w (PLatest wid rv) (RLatest (Inr oc)) \<longleftrightarrow> oc = registry_latest (w_registry w) wid"
| "can_answer cr w (PReconcile wid rv tx) (RLatest (Inr oc)) \<longleftrightarrow> oc = registry_latest (w_registry w) wid"
| "can_answer cr w (PSign wid rv digest) (RSign (Inr sig)) \<longleftrightarrow>
     sig \<noteq> [] \<and> VerifyConfigHashSignature cr (pv_pub (sy_pub (w_sys w))) digest sig"
| "can_answer cr w (PPrepare wid rv sig) (RPrepare (Inr tx)) \<longleftrightarrow>
     tx_args tx = publish_args_for wid (ws_key rv) sig \<and> length (w_mined w) \<le> tx_nonce tx"
| "can_answer cr w (PWait wid rv tx) (RWait (Inr WaitMinedSuccess)) \<longleftrightarrow> (tx, True) \<in> set (w_mined w)"
| "can_answer cr w (PWait wid rv tx) (RWait (Inr WaitReverted)) \<longleftrightarrow> (tx, False) \<in> set (w_mined w)"
| "can_answer cr w pc r \<longleftrightarrow> True"

text \<open>What a call does to the node: only \<^verbatim>\<open>Send\<close> does anything, and when it reports an error nothing was sent.\<close>

fun pool_after :: "v2_tx pc \<Rightarrow> v2_tx response \<Rightarrow> v2_tx set \<Rightarrow> v2_tx set \<Rightarrow> bool" where
  "pool_after (PSend wid rv tx) (RSend (Inr SendAccepted)) pool pool' \<longleftrightarrow> pool' = insert tx pool"
| "pool_after (PSend wid rv tx) (RSend (Inr SendUnknown)) pool pool' \<longleftrightarrow> pool' = pool \<or> pool' = insert tx pool"
| "pool_after pc r pool pool' \<longleftrightarrow> pool' = pool"

definition takes_effect :: "registry_v2 \<Rightarrow> address \<Rightarrow> publish_args_v2 \<Rightarrow> bool" where
  "takes_effect r sender a \<longleftrightarrow> sender = r2_publisher r \<and> admissible_v2 a"

inductive world_step :: "('pub, 'key) crypto \<Rightarrow> address \<Rightarrow> 'key world \<Rightarrow> 'key world \<Rightarrow> bool" for cr me where
  enqueue: "Enqueue (sy_pub (w_sys w)) d = Inr (p', calls) \<Longrightarrow> pv_seq (sy_pub (w_sys w)) + 1 \<noteq> 0 \<Longrightarrow>
     world_step cr me w (w\<lparr>w_sys := (w_sys w)\<lparr>sy_pub := p'\<rparr>, w_wanted := insert d (w_wanted w)\<rparr>)"
| start: "sy_pc (w_sys w) = PIdle \<Longrightarrow>
     world_step cr me w (w\<lparr>w_sys := (w_sys w)\<lparr>sy_pc := fst (beginProcess (sy_pub (w_sys w)) wid)\<rparr>\<rparr>)"
| call: "resume cr (sy_pub (w_sys w)) (sy_pc (w_sys w)) r = Some (p', pc', res) \<Longrightarrow>
     can_answer cr w (sy_pc (w_sys w)) r \<Longrightarrow> pool_after (sy_pc (w_sys w)) r (w_pool w) pool' \<Longrightarrow>
     world_step cr me w
       (w\<lparr>w_sys := \<lparr>sy_pub = p', sy_pc = pc', sy_hist = event_of (sy_pc (w_sys w)) r @ sy_hist (w_sys w)\<rparr>,
          w_pool := pool'\<rparr>)"
| mine: "tx \<in> w_pool w \<Longrightarrow> tx_nonce tx = length (w_mined w) \<Longrightarrow> ok \<longrightarrow> takes_effect (w_registry w) me (tx_args tx) \<Longrightarrow>
     world_step cr me w
       (w\<lparr>w_registry := if ok then transact publish_v2 (w_registry w) (ts, me, tx_args tx) else w_registry w,
          w_pool := w_pool w - {tx}, w_mined := (tx, ok) # w_mined w\<rparr>)"
| drop: "world_step cr me w (w\<lparr>w_pool := w_pool w - {tx}\<rparr>)"
| foreign: "sender \<noteq> r2_publisher (w_registry w) \<Longrightarrow>
     world_step cr me w (w\<lparr>w_registry := transact publish_v2 (w_registry w) (ts, sender, a)\<rparr>)"

definition world_init :: "('key, v2_tx) publisher_v2 \<Rightarrow> registry_v2 \<Rightarrow> 'key world" where
  "world_init p0 r =
     \<lparr>w_sys = \<lparr>sy_pub = p0, sy_pc = PIdle, sy_hist = []\<rparr>, w_wanted = {}, w_registry = r, w_pool = {}, w_mined = []\<rparr>"

inductive world_reach :: "('pub, 'key) crypto \<Rightarrow> address \<Rightarrow> ('key, v2_tx) publisher_v2 \<Rightarrow> registry_v2 \<Rightarrow> 'key world \<Rightarrow> bool"
  for cr me p0 r where
  init: "world_reach cr me p0 r (world_init p0 r)"
| step: "world_reach cr me p0 r w \<Longrightarrow> world_step cr me w w' \<Longrightarrow> world_reach cr me p0 r w'"

lemma world_step_sys: "world_step cr me w w' \<Longrightarrow> w_sys w' = w_sys w \<or> step cr (w_sys w) (w_sys w')"
  by (induction rule: world_step.induct) (auto intro: step.intros)

lemma world_reach_reach: "world_reach cr me p0 r w \<Longrightarrow> reach cr p0 (w_sys w)"
proof (induction rule: world_reach.induct)
  case init
  show ?case by (simp add: world_init_def reach.init)
next
  case (step w w')
  then show ?case using world_step_sys [OF step.hyps(2)] by (auto intro: reach.step)
qed

lemma world_invs:
  assumes "world_reach cr me p0 r w" "fresh_publisher p0"
  shows "wf_inv (w_sys w)" "bal_inv (w_sys w)" "conf_inv cr (w_sys w)"
  using wf_inv_reach bal_inv_reach conf_inv_reach world_reach_reach [OF assms(1)] assms(2) by blast+

subsection \<open>The registry and its log\<close>

definition event_v2 :: "u64 \<Rightarrow> publish_args_v2 \<Rightarrow> published_event_v2" where
  "event_v2 ts a =
     \<lparr>ev2_workloadId = p2_workloadId a, ev2_hashVersion = p2_hashVersion a, ev2_configHash = p2_configHash a,
      ev2_incarnation = p2_incarnation a, ev2_signerFingerprint = p2_signerFingerprint a, ev2_signature = p2_signature a,
      ev2_blockTimestamp = ts\<rparr>"

definition event_key :: "published_event_v2 \<Rightarrow> revision_key" where
  "event_key ev =
     \<lparr>rk_Version = ev2_hashVersion ev, rk_ConfigHash = ev2_configHash ev, rk_Incarnation = ev2_incarnation ev,
      rk_Fingerprint = ev2_signerFingerprint ev\<rparr>"

lemma transact_events:
  "r2_events (transact publish_v2 r (ts, sender, a)) =
     r2_events r @ (if takes_effect r sender a then [event_v2 ts a] else [])"
  by (simp add: transact_def publish_v2_def takes_effect_def admissible_v2_def event_v2_def)

definition logged :: "registry_v2 \<Rightarrow> bool" where
  "logged r \<longleftrightarrow> (\<forall>k. lookup_v2 r k = map_option event_entry (last_event (r2_events r) k))"

lemma logged_transact: "logged r \<Longrightarrow> logged (transact publish_v2 r c)"
  unfolding logged_def by (rule publish_v2_logged)

lemma logged_deploy: "deploy_v2 owner = Some r \<Longrightarrow> logged r \<and> r2_events r = []"
  by (auto simp: logged_def deploy_v2_def lookup_v2_def getLatest_v2_def zero_attestation_v2_def last_event_def
      split: if_splits)

lemma find_SomeD: "find P xs = Some x \<Longrightarrow> x \<in> set xs \<and> P x"
  by (induction xs) (auto split: if_splits)

text \<open>A record read from the registry is in its log.\<close>

lemma read_is_logged:
  assumes "logged r" "oc_Exists (registry_latest r wid)"
  shows "\<exists>ev \<in> set (r2_events r). ev2_workloadId ev = wid \<and> event_key ev = oc_Key (registry_latest r wid)
     \<and> ev2_signature ev = oc_Signature (registry_latest r wid)"
proof -
  have view: "registry_latest r wid = view_v2 (read_v2 (getLatest_v2 r wid))"
    by (simp add: registry_latest_def LatestAttestationV2_reads)
  have ex: "a2_exists (getLatest_v2 r wid)" using assms(2) by (simp add: view view_v2_def read_v2_def)
  then have "map_option event_entry (last_event (r2_events r) wid) = Some (getLatest_v2 r wid)"
    using assms(1) [unfolded logged_def, rule_format, of wid] by (simp add: lookup_v2_def)
  then obtain ev where ev: "last_event (r2_events r) wid = Some ev" "event_entry ev = getLatest_v2 r wid" by auto
  then have "ev \<in> set (r2_events r)" "ev2_workloadId ev = wid"
    by (auto simp: last_event_def dest: find_SomeD)
  moreover have "event_key ev = oc_Key (registry_latest r wid)" "ev2_signature ev = oc_Signature (registry_latest r wid)"
    unfolding view ev(2) [symmetric] by (simp_all add: view_v2_def read_v2_def event_entry_def event_key_def)
  ultimately show ?thesis by blast
qed

text \<open>The log is what the effective transactions wrote, and nothing else.\<close>

definition wrote :: "'key world \<Rightarrow> published_event_v2 \<Rightarrow> bool" where
  "wrote w ev \<longleftrightarrow> (\<exists>tx ts. (tx, True) \<in> set (w_mined w) \<and> ev = event_v2 ts (tx_args tx))"

definition in_log :: "'key world \<Rightarrow> v2_tx \<Rightarrow> bool" where
  "in_log w tx \<longleftrightarrow> (\<exists>ts. event_v2 ts (tx_args tx) \<in> set (r2_events (w_registry w)))"

definition log_inv :: "'key world \<Rightarrow> bool" where
  "log_inv w \<longleftrightarrow>
     logged (w_registry w) \<and> map (tx_nonce \<circ> fst) (w_mined w) = rev [0..<length (w_mined w)]
     \<and> (\<forall>tx. (tx, True) \<in> set (w_mined w) \<longrightarrow> in_log w tx)
     \<and> (\<forall>ev \<in> set (r2_events (w_registry w)). wrote w ev)"

lemma log_inv_mine:
  assumes inv: "log_inv w" and nonce: "tx_nonce tx = length (w_mined w)"
    and ok: "ok \<longrightarrow> takes_effect (w_registry w) me (tx_args tx)"
    and w': "w' = w\<lparr>w_registry := if ok then transact publish_v2 (w_registry w) (ts, me, tx_args tx) else w_registry w,
          w_pool := w_pool w - {tx}, w_mined := (tx, ok) # w_mined w\<rparr>"
  shows "log_inv w'"
proof -
  have events: "r2_events (w_registry w') = r2_events (w_registry w) @ (if ok then [event_v2 ts (tx_args tx)] else [])"
    using ok by (simp add: w' transact_events)
  have log: "in_log w' u" if "in_log w u" for u using that by (auto simp: in_log_def events)
  have new: "in_log w' tx" if ok using that by (auto simp: in_log_def events)
  have wr: "wrote w' ev" if "wrote w ev" for ev using that by (auto simp: wrote_def w')
  have "wrote w' (event_v2 ts (tx_args tx))" if ok using that by (auto simp: wrote_def w')
  with wr inv have "\<forall>ev \<in> set (r2_events (w_registry w')). wrote w' ev" by (auto simp: log_inv_def events)
  moreover have "\<forall>u. (u, True) \<in> set (w_mined w') \<longrightarrow> in_log w' u"
    using log new inv by (auto simp: log_inv_def w')
  ultimately show ?thesis
    using inv nonce by (simp add: log_inv_def logged_transact w')
qed

lemma log_inv_step:
  assumes "world_step cr me w w'" "log_inv w"
  shows "log_inv w'"
  using assms
proof (induction rule: world_step.induct)
  case (mine tx w ok ts)
  show ?case by (rule log_inv_mine [OF mine(4,2,3) refl])
next
  case (foreign sender w ts a)
  then show ?case
    by (simp add: log_inv_def logged_transact transact_events takes_effect_def in_log_def wrote_def)
qed (simp_all add: log_inv_def in_log_def wrote_def)

lemma log_inv_reach: "world_reach cr me p0 r w \<Longrightarrow> deploy_v2 owner = Some r \<Longrightarrow> log_inv w"
proof (induction rule: world_reach.induct)
  case init
  then show ?case using logged_deploy by (auto simp: log_inv_def world_init_def)
qed (auto intro: log_inv_step)

text \<open>The account's transactions are included in the order of their nonces, so no nonce is used twice.\<close>

lemma nonces_distinct: "log_inv w \<Longrightarrow> distinct (map (tx_nonce \<circ> fst) (w_mined w))"
  by (simp add: log_inv_def)

lemma mined_nonce:
  assumes "log_inv w" "tx \<in> fst ` set (w_mined w)"
  shows "tx_nonce tx < length (w_mined w)"
proof -
  have "set (map (tx_nonce \<circ> fst) (w_mined w)) = {..<length (w_mined w)}" using assms(1) by (auto simp: log_inv_def)
  with assms(2) show ?thesis by auto
qed

subsection \<open>The history agrees with the chain\<close>

definition wanted_by :: "('pub, 'key) crypto \<Rightarrow> 'key world \<Rightarrow> hash32 \<Rightarrow> revision_key \<Rightarrow> bytes \<Rightarrow> bool" where
  "wanted_by cr w wid k sig \<longleftrightarrow>
     (\<exists>d \<in> w_wanted w. WorkloadID (ds_Identity d) = Inr wid \<and> k = revisionKey (sy_pub (w_sys w)) d
        \<and> recordIsOurs cr (sy_pub (w_sys w)) d sig)"

fun hist_ok :: "('pub, 'key) crypto \<Rightarrow> 'key world \<Rightarrow> v2_tx event \<Rightarrow> bool" where
  "hist_ok cr w (EvLatest wid oc) \<longleftrightarrow>
     (oc_Exists oc \<longrightarrow> (\<exists>ev \<in> set (r2_events (w_registry w)). ev2_workloadId ev = wid \<and> event_key ev = oc_Key oc
        \<and> ev2_signature ev = oc_Signature oc))"
| "hist_ok cr w (EvSigned n digest sig) \<longleftrightarrow>
     sig \<noteq> [] \<and> VerifyConfigHashSignature cr (pv_pub (sy_pub (w_sys w))) digest sig"
| "hist_ok cr w (EvPrepared n wid k sig tx) \<longleftrightarrow> tx_args tx = publish_args_for wid k sig \<and> wanted_by cr w wid k sig"
| "hist_ok cr w (EvSent n tx) \<longleftrightarrow> True"
| "hist_ok cr w (EvMined n tx) \<longleftrightarrow> (tx, True) \<in> set (w_mined w)"
| "hist_ok cr w (EvReverted n tx) \<longleftrightarrow> (tx, False) \<in> set (w_mined w)"

text \<open>What only grows along a step.\<close>

definition grows :: "'key world \<Rightarrow> 'key world \<Rightarrow> bool" where
  "grows w w' \<longleftrightarrow>
     set (r2_events (w_registry w)) \<subseteq> set (r2_events (w_registry w')) \<and> set (w_mined w) \<subseteq> set (w_mined w')
     \<and> w_wanted w \<subseteq> w_wanted w' \<and> set (sy_hist (w_sys w)) \<subseteq> set (sy_hist (w_sys w'))
     \<and> pv_fingerprint (sy_pub (w_sys w')) = pv_fingerprint (sy_pub (w_sys w))
     \<and> pv_pub (sy_pub (w_sys w')) = pv_pub (sy_pub (w_sys w))"

lemma Enqueue_same_key:
  "Enqueue p d = Inr (p', calls) \<Longrightarrow> pv_fingerprint p' = pv_fingerprint p \<and> pv_pub p' = pv_pub p"
  by (auto elim: Enqueue_cases)

lemma world_step_grows: "world_step cr me w w' \<Longrightarrow> grows w w'"
  by (induction rule: world_step.induct)
    (auto simp: grows_def resume_same transact_events Enqueue_same_key)

lemma wanted_by_mono: "wanted_by cr w wid k sig \<Longrightarrow> grows w w' \<Longrightarrow> wanted_by cr w' wid k sig"
  using revisionKey_cong [of "sy_pub (w_sys w')" "sy_pub (w_sys w)"]
    recordIsOurs_cong [of "sy_pub (w_sys w')" "sy_pub (w_sys w)" cr]
  by (auto simp: wanted_by_def grows_def)

lemma hist_ok_mono: "hist_ok cr w e \<Longrightarrow> grows w w' \<Longrightarrow> hist_ok cr w' e"
  using wanted_by_mono [of cr w _ _ _ w'] by (cases e) (auto simp: grows_def)

text \<open>What is stored and what the worker holds was asked for.\<close>

definition wanted_inv :: "'key world \<Rightarrow> bool" where
  "wanted_inv w \<longleftrightarrow>
     (\<forall>wid st. pv_state (sy_pub (w_sys w)) wid = Some st \<longrightarrow> ws_desired st \<in> w_wanted w)
     \<and> (\<forall>wid rv. pc_rev (sy_pc (w_sys w)) = Some (wid, rv) \<longrightarrow> ws_desired rv \<in> w_wanted w)"

definition known :: "v2_tx event list \<Rightarrow> v2_tx \<Rightarrow> bool" where
  "known h tx \<longleftrightarrow> (\<exists>n wid k sig. EvPrepared n wid k sig tx \<in> set h)"

lemma known_mono: "known h tx \<Longrightarrow> set h \<subseteq> set h' \<Longrightarrow> known h' tx"
  unfolding known_def by blast

definition hist_inv :: "('pub, 'key) crypto \<Rightarrow> 'key world \<Rightarrow> bool" where
  "hist_inv cr w \<longleftrightarrow>
     (\<forall>e \<in> set (sy_hist (w_sys w)). hist_ok cr w e)
     \<and> (\<forall>tx \<in> w_pool w \<union> fst ` set (w_mined w). known (sy_hist (w_sys w)) tx)"

lemma hist_invD:
  assumes "hist_inv cr w"
  shows "e \<in> set (sy_hist (w_sys w)) \<Longrightarrow> hist_ok cr w e" "tx \<in> w_pool w \<Longrightarrow> known (sy_hist (w_sys w)) tx"
    "tx \<in> fst ` set (w_mined w) \<Longrightarrow> known (sy_hist (w_sys w)) tx"
  using assms unfolding hist_inv_def by blast+

lemma hist_invI:
  assumes grow: "grows w w'" and old: "\<And>e. e \<in> set (sy_hist (w_sys w')) \<Longrightarrow> hist_ok cr w e"
    and tx: "\<And>tx. tx \<in> w_pool w' \<or> tx \<in> fst ` set (w_mined w') \<Longrightarrow> known (sy_hist (w_sys w)) tx"
  shows "hist_inv cr w'"
proof -
  have "set (sy_hist (w_sys w)) \<subseteq> set (sy_hist (w_sys w'))" using grow by (simp add: grows_def)
  then have "known (sy_hist (w_sys w')) u" if "u \<in> w_pool w' \<union> fst ` set (w_mined w')" for u
    using tx [of u] that known_mono by blast
  moreover have "hist_ok cr w' e" if "e \<in> set (sy_hist (w_sys w'))" for e
    using old [OF that] grow by (rule hist_ok_mono)
  ultimately show ?thesis by (simp add: hist_inv_def)
qed

lemma wanted_inv_step:
  assumes "world_step cr me w w'" "wanted_inv w"
  shows "wanted_inv w'"
  using assms
proof (induction rule: world_step.induct)
  case (enqueue w d p' calls)
  from enqueue(1) show ?case
  proof (cases rule: Enqueue_cases)
    case same
    with enqueue(3) show ?thesis by (auto simp: wanted_inv_def)
  next
    case (newer wid)
    then have "ws_desired (new_revision (sy_pub (w_sys w)) wid d) = d" by (simp add: new_revision_def)
    with enqueue(3) show ?thesis by (auto simp: wanted_inv_def newer(2))
  qed
next
  case (start w wid)
  then show ?case by (auto simp: wanted_inv_def beginProcess_def snapshot_def split: option.splits if_splits)
next
  case (call w r p' pc' res pool')
  have "ws_desired st \<in> w_wanted w" if st: "pv_state p' wid = Some st" for wid st
  proof -
    obtain st0 where "pv_state (sy_pub (w_sys w)) wid = Some st0"
      using resume_state(1) [OF call(1), of wid] st by fastforce
    with resume_state(2) [OF call(1) this] st call(4) show ?thesis by (auto simp: wanted_inv_def)
  qed
  with call(4) resume_rev [OF call(1)] show ?case by (auto simp: wanted_inv_def)
qed (simp_all add: wanted_inv_def)

text \<open>The events of a call are true of the chain that answered it.\<close>

lemma new_event_ok:
  assumes wf: "wf_inv (w_sys w)" and hist: "hist_inv cr w" and want: "wanted_inv w" and log: "log_inv w"
    and res: "resume cr (sy_pub (w_sys w)) (sy_pc (w_sys w)) r = Some (p', pc', res)"
    and ans: "can_answer cr w (sy_pc (w_sys w)) r" and e: "e \<in> set (event_of (sy_pc (w_sys w)) r)"
  shows "hist_ok cr w e"
proof -
  let ?s = "w_sys w"
  have logged: "logged (w_registry w)" using log by (simp add: log_inv_def)
  show ?thesis
  proof (cases "(sy_pc ?s, r)" rule: event_of.cases)
    case (1 wid rv oc)
    with e ans read_is_logged [OF logged, of wid] show ?thesis by auto
  next
    case (2 wid rv tx oc)
    with e ans read_is_logged [OF logged, of wid] show ?thesis by auto
  next
    case (3 wid rv digest sig)
    with e ans show ?thesis by auto
  next
    case (4 wid rv sig tx)
    then have pc: "sy_pc ?s = PPrepare wid rv sig" and r: "r = RPrepare (Inr tx)" by auto
    have rv: "rev_ok (sy_pub ?s) (sy_hist ?s) wid rv" and signed: "signed_for (sy_hist ?s) rv sig"
      using wf pc by (auto simp: wf_inv_def)
    obtain digest where digest: "envelope_SigningDigest (envelopeFor (ws_desired rv)) = Inr digest"
      and ev: "EvSigned (ws_seq rv) digest sig \<in> set (sy_hist ?s)"
      using signed by (auto simp: signed_for_def)
    have "hist_ok cr w (EvSigned (ws_seq rv) digest sig)" using hist ev by (auto simp: hist_inv_def)
    then have "recordIsOurs cr (sy_pub ?s) (ws_desired rv) sig" using digest by (simp add: recordIsOurs_def)
    moreover have "ws_desired rv \<in> w_wanted w" using want pc by (auto simp: wanted_inv_def)
    ultimately have "wanted_by cr w wid (ws_key rv) sig" using rv by (auto simp: wanted_by_def rev_ok_def)
    with e ans pc r show ?thesis by auto
  qed (use e ans in auto)
qed

lemma pool_after_known:
  assumes inv: "hist_inv cr w" and wf: "wf_inv (w_sys w)" and pool: "pool_after (sy_pc (w_sys w)) r (w_pool w) pool'"
    and tx: "tx \<in> pool'"
  shows "known (sy_hist (w_sys w)) tx"
proof (cases "tx \<in> w_pool w")
  case True
  with inv show ?thesis by (rule hist_invD)
next
  case False
  with tx pool obtain wid rv where "sy_pc (w_sys w) = PSend wid rv tx"
    by (cases "(sy_pc (w_sys w), r, w_pool w, pool')" rule: pool_after.cases) auto
  with wf have "prepared_for (sy_hist (w_sys w)) wid rv tx" by (simp add: wf_inv_def)
  then show ?thesis unfolding prepared_for_def known_def by blast
qed

lemma hist_inv_step:
  assumes step: "world_step cr me w w'" and inv: "hist_inv cr w"
    and others: "wf_inv (w_sys w)" "wanted_inv w" "log_inv w"
  shows "hist_inv cr w'"
proof (rule hist_invI [OF world_step_grows [OF step]])
  show "hist_ok cr w e" if "e \<in> set (sy_hist (w_sys w'))" for e
    using step
  proof (cases rule: world_step.cases)
    case (call r p' pc' res pool')
    with that have "e \<in> set (event_of (sy_pc (w_sys w)) r) \<or> e \<in> set (sy_hist (w_sys w))" by simp
    then show ?thesis using new_event_ok [OF others(1) inv others(2,3) call(2,3)] hist_invD(1) [OF inv] by blast
  qed (use that hist_invD(1) [OF inv] in simp_all)
  show "known (sy_hist (w_sys w)) tx" if "tx \<in> w_pool w' \<or> tx \<in> fst ` set (w_mined w')" for tx
    using step
  proof (cases rule: world_step.cases)
    case (call r p' pc' res pool')
    with that show ?thesis using pool_after_known [OF inv others(1) call(4)] hist_invD(3) [OF inv] by auto
  next
    case (mine u ok ts)
    with that have "tx \<in> w_pool w \<or> tx \<in> fst ` set (w_mined w)" by auto
    then show ?thesis using hist_invD(2,3) [OF inv] by blast
  next
    case (drop u)
    with that have "tx \<in> w_pool w \<or> tx \<in> fst ` set (w_mined w)" by auto
    then show ?thesis using hist_invD(2,3) [OF inv] by blast
  qed (use that hist_invD(2,3) [OF inv] in auto)
qed

lemma world_inv_reach:
  assumes "world_reach cr me p0 r w" "fresh_publisher p0" "deploy_v2 owner = Some r"
  shows "wanted_inv w \<and> hist_inv cr w"
  using assms
proof (induction rule: world_reach.induct)
  case init
  then show ?case by (simp add: wanted_inv_def hist_inv_def world_init_def fresh_publisher_def)
next
  case (step w w')
  then show ?case
    using hist_inv_step [OF step.hyps(2)] wanted_inv_step [OF step.hyps(2)] world_invs(1) [OF step.hyps(1)]
      log_inv_reach [OF step.hyps(1)]
    by blast
qed

subsection \<open>A reverted transaction is never touched again\<close>

fun pc_tx :: "'tx pc \<Rightarrow> 'tx option" where
  "pc_tx (PLatest wid rv) = ws_prepared rv"
| "pc_tx (PStore wid rv sig tx) = Some tx"
| "pc_tx (PSend wid rv tx) = Some tx"
| "pc_tx (PWait wid rv tx) = Some tx"
| "pc_tx (PReconcile wid rv tx) = Some tx"
| "pc_tx pc = None"

definition spent :: "'tx event list \<Rightarrow> 'tx set" where
  "spent h = {tx. \<exists>n. EvReverted n tx \<in> set h}"

definition put_away :: "'tx pc \<Rightarrow> (hash32 \<rightharpoonup> 'tx workload_state) \<Rightarrow> 'tx \<Rightarrow> bool" where
  "put_away pc m tx \<longleftrightarrow>
     pc_tx pc \<noteq> Some tx
     \<and> (\<forall>wid st. m wid = Some st \<longrightarrow> ws_prepared st = Some tx \<longrightarrow>
          (\<exists>rv. pc = PDiscard wid rv tx \<and> ws_seq rv = ws_seq st))"

definition unstored :: "(hash32 \<rightharpoonup> 'tx workload_state) \<Rightarrow> 'tx \<Rightarrow> bool" where
  "unstored m tx \<longleftrightarrow> (\<forall>wid st. m wid = Some st \<longrightarrow> ws_prepared st \<noteq> Some tx)"

lemma put_away_unstored:
  "put_away pc m tx \<Longrightarrow> (\<And>wid rv. pc \<noteq> PDiscard wid rv tx) \<Longrightarrow> unstored m tx"
  "pc_tx pc \<noteq> Some tx \<Longrightarrow> unstored m tx \<Longrightarrow> put_away pc m tx"
  by (auto simp: put_away_def unstored_def)

lemma unstored_sections:
  "unstored (pv_state p) tx \<Longrightarrow> tx' \<noteq> tx \<Longrightarrow> unstored (pv_state (storeAttempt p wid rv sig tx')) tx"
  "unstored (pv_state p) tx \<Longrightarrow> unstored (pv_state (fst (confirm p wid rv))) tx"
  by (auto simp: unstored_def storeAttempt_state confirm_state split: if_splits)

lemma put_away_discard:
  assumes "put_away (PDiscard wid rv tx') (pv_state p) tx"
  shows "unstored (pv_state (discardAttempt p wid (ws_seq rv))) tx"
  unfolding unstored_def
proof (intro allI impI notI)
  fix w st
  assume st: "pv_state (discardAttempt p wid (ws_seq rv)) w = Some st" and tx: "ws_prepared st = Some tx"
  have "pv_state p w = Some st \<and> (w = wid \<longrightarrow> ws_seq st \<noteq> ws_seq rv)"
  proof (cases "w = wid \<and> map_option ws_seq (pv_state p wid) = Some (ws_seq rv)")
    case True
    then obtain st0 where "pv_state p wid = Some st0" "ws_seq st0 = ws_seq rv" by auto
    with True st have "st = st0\<lparr>ws_prepared := None\<rparr>" by (simp add: discardAttempt_state)
    with tx show ?thesis by simp
  next
    case False
    with st show ?thesis by (auto simp: discardAttempt_state split: if_splits)
  qed
  with assms tx show False by (auto simp: put_away_def)
qed

text \<open>A step of the worker keeps a transaction put away.\<close>

lemma put_away_resume:
  assumes res: "resume cr p pc r = Some (p', pc', res)" and away: "put_away pc (pv_state p) tx"
    and fresh: "\<And>wid rv sig tx'. pc = PPrepare wid rv sig \<Longrightarrow> r = RPrepare (Inr tx') \<Longrightarrow> tx' \<noteq> tx"
  shows "put_away pc' (pv_state p') tx"
proof -
  have own: "pc_tx pc \<noteq> Some tx" using away by (simp add: put_away_def)
  note un = put_away_unstored(1) [OF away]
  from res show ?thesis
  proof (cases rule: resume_elim)
    case (stop wid rv)
    then have "\<And>w rv'. pc \<noteq> PDiscard w rv' tx" by (cases pc) auto
    with stop un show ?thesis by (intro put_away_unstored(2)) simp_all
  next
    case (found wid rv oc)
    then have "\<And>w rv'. pc \<noteq> PDiscard w rv' tx" by (cases pc) auto
    with found un show ?thesis by (intro put_away_unstored(2)) simp_all
  next
    case (prepare wid rv sig tx')
    moreover have "r = RPrepare (Inr tx')" using res prepare by (cases r) (auto split: sum.splits)
    ultimately show ?thesis using un fresh by (intro put_away_unstored(2)) simp_all
  next
    case (store wid rv sig tx')
    with un own show ?thesis by (intro put_away_unstored(2)) (simp_all add: unstored_sections)
  next
    case (confirm wid rv)
    with un show ?thesis by (intro put_away_unstored(2)) (simp_all add: unstored_sections)
  next
    case (discard wid rv tx')
    with put_away_discard away show ?thesis by (intro put_away_unstored(2)) simp_all
  qed (use un own in \<open>intro put_away_unstored(2); simp\<close>)+
qed

lemma put_away_enqueue:
  assumes "Enqueue p d = Inr (p', calls)" "put_away pc (pv_state p) tx"
  shows "put_away pc (pv_state p') tx"
  using assms(1)
proof (cases rule: Enqueue_cases)
  case (newer wid)
  then show ?thesis using assms(2) by (auto simp: put_away_def new_revision_def)
qed (use assms(2) in simp)

lemma put_away_start:
  "put_away PIdle (pv_state p) tx \<Longrightarrow> put_away (fst (beginProcess p wid)) (pv_state p) tx"
  by (auto simp: put_away_def beginProcess_def snapshot_def split: option.splits if_splits)

text \<open>When the worker learns of a revert, it is the only one that holds the transaction.\<close>

lemma put_away_reverted:
  assumes wf: "wf_inv (w_sys w)" and bal: "bal_inv (w_sys w)" and hist: "hist_inv cr w"
    and pc: "sy_pc (w_sys w) = PWait wid rv tx"
  shows "put_away (PDiscard wid rv tx) (pv_state (sy_pub (w_sys w))) tx"
proof -
  let ?h = "sy_hist (w_sys w)"
  have args: "p2_workloadId (tx_args tx) = u" if "prepared_for ?h u st tx" for u st
    using that hist_invD(1) [OF hist] by (fastforce simp: prepared_for_def publish_args_for_def)
  have wid: "p2_workloadId (tx_args tx) = wid" using wf pc by (intro args) (auto simp: wf_inv_def)
  have "u = wid \<and> ws_seq st = ws_seq rv"
    if st: "pv_state (sy_pub (w_sys w)) u = Some st" "ws_prepared st = Some tx" for u st
  proof -
    have "prepared_for ?h u st tx" using wf st by (auto simp: wf_inv_def rev_ok_def)
    then have u: "u = wid" using args wid by simp
    with bal_invD(4) [OF bal st(1)] st(2) pc show ?thesis by (auto simp: stored_ok_def split: if_splits)
  qed
  then show ?thesis by (auto simp: put_away_def)
qed

definition once_inv :: "'key world \<Rightarrow> bool" where
  "once_inv w \<longleftrightarrow>
     (\<forall>tx \<in> spent (sy_hist (w_sys w)). put_away (sy_pc (w_sys w)) (pv_state (sy_pub (w_sys w))) tx)
     \<and> (\<forall>n. card {tx. EvReverted n tx \<in> set (sy_hist (w_sys w))} = revs n (sy_hist (w_sys w)))"

lemma finite_events: "finite {tx. EvReverted n tx \<in> set h}" "finite {tx. \<exists>wid k sig. EvPrepared n wid k sig tx \<in> set h}"
proof -
  have "{tx. EvReverted n tx \<in> set h} \<subseteq> (\<lambda>e. case e of EvReverted m tx \<Rightarrow> tx | _ \<Rightarrow> undefined) ` set h" by force
  then show "finite {tx. EvReverted n tx \<in> set h}" by (rule finite_subset) simp
  have "{tx. \<exists>wid k sig. EvPrepared n wid k sig tx \<in> set h}
      \<subseteq> (\<lambda>e. case e of EvPrepared m wid k sig tx \<Rightarrow> tx | _ \<Rightarrow> undefined) ` set h" by force
  then show "finite {tx. \<exists>wid k sig. EvPrepared n wid k sig tx \<in> set h}" by (rule finite_subset) simp
qed

lemma spent_mined: "hist_inv cr w \<Longrightarrow> tx \<in> spent (sy_hist (w_sys w)) \<Longrightarrow> (tx, False) \<in> set (w_mined w)"
  using hist_invD(1) by (fastforce simp: spent_def)

text \<open>Either a step brings no news of a revert, or it brings the first news of one.\<close>

lemma resume_revert_news:
  assumes "resume cr p pc r = Some (p', pc', res)"
  obtains (none) "\<And>n tx. EvReverted n tx \<notin> set (event_of pc r)"
  | (news) wid rv tx where "pc = PWait wid rv tx" "pc' = PDiscard wid rv tx" "p' = p"
      "event_of pc r = [EvReverted (ws_seq rv) tx]"
  using assms by (cases rule: resume_elim) (auto simp: quiet_def intro: that)

lemma revs_none: "(\<And>tx. EvReverted n tx \<notin> set es) \<Longrightarrow> revs n es = 0"
proof (induction es)
  case (Cons e es)
  have "\<not> is_reverted n e" using Cons.prems by (cases e) auto
  with Cons show ?case by simp
qed simp

lemma once_inv_call:
  assumes inv: "once_inv w" and invs: "wf_inv (w_sys w)" "bal_inv (w_sys w)" "hist_inv cr w"
    and log: "log_inv w" and res: "resume cr (sy_pub (w_sys w)) (sy_pc (w_sys w)) r = Some (p', pc', res)"
    and ans: "can_answer cr w (sy_pc (w_sys w)) r"
    and w': "w_sys w' = \<lparr>sy_pub = p', sy_pc = pc', sy_hist = event_of (sy_pc (w_sys w)) r @ sy_hist (w_sys w)\<rparr>"
  shows "once_inv w'"
proof -
  let ?h = "sy_hist (w_sys w)" and ?pc = "sy_pc (w_sys w)"
  have away: "put_away pc' (pv_state p') tx" if "tx \<in> spent ?h" for tx
  proof (rule put_away_resume [OF res])
    show "put_away ?pc (pv_state (sy_pub (w_sys w))) tx" using inv that by (simp add: once_inv_def)
    have "tx \<in> fst ` set (w_mined w)" using spent_mined [OF invs(3) that] by force
    then have "tx_nonce tx < length (w_mined w)" by (rule mined_nonce [OF log])
    then show "tx' \<noteq> tx" if "?pc = PPrepare wid rv sig" "r = RPrepare (Inr tx')" for wid rv sig tx'
      using ans that by auto
  qed
  have cards: "card {tx. EvReverted n tx \<in> set ?h} = revs n ?h" for n using inv by (simp add: once_inv_def)
  from res show ?thesis
  proof (cases rule: resume_revert_news)
    case none
    then have "spent (sy_hist (w_sys w')) = spent ?h" "\<And>n. revs n (sy_hist (w_sys w')) = revs n ?h"
      "\<And>n. {tx. EvReverted n tx \<in> set (sy_hist (w_sys w'))} = {tx. EvReverted n tx \<in> set ?h}"
      by (auto simp: w' spent_def revs_none)
    with away cards show ?thesis by (simp add: once_inv_def w')
  next
    case (news wid rv tx)
    have new: "tx \<notin> spent ?h" using inv news(1) by (auto simp: once_inv_def put_away_def)
    have "spent (sy_hist (w_sys w')) = insert tx (spent ?h)" by (auto simp: w' news(4) spent_def)
    moreover have "put_away pc' (pv_state p') tx"
      using put_away_reverted [OF invs news(1)] news(2,3) by simp
    moreover have "card {u. EvReverted n u \<in> set (sy_hist (w_sys w'))} = revs n (sy_hist (w_sys w'))" for n
    proof (cases "n = ws_seq rv")
      case True
      then have "{u. EvReverted n u \<in> set (sy_hist (w_sys w'))} = insert tx {u. EvReverted n u \<in> set ?h}"
        by (auto simp: w' news(4))
      moreover have "tx \<notin> {u. EvReverted n u \<in> set ?h}" using new by (auto simp: spent_def)
      moreover have "revs n (sy_hist (w_sys w')) = Suc (revs n ?h)" using True by (simp add: w' news(4))
      ultimately show ?thesis using cards [of n] finite_events(1) [of n ?h] by (simp del: mem_Collect_eq)
    next
      case False
      then show ?thesis using cards by (simp add: w' news(4))
    qed
    ultimately show ?thesis using away by (simp add: once_inv_def w')
  qed
qed

lemma once_inv_step:
  assumes step: "world_step cr me w w'" and inv: "once_inv w"
    and invs: "wf_inv (w_sys w)" "bal_inv (w_sys w)" "hist_inv cr w" and log: "log_inv w"
  shows "once_inv w'"
  using step
proof (cases rule: world_step.cases)
  case (enqueue d p' calls)
  with inv put_away_enqueue [OF enqueue(2)] show ?thesis by (simp add: once_inv_def)
next
  case (start wid)
  have "put_away (fst (beginProcess (sy_pub (w_sys w)) wid)) (pv_state (sy_pub (w_sys w))) tx"
    if "tx \<in> spent (sy_hist (w_sys w))" for tx
    using inv that start(2) by (intro put_away_start) (simp add: once_inv_def)
  with inv start show ?thesis by (simp add: once_inv_def)
next
  case (call r p' pc' res pool')
  show ?thesis by (rule once_inv_call [OF inv invs log call(2,3)]) (simp add: call(1))
qed (use inv in \<open>simp_all add: once_inv_def\<close>)

lemma once_inv_reach:
  assumes "world_reach cr me p0 r w" "fresh_publisher p0" "deploy_v2 owner = Some r"
  shows "once_inv w"
  using assms
proof (induction rule: world_reach.induct)
  case init
  then show ?case by (simp add: once_inv_def world_init_def spent_def)
next
  case (step w w')
  then show ?case
    using once_inv_step [OF step.hyps(2)] world_invs(1,2) [OF step.hyps(1)] world_inv_reach [OF step.hyps(1)]
      log_inv_reach [OF step.hyps(1)]
    by blast
qed

subsection \<open>Transactions of a revision\<close>

fun txs_of :: "u64 \<Rightarrow> 'tx event list \<Rightarrow> 'tx list" where
  "txs_of n [] = []"
| "txs_of n (EvPrepared m wid k sig tx # h) = (if m = n then tx # txs_of n h else txs_of n h)"
| "txs_of n (e # h) = txs_of n h"

text \<open>The transactions prepared for a revision that took effect, in the order of the blocks, latest first.\<close>

definition effects :: "u64 \<Rightarrow> 'key world \<Rightarrow> (v2_tx \<times> bool) list" where
  "effects n w = filter (\<lambda>(tx, ok). ok \<and> tx \<in> set (txs_of n (sy_hist (w_sys w)))) (w_mined w)"

lemma txs_of_length: "length (txs_of n h) = preps n h"
  by (induction n h rule: txs_of.induct) simp_all

lemma txs_of_prepared: "EvPrepared n wid k sig tx \<in> set h \<Longrightarrow> tx \<in> set (txs_of n h)"
  by (induction n h rule: txs_of.induct) auto

lemma txs_of_iff: "tx \<in> set (txs_of n h) \<longleftrightarrow> (\<exists>wid k sig. EvPrepared n wid k sig tx \<in> set h)"
proof
  assume "tx \<in> set (txs_of n h)"
  then show "\<exists>wid k sig. EvPrepared n wid k sig tx \<in> set h"
    by (induction n h rule: txs_of.induct) (auto split: if_splits)
qed (auto intro: txs_of_prepared)

lemma txs_of_append: "txs_of n (es @ h) = txs_of n es @ txs_of n h"
  by (induction n es rule: txs_of.induct) auto

text \<open>Only a transaction of the revision is ever reported reverted for it.\<close>

lemma reverted_prepared:
  assumes "world_reach cr me p0 r w" "fresh_publisher p0" "EvReverted n tx \<in> set (sy_hist (w_sys w))"
  shows "tx \<in> set (txs_of n (sy_hist (w_sys w)))"
  using assms
proof (induction arbitrary: n tx rule: world_reach.induct)
  case init
  then show ?case by (simp add: world_init_def)
next
  case (step w w')
  have wf: "wf_inv (w_sys w)" using step.hyps(1) step.prems(1) by (rule world_invs)
  from step.hyps(2) show ?case
  proof (cases rule: world_step.cases)
    case (call a p' pc' res pool')
    have "tx \<in> set (txs_of n (sy_hist (w_sys w)))"
    proof (cases "EvReverted n tx \<in> set (sy_hist (w_sys w))")
      case True
      with step.IH step.prems(1) show ?thesis by blast
    next
      case False
      with step.prems(2) have ev: "EvReverted n tx \<in> set (event_of (sy_pc (w_sys w)) a)" by (simp add: call(1))
      from call(2) ev obtain wid rv where pc: "sy_pc (w_sys w) = PWait wid rv tx" and n: "n = ws_seq rv"
        by (cases rule: resume_revert_news) auto
      have "prepared_for (sy_hist (w_sys w)) wid rv tx" using wf pc by (simp add: wf_inv_def)
      then show ?thesis unfolding prepared_for_def n using txs_of_prepared by metis
    qed
    then show ?thesis by (simp add: call(1) txs_of_append)
  qed (use step.IH step.prems in simp_all)
qed

lemma mined_once:
  assumes "log_inv w" "(tx, True) \<in> set (w_mined w)"
  shows "(tx, False) \<notin> set (w_mined w)"
  using nonces_distinct [OF assms(1)] assms(2)
    inj_onD [of "tx_nonce \<circ> fst" "set (w_mined w)" "(tx, True)" "(tx, False)"]
  by (auto simp: distinct_map)

lemma effects_distinct: "log_inv w \<Longrightarrow> distinct (map fst (effects n w))"
  using nonces_distinct [of w] unfolding effects_def distinct_map
  by (auto simp: inj_on_def distinct_filter)

text \<open>The transactions of a revision that were not reverted: one at most.\<close>

definition live :: "u64 \<Rightarrow> 'tx event list \<Rightarrow> 'tx set" where
  "live n h = set (txs_of n h) - {tx. EvReverted n tx \<in> set h}"

lemma live_card:
  assumes "world_reach cr me p0 r w" "fresh_publisher p0" "deploy_v2 owner = Some r"
  shows "card (live n (sy_hist (w_sys w))) + revs n (sy_hist (w_sys w)) \<le> preps n (sy_hist (w_sys w))"
    "card (live n (sy_hist (w_sys w))) \<le> 1"
proof -
  let ?h = "sy_hist (w_sys w)" and ?R = "{tx. EvReverted n tx \<in> set (sy_hist (w_sys w))}"
  have sub: "?R \<subseteq> set (txs_of n ?h)" using reverted_prepared [OF assms(1,2)] by auto
  have R: "card ?R = revs n ?h" using once_inv_reach [OF assms] by (simp add: once_inv_def)
  have "card (live n ?h) = card (set (txs_of n ?h)) - card ?R"
    unfolding live_def by (rule card_Diff_subset [OF finite_events(1) sub])
  moreover have "card ?R \<le> card (set (txs_of n ?h))" by (rule card_mono [OF finite_set sub])
  moreover have "card (set (txs_of n ?h)) \<le> preps n ?h" using card_length [of "txs_of n ?h"] by (simp add: txs_of_length)
  ultimately show "card (live n ?h) + revs n ?h \<le> preps n ?h" using R by simp
  then show "card (live n ?h) \<le> 1" using bal_invD(1) [OF world_invs(2) [OF assms(1,2)], of n] by simp
qed

lemma live_alone:
  assumes "world_reach cr me p0 r w" "fresh_publisher p0" "deploy_v2 owner = Some r" "tx \<in> live n (sy_hist (w_sys w))"
  shows "live n (sy_hist (w_sys w)) = {tx}"
proof -
  have "finite (live n (sy_hist (w_sys w)))" by (simp add: live_def)
  then show ?thesis using live_card(2) [OF assms(1-3), of n] assms(4) by (auto simp: card_le_Suc0_iff_eq)
qed

lemma effects_live:
  assumes "log_inv w" "hist_inv cr w"
  shows "fst ` set (effects n w) \<subseteq> live n (sy_hist (w_sys w))"
  using mined_once [OF assms(1)] hist_invD(1) [OF assms(2)] by (fastforce simp: effects_def live_def)

text \<open>An event of the registry's log is a revision somebody asked for, signed.\<close>

definition vouched :: "('pub, 'key) crypto \<Rightarrow> 'key world \<Rightarrow> published_event_v2 \<Rightarrow> desired \<Rightarrow> bool" where
  "vouched cr w ev d \<longleftrightarrow>
     WorkloadID (ds_Identity d) = Inr (ev2_workloadId ev) \<and> event_key ev = revisionKey (sy_pub (w_sys w)) d
     \<and> recordIsOurs cr (sy_pub (w_sys w)) d (ev2_signature ev)"

lemma event_v2_fields:
  "tx_args tx = publish_args_for wid k sig \<Longrightarrow>
     ev2_workloadId (event_v2 ts (tx_args tx)) = wid \<and> event_key (event_v2 ts (tx_args tx)) = k
     \<and> ev2_signature (event_v2 ts (tx_args tx)) = sig"
  by (simp add: event_v2_def event_key_def publish_args_for_def)

lemma log_vouched:
  assumes hist: "hist_inv cr w" and log: "log_inv w" and ev: "ev \<in> set (r2_events (w_registry w))"
  shows "\<exists>d \<in> w_wanted w. vouched cr w ev d"
proof -
  obtain tx ts where tx: "(tx, True) \<in> set (w_mined w)" and ev': "ev = event_v2 ts (tx_args tx)"
    using log ev by (auto simp: log_inv_def wrote_def)
  have "tx \<in> fst ` set (w_mined w)" using tx by force
  then obtain n wid k sig where "EvPrepared n wid k sig tx \<in> set (sy_hist (w_sys w))"
    using hist_invD(3) [OF hist] unfolding known_def by blast
  then have "hist_ok cr w (EvPrepared n wid k sig tx)" by (rule hist_invD(1) [OF hist])
  then show ?thesis using event_v2_fields [of tx wid k sig ts] by (auto simp: wanted_by_def vouched_def ev')
qed

lemma evidence_in_log:
  assumes hist: "hist_inv cr w" and log: "log_inv w" and ev: "evidence cr (sy_pub (w_sys w)) (sy_hist (w_sys w)) wid k"
  shows "\<exists>ev \<in> set (r2_events (w_registry w)). ev2_workloadId ev = wid \<and> event_key ev = k"
  using ev unfolding evidence_def
proof (elim disjE)
  assume "record_evidence cr (sy_pub (w_sys w)) (sy_hist (w_sys w)) wid k"
  then obtain oc where oc: "EvLatest wid oc \<in> set (sy_hist (w_sys w))" "oc_Exists oc" "oc_Key oc = k"
    unfolding record_evidence_def by blast
  from hist_invD(1) [OF hist oc(1)] oc(2,3) show ?thesis by auto
next
  assume "mined_evidence (sy_pub (w_sys w)) (sy_hist (w_sys w)) wid k"
  then obtain n sig tx where prep: "EvPrepared n wid k sig tx \<in> set (sy_hist (w_sys w))"
    and mined: "EvMined n tx \<in> set (sy_hist (w_sys w))"
    unfolding mined_evidence_def by blast
  have args: "tx_args tx = publish_args_for wid k sig" using hist_invD(1) [OF hist prep] by simp
  have "(tx, True) \<in> set (w_mined w)" using hist_invD(1) [OF hist mined] by simp
  then obtain ts where "event_v2 ts (tx_args tx) \<in> set (r2_events (w_registry w))"
    using log by (auto simp: log_inv_def in_log_def)
  with event_v2_fields [OF args, of ts] show ?thesis by blast
qed

subsection \<open>A concrete run\<close>

datatype world_action = WEnqueue desired | WStart hash32 | WCall "v2_tx response" "v2_tx set" | WMine v2_tx u64

fun world_do :: "('pub, 'key) crypto \<Rightarrow> address \<Rightarrow> 'key world \<Rightarrow> world_action \<Rightarrow> 'key world option" where
  "world_do cr me w (WEnqueue d) =
     (case Enqueue (sy_pub (w_sys w)) d of
        Inl err \<Rightarrow> None
      | Inr (p', calls) \<Rightarrow>
          if pv_seq (sy_pub (w_sys w)) + 1 = 0 then None
          else Some (w\<lparr>w_sys := (w_sys w)\<lparr>sy_pub := p'\<rparr>, w_wanted := insert d (w_wanted w)\<rparr>))"
| "world_do cr me w (WStart wid) =
     (if sy_pc (w_sys w) = PIdle then Some (w\<lparr>w_sys := (w_sys w)\<lparr>sy_pc := fst (beginProcess (sy_pub (w_sys w)) wid)\<rparr>\<rparr>) else None)"
| "world_do cr me w (WCall r pool') =
     (case resume cr (sy_pub (w_sys w)) (sy_pc (w_sys w)) r of
        None \<Rightarrow> None
      | Some (p', pc', res) \<Rightarrow>
          if can_answer cr w (sy_pc (w_sys w)) r \<and> pool_after (sy_pc (w_sys w)) r (w_pool w) pool'
          then Some (w\<lparr>w_sys := \<lparr>sy_pub = p', sy_pc = pc', sy_hist = event_of (sy_pc (w_sys w)) r @ sy_hist (w_sys w)\<rparr>,
                       w_pool := pool'\<rparr>)
          else None)"
| "world_do cr me w (WMine tx ts) =
     (if tx \<in> w_pool w \<and> tx_nonce tx = length (w_mined w)
      then Some (w\<lparr>w_registry := transact publish_v2 (w_registry w) (ts, me, tx_args tx), w_pool := w_pool w - {tx},
                   w_mined := (tx, takes_effect (w_registry w) me (tx_args tx)) # w_mined w\<rparr>)
      else None)"

lemma mine_step:
  assumes "tx \<in> w_pool w" "tx_nonce tx = length (w_mined w)"
  shows "world_step cr me w
    (w\<lparr>w_registry := transact publish_v2 (w_registry w) (ts, me, tx_args tx), w_pool := w_pool w - {tx},
       w_mined := (tx, takes_effect (w_registry w) me (tx_args tx)) # w_mined w\<rparr>)"
proof -
  have "(if takes_effect (w_registry w) me (tx_args tx) then transact publish_v2 (w_registry w) (ts, me, tx_args tx) else w_registry w)
      = transact publish_v2 (w_registry w) (ts, me, tx_args tx)"
    using reg2.transact_refused [of "w_registry w" ts me "tx_args tx"] by (auto simp: takes_effect_def accepted_def)
  with world_step.mine [OF assms, of "takes_effect (w_registry w) me (tx_args tx)" me cr ts] show ?thesis by simp
qed

lemma world_do_step: "world_do cr me w a = Some w' \<Longrightarrow> world_step cr me w w'"
  by (cases a) (auto intro: world_step.intros mine_step split: sum.splits option.splits if_splits prod.splits)

fun world_exec :: "('pub, 'key) crypto \<Rightarrow> address \<Rightarrow> 'key world \<Rightarrow> world_action list \<Rightarrow> 'key world option" where
  "world_exec cr me w [] = Some w"
| "world_exec cr me w (a # as) =
     (case world_do cr me w a of None \<Rightarrow> None | Some w' \<Rightarrow> world_exec cr me w' as)"

lemma world_exec_reach: "world_reach cr me p0 r w \<Longrightarrow> world_exec cr me w as = Some w' \<Longrightarrow> world_reach cr me p0 r w'"
  by (induction cr me w as rule: world_exec.induct)
    (auto intro: world_reach.step world_do_step split: option.splits)

text \<open>One revision of one Deployment, published by the account the registry was deployed for.\<close>

definition world_pub0 :: "(unit, v2_tx) publisher_v2" where
  "world_pub0 = \<lparr>pv_fingerprint = 9, pv_pub = (), pv_state = Map.empty, pv_seq = 0\<rparr>"

definition web_registry :: registry_v2 where
  "web_registry = the (deploy_v2 1)"

definition web_tx :: v2_tx where
  "web_tx = \<lparr>tx_nonce = 0, tx_args = publish_args_for web_id (revisionKey world_pub0 (web_desired 7)) ''sig''\<rparr>"

definition world_run :: "world_action list" where
  "world_run =
     [WEnqueue (web_desired 7), WStart web_id, WCall (RLatest (Inr (registry_latest web_registry web_id))) {},
      WCall (RSign (Inr ''sig'')) {}, WCall (RPrepare (Inr web_tx)) {}, WCall RLocked {},
      WCall (RSend (Inr SendUnknown)) {web_tx}, WMine web_tx 100, WCall (RWait (Inr WaitMinedSuccess)) {}, WCall RLocked {}]"

definition published_world :: "unit world" where
  "published_world = the (world_exec accept_all 1 (world_init world_pub0 web_registry) world_run)"

lemma web_deployed: "deploy_v2 1 = Some web_registry" "fresh_publisher world_pub0"
  by (simp_all add: web_registry_def deploy_v2_def fresh_publisher_def world_pub0_def)

lemma web_unpublished: "\<not> oc_Exists (registry_latest web_registry web_id)"
  by (simp add: registry_latest_def LatestAttestationV2_reads view_v2_def read_v2_def getLatest_v2_def web_registry_def
      deploy_v2_def zero_attestation_v2_def)

lemma web_takes_effect: "takes_effect web_registry 1 (tx_args web_tx)"
  by (simp add: takes_effect_def web_registry_def deploy_v2_def admissible_v2_def web_tx_def publish_args_for_def
      revisionKey_def web_desired_def V2_def)

lemma world_run_exec:
  "world_exec accept_all 1 (world_init world_pub0 web_registry) world_run = Some published_world"
  "w_mined published_world = [(web_tx, True)]"
  "w_registry published_world = transact publish_v2 web_registry (100, 1, tx_args web_tx)"
  "EvPrepared 1 web_id (revisionKey world_pub0 (web_desired 7)) ''sig'' web_tx \<in> set (sy_hist (w_sys published_world))"
  "\<exists>st. pv_state (sy_pub (w_sys published_world)) web_id = Some st
     \<and> ws_confirmed st = Some (revisionKey world_pub0 (web_desired 7))"
  "\<exists>st. pv_state (sy_pub (w_sys published_world)) web_id = Some st \<and> ws_confirmed st = Some (ws_key st)"
  using web_digest [of 7] web_unpublished web_takes_effect unfolding published_world_def
  by (auto simp: world_run_def world_init_def world_pub0_def publisher_eval revisionKey_def accept_all_def
      VerifyConfigHashSignature_def web_tx_def)

lemma published_world_reach: "world_reach accept_all 1 world_pub0 web_registry published_world"
  using world_exec_reach [OF world_reach.init world_run_exec(1)] .

lemma published_world_log: "r2_events (w_registry published_world) = [event_v2 100 (tx_args web_tx)]"
  using logged_deploy [OF web_deployed(1)] web_takes_effect by (simp add: world_run_exec(3) transact_events)

subsection \<open>What the registry shows\<close>

text \<open>
  C8: a revision is published at most once. However new revisions, runs of the worker, lost acknowledgements,
  timeouts, reverts and retries interleave, and whatever the node drops or delays, of all the transactions
  ever prepared for a revision at most one takes effect on the registry.
\<close>

theorem published_once:
  assumes "world_reach cr me p0 r w" "fresh_publisher p0" "deploy_v2 owner = Some r"
  shows "length (effects n w) \<le> 1"
proof -
  have log: "log_inv w" using assms(1,3) by (rule log_inv_reach)
  have hist: "hist_inv cr w" using world_inv_reach [OF assms] by simp
  have "length (effects n w) = card (fst ` set (effects n w))"
    using distinct_card [OF effects_distinct [OF log, of n]] by simp
  also have "\<dots> \<le> card (live n (sy_hist (w_sys w)))"
    by (rule card_mono) (use effects_live [OF log hist] in \<open>simp_all add: live_def\<close>)
  also have "\<dots> \<le> 1" by (rule live_card(2) [OF assms])
  finally show ?thesis .
qed

theorem published_once_witness: "length (effects 1 published_world) = 1 \<and> length (effects 1 published_world) \<le> 1"
  using published_once [OF published_world_reach web_deployed(2,1), of 1] txs_of_prepared [OF world_run_exec(4)]
  by (simp add: effects_def world_run_exec(2))

text \<open>
  C9: a confirmed revision is on the registry. When the publisher records revision \<open>k\<close> of a workload as
  confirmed, the registry's log has an entry for that workload with exactly that version, hash, incarnation
  and fingerprint, made for a desired state that was enqueued, with a signature that verifies against the
  envelope of that state under the publisher's key.
\<close>

theorem confirmed_on_registry:
  assumes "world_reach cr me p0 r w" "fresh_publisher p0" "deploy_v2 owner = Some r"
    and "pv_state (sy_pub (w_sys w)) wid = Some st" "ws_confirmed st = Some k"
  shows "\<exists>ev \<in> set (r2_events (w_registry w)). ev2_workloadId ev = wid \<and> event_key ev = k
     \<and> (\<exists>d \<in> w_wanted w. vouched cr w ev d)"
proof -
  have log: "log_inv w" using assms(1,3) by (rule log_inv_reach)
  have hist: "hist_inv cr w" using world_inv_reach [OF assms(1-3)] by simp
  have "evidence cr (sy_pub (w_sys w)) (sy_hist (w_sys w)) wid k"
    using world_invs(3) [OF assms(1,2)] assms(4,5) unfolding conf_inv_def by blast
  with evidence_in_log [OF hist log] log_vouched [OF hist log] show ?thesis by metis
qed

theorem confirmed_on_registry_witness:
  "\<exists>ev \<in> set (r2_events (w_registry published_world)). ev2_workloadId ev = web_id
     \<and> event_key ev = revisionKey world_pub0 (web_desired 7)
     \<and> (\<exists>d \<in> w_wanted published_world. vouched accept_all published_world ev d)"
  using world_run_exec(5) confirmed_on_registry [OF published_world_reach web_deployed(2,1)] by blast

text \<open>
  C28: the registry holds nothing but what was asked for and signed. Every entry of its log, whoever else sends it
  transactions, carries the workload id and the revision key of a desired state that was enqueued, and a
  signature that verifies against the envelope of that state under the publisher's key.
\<close>

theorem registry_v2_provenance:
  assumes "world_reach cr me p0 r w" "fresh_publisher p0" "deploy_v2 owner = Some r"
    and "ev \<in> set (r2_events (w_registry w))"
  shows "\<exists>d \<in> w_wanted w. WorkloadID (ds_Identity d) = Inr (ev2_workloadId ev)
     \<and> event_key ev = revisionKey (sy_pub (w_sys w)) d \<and> recordIsOurs cr (sy_pub (w_sys w)) d (ev2_signature ev)"
  using log_vouched [OF conjunct2 [OF world_inv_reach [OF assms(1-3)]] log_inv_reach [OF assms(1,3)] assms(4)]
  unfolding vouched_def .

theorem registry_v2_provenance_witness:
  "\<exists>d \<in> w_wanted published_world. WorkloadID (ds_Identity d) = Inr (ev2_workloadId (event_v2 100 (tx_args web_tx)))
     \<and> event_key (event_v2 100 (tx_args web_tx)) = revisionKey (sy_pub (w_sys published_world)) d
     \<and> recordIsOurs accept_all (sy_pub (w_sys published_world)) d (ev2_signature (event_v2 100 (tx_args web_tx)))"
  by (rule registry_v2_provenance [OF published_world_reach web_deployed(2,1)]) (simp add: published_world_log)

end
