(* ===== verification/Publisher_V2_Stale.thy ===== *)
theory Publisher_V2_Stale
  imports Publisher_V2_World
begin

section \<open>Attempts that outlive their moment\<close>

text \<open>
  What the v2 publisher on the chain of Publisher\_V2\_World does with transactions that are too late or stay too
  long. A prepared transaction is kept until its receipt is seen; when another transaction of the account takes
  its nonce there never is one. A transaction of a superseded revision may still be included; the record it
  leaves is then the latest one.
\<close>

subsection \<open>Transactions whose nonce is gone\<close>

definition nonce_lost :: "'key world \<Rightarrow> v2_tx \<Rightarrow> bool" where
  "nonce_lost w tx \<longleftrightarrow> tx_nonce tx < length (w_mined w) \<and> tx \<notin> fst ` set (w_mined w)"

lemma nonce_lost_step: "world_step cr me w w' \<Longrightarrow> nonce_lost w tx \<Longrightarrow> nonce_lost w' tx"
  by (induction rule: world_step.induct) (auto simp: nonce_lost_def)

lemma steps_reach: "(world_step cr me)\<^sup>*\<^sup>* w w' \<Longrightarrow> world_reach cr me p0 r w \<Longrightarrow> world_reach cr me p0 r w'"
  by (induction rule: rtranclp_induct) (auto intro: world_reach.step)

lemma steps_lost: "(world_step cr me)\<^sup>*\<^sup>* w w' \<Longrightarrow> nonce_lost w tx \<Longrightarrow> nonce_lost w' tx"
  by (induction rule: rtranclp_induct) (auto intro: nonce_lost_step)

lemma steps_hist: "(world_step cr me)\<^sup>*\<^sup>* w w' \<Longrightarrow> set (sy_hist (w_sys w)) \<subseteq> set (sy_hist (w_sys w'))"
proof (induction rule: rtranclp_induct)
  case (step u v)
  then show ?case using world_step_grows [OF step.hyps(2)] by (auto simp: grows_def)
qed simp

lemma steps_txs: "(world_step cr me)\<^sup>*\<^sup>* w w' \<Longrightarrow> tx \<in> set (txs_of n (sy_hist (w_sys w))) \<Longrightarrow> tx \<in> set (txs_of n (sy_hist (w_sys w')))"
  using steps_hist by (fastforce simp: txs_of_iff)

lemma lost_is_live:
  assumes "hist_inv cr w" "nonce_lost w tx" "tx \<in> set (txs_of n (sy_hist (w_sys w)))"
  shows "tx \<in> live n (sy_hist (w_sys w))"
  using hist_invD(1) [OF assms(1), of "EvReverted n tx"] assms(2,3) by (force simp: live_def nonce_lost_def)

text \<open>A revision whose live transaction lost its nonce is never published, and no other is prepared for it.\<close>

lemma lost_no_effect:
  assumes "world_reach cr me p0 r w" "fresh_publisher p0" "deploy_v2 owner = Some r"
    and "nonce_lost w tx" "tx \<in> live n (sy_hist (w_sys w))"
  shows "effects n w = []"
proof -
  have log: "log_inv w" using assms(1,3) by (rule log_inv_reach)
  have hist: "hist_inv cr w" using world_inv_reach [OF assms(1-3)] by simp
  have "x \<notin> set (effects n w)" for x
  proof
    assume x: "x \<in> set (effects n w)"
    then have "fst x = tx" using effects_live [OF log hist, of n] live_alone [OF assms(1-3,5)] by auto
    moreover have "fst x \<in> fst ` set (w_mined w)" using x by (auto simp: effects_def)
    ultimately show False using assms(4) by (simp add: nonce_lost_def)
  qed
  then show ?thesis by (metis list.set_intros(1) neq_Nil_conv)
qed

lemma lost_is_kept:
  assumes "world_reach cr me p0 r w" "fresh_publisher p0" "deploy_v2 owner = Some r"
    and "tx \<in> live n (sy_hist (w_sys w))" "sy_pc (w_sys w) = PIdle"
    and st: "pv_state (sy_pub (w_sys w)) wid = Some st" "ws_seq st = n" "ws_confirmed st \<noteq> Some (ws_key st)"
  shows "ws_prepared st = Some tx"
proof -
  let ?h = "sy_hist (w_sys w)"
  have "settled ?h st" using bal_invD(4) [OF world_invs(2) [OF assms(1,2)] st(1)] assms(5) by (simp add: stored_ok_def)
  moreover have "revs n ?h < preps n ?h"
    using live_card(1) [OF assms(1-3), of n] live_alone [OF assms(1-4)] by simp
  ultimately obtain u where u: "ws_prepared st = Some u" using st by (auto simp: settled_def)
  then have "prepared_for ?h wid st u" using world_invs(1) [OF assms(1,2)] st(1) by (auto simp: wf_inv_def rev_ok_def)
  then have "u \<in> set (txs_of n ?h)" using st(2) by (auto simp: prepared_for_def txs_of_iff)
  moreover have "EvReverted n u \<notin> set ?h"
    using once_inv_reach [OF assms(1-3)] u st(1) assms(5) by (auto simp: once_inv_def spent_def put_away_def)
  ultimately show ?thesis using live_alone [OF assms(1-4)] u by (auto simp: live_def)
qed

subsection \<open>The current record\<close>

text \<open>Nothing is prepared for a revision that does not exist yet, and a revision has one key.\<close>

definition dated :: "('key, 'tx) publisher_v2 \<Rightarrow> u64 \<Rightarrow> hash32 \<Rightarrow> revision_key \<Rightarrow> bool" where
  "dated p n wid k \<longleftrightarrow>
     (\<exists>st. pv_state p wid = Some st \<and> unat n \<le> unat (ws_seq st) \<and> (n = ws_seq st \<longrightarrow> k = ws_key st))"

definition order_inv :: "('key, 'tx) sys \<Rightarrow> bool" where
  "order_inv s \<longleftrightarrow> (\<forall>n wid k sig tx. EvPrepared n wid k sig tx \<in> set (sy_hist s) \<longrightarrow> dated (sy_pub s) n wid k)"

lemma order_invD: "order_inv s \<Longrightarrow> EvPrepared n wid k sig tx \<in> set (sy_hist s) \<Longrightarrow> dated (sy_pub s) n wid k"
  unfolding order_inv_def by blast

lemma dated_enqueue:
  assumes "Enqueue p d = Inr (p', calls)" "pv_seq p + 1 \<noteq> 0" "dated p n wid k"
    and "\<And>st. pv_state p wid = Some st \<Longrightarrow> unat (ws_seq st) \<le> unat (pv_seq p)"
  shows "dated p' n wid k"
  using assms(1)
proof (cases rule: Enqueue_cases)
  case same
  with assms(3) show ?thesis by simp
next
  case (newer u)
  from assms(3) obtain st where st: "pv_state p wid = Some st" "unat n \<le> unat (ws_seq st)" "n = ws_seq st \<longrightarrow> k = ws_key st"
    unfolding dated_def by blast
  have "unat n < unat (pv_seq p + 1)" using st(2) assms(4) [OF st(1)] u64_Suc [OF assms(2)] by simp
  with st show ?thesis by (auto simp: dated_def newer(2) new_revision_def)
qed

lemma dated_resume:
  assumes "resume cr p pc r = Some (p', pc', res)" "dated p n wid k"
  shows "dated p' n wid k"
  using assms(2) resume_state(2) [OF assms(1)] unfolding dated_def by metis

lemma dated_prepared:
  assumes "wf_inv s" "EvPrepared n wid k sig tx \<in> set (event_of (sy_pc s) r)"
  shows "dated (sy_pub s) n wid k"
proof -
  from assms(2) obtain rv where "sy_pc s = PPrepare wid rv sig" "n = ws_seq rv" "k = ws_key rv"
    by (cases "(sy_pc s, r)" rule: event_of.cases) auto
  with assms(1) show ?thesis by (auto simp: wf_inv_def descends_def dated_def)
qed

lemma order_inv_reach: "reach cr p0 s \<Longrightarrow> fresh_publisher p0 \<Longrightarrow> order_inv s"
proof (induction rule: reach.induct)
  case init
  then show ?case by (simp add: order_inv_def)
next
  case (step s s')
  have wf: "wf_inv s" using step.hyps(1) step.prems by (rule wf_inv_reach)
  have inv: "order_inv s" using step.IH step.prems .
  from step.hyps(2) show ?case
  proof cases
    case (enqueue d p' calls)
    have "unat (ws_seq st) \<le> unat (pv_seq (sy_pub s))" if "pv_state (sy_pub s) wid = Some st" for wid st
      using wf that by (auto simp: wf_inv_def rev_ok_def)
    with dated_enqueue [OF enqueue(2,3)] order_invD [OF inv] show ?thesis by (simp add: order_inv_def enqueue(1))
  next
    case (start wid)
    with inv show ?thesis by (simp add: order_inv_def)
  next
    case (resume r p' pc' res)
    then show ?thesis
      using dated_resume [OF resume(2)] dated_prepared [OF wf] order_invD [OF inv] by (auto simp: order_inv_def)
  qed
qed

lemma last_such:
  "x \<in> set xs \<Longrightarrow> Q x \<Longrightarrow> \<exists>pre y post. xs = pre @ y # post \<and> Q y \<and> (\<forall>z \<in> set post. \<not> Q z)"
  using split_list_last_prop [of xs Q] by blast

lemma last_event_append:
  "ev2_workloadId ev = wid \<Longrightarrow> last_event (pre @ ev # post) wid = last_event (ev # post) wid"
  by (induction post rule: rev_induct) (auto simp: last_event_def)

lemma latest_key:
  assumes "logged r" "last_event (r2_events r) wid = Some ev"
  shows "oc_Exists (registry_latest r wid)" "oc_Key (registry_latest r wid) = event_key ev"
proof -
  have "lookup_v2 r wid = Some (event_entry ev)" using assms by (simp add: logged_def)
  then have "getLatest_v2 r wid = event_entry ev" "a2_exists (event_entry ev)" by (auto simp: lookup_v2_def split: if_splits)
  then show "oc_Exists (registry_latest r wid)" "oc_Key (registry_latest r wid) = event_key ev"
    by (simp_all add: registry_latest_def LatestAttestationV2_reads view_v2_def read_v2_def event_entry_def event_key_def)
qed

text \<open>An entry of the log was written by a transaction prepared for an earlier revision of its workload.\<close>

definition written_for :: "'key world \<Rightarrow> u64 \<Rightarrow> published_event_v2 \<Rightarrow> bool" where
  "written_for w seq ev \<longleftrightarrow>
     (\<exists>n sig tx ts. n < seq \<and> EvPrepared n (ev2_workloadId ev) (event_key ev) sig tx \<in> set (sy_hist (w_sys w))
        \<and> (tx, True) \<in> set (w_mined w) \<and> ev = event_v2 ts (tx_args tx))"

lemma entry_dated:
  assumes "world_reach cr me p0 r w" "fresh_publisher p0" "deploy_v2 owner = Some r"
    and ev: "ev \<in> set (r2_events (w_registry w))" and st: "pv_state (sy_pub (w_sys w)) (ev2_workloadId ev) = Some st"
    and other: "event_key ev \<noteq> ws_key st"
  shows "written_for w (ws_seq st) ev"
proof -
  have log: "log_inv w" using assms(1,3) by (rule log_inv_reach)
  have hist: "hist_inv cr w" using world_inv_reach [OF assms(1-3)] by simp
  obtain tx ts where tx: "(tx, True) \<in> set (w_mined w)" "ev = event_v2 ts (tx_args tx)"
    using log ev by (auto simp: log_inv_def wrote_def)
  have "tx \<in> fst ` set (w_mined w)" using tx(1) by force
  then obtain n u key sig where prep: "EvPrepared n u key sig tx \<in> set (sy_hist (w_sys w))"
    using hist_invD(3) [OF hist] unfolding known_def by blast
  then have "tx_args tx = publish_args_for u key sig" using hist_invD(1) [OF hist prep] by simp
  then have u: "u = ev2_workloadId ev" "key = event_key ev"
    using event_v2_fields [of tx u key sig ts] tx(2) by auto
  have "order_inv (w_sys w)" using world_reach_reach [OF assms(1)] assms(2) by (rule order_inv_reach)
  from order_invD [OF this prep] st other have "n \<le> ws_seq st" "n \<noteq> ws_seq st"
    by (auto simp: dated_def word_le_nat_alt u)
  then have "n < ws_seq st" by simp
  with prep tx show ?thesis unfolding u written_for_def by blast
qed

text \<open>
  C10: what stands in the way of a confirmed revision. When the desired revision of a workload is confirmed, the
  registry's log has an entry of the workload with exactly that revision's key, and every entry of the workload
  after the last such entry was written by a transaction that took effect and had been prepared for a revision
  desired before. The current record is the last of these entries: the confirmed revision itself, or an earlier
  one that came late.
\<close>

theorem confirmed_is_current:
  assumes "world_reach cr me p0 r w" "fresh_publisher p0" "deploy_v2 owner = Some r"
    and "pv_state (sy_pub (w_sys w)) wid = Some st" "ws_confirmed st = Some (ws_key st)"
  shows "\<exists>pre ev post cur. r2_events (w_registry w) = pre @ ev # post
     \<and> ev2_workloadId ev = wid \<and> event_key ev = ws_key st
     \<and> (\<forall>ev' \<in> set post. ev2_workloadId ev' = wid \<longrightarrow>
          (\<exists>n sig tx ts. n < ws_seq st \<and> EvPrepared n wid (event_key ev') sig tx \<in> set (sy_hist (w_sys w))
             \<and> (tx, True) \<in> set (w_mined w) \<and> ev' = event_v2 ts (tx_args tx)))
     \<and> last_event (ev # post) wid = Some cur
     \<and> oc_Exists (registry_latest (w_registry w) wid) \<and> oc_Key (registry_latest (w_registry w) wid) = event_key cur"
proof -
  let ?Q = "\<lambda>ev. ev2_workloadId ev = wid \<and> event_key ev = ws_key st"
  have log: "log_inv w" using assms(1,3) by (rule log_inv_reach)
  have hist: "hist_inv cr w" using world_inv_reach [OF assms(1-3)] by simp
  have "evidence cr (sy_pub (w_sys w)) (sy_hist (w_sys w)) wid (ws_key st)"
    using world_invs(3) [OF assms(1,2)] assms(4,5) unfolding conf_inv_def by blast
  from evidence_in_log [OF hist log this] obtain ev0 where "ev0 \<in> set (r2_events (w_registry w))" "?Q ev0" by blast
  from last_such [where Q = ?Q, OF this] obtain pre ev post where split: "r2_events (w_registry w) = pre @ ev # post"
    and ev: "?Q ev" and later: "\<forall>z \<in> set post. \<not> ?Q z" by blast
  have "written_for w (ws_seq st) ev'" if "ev' \<in> set post" "ev2_workloadId ev' = wid" for ev'
    using later that assms(4) by (intro entry_dated [OF assms(1-3)]) (auto simp: split)
  then have post: "\<forall>ev' \<in> set post. ev2_workloadId ev' = wid \<longrightarrow>
      (\<exists>n sig tx ts. n < ws_seq st \<and> EvPrepared n wid (event_key ev') sig tx \<in> set (sy_hist (w_sys w))
         \<and> (tx, True) \<in> set (w_mined w) \<and> ev' = event_v2 ts (tx_args tx))"
    unfolding written_for_def by blast
  obtain cur where cur: "last_event (ev # post) wid = Some cur"
    using ev by (cases "last_event (ev # post) wid") (auto simp: last_event_def find_None_iff)
  then have "last_event (r2_events (w_registry w)) wid = Some cur"
    using last_event_append [of ev wid pre post] ev by (simp add: split)
  from latest_key [OF _ this] log have "oc_Exists (registry_latest (w_registry w) wid)"
    "oc_Key (registry_latest (w_registry w) wid) = event_key cur" by (simp_all add: log_inv_def)
  with split ev post cur show ?thesis by blast
qed

theorem confirmed_is_current_witness:
  "\<exists>st ev. pv_state (sy_pub (w_sys published_world)) web_id = Some st \<and> ws_confirmed st = Some (ws_key st)
     \<and> r2_events (w_registry published_world) = [ev] \<and> event_key ev = ws_key st
     \<and> oc_Key (registry_latest (w_registry published_world) web_id) = ws_key st"
proof -
  obtain st where st: "pv_state (sy_pub (w_sys published_world)) web_id = Some st" "ws_confirmed st = Some (ws_key st)"
    using world_run_exec(6) by blast
  from confirmed_is_current [OF published_world_reach web_deployed(2,1) st] published_world_log
  show ?thesis using st by (auto simp: Cons_eq_append_conv last_event_def)
qed

subsection \<open>Runs\<close>

text \<open>
  One attempt that stays open: a new revision is enqueued, signed, prepared and sent, no receipt comes in time,
  and the record on the chain is not that revision yet.
\<close>

definition open_attempt :: "registry_v2 \<Rightarrow> hash32 \<Rightarrow> v2_tx set \<Rightarrow> desired \<Rightarrow> bytes \<Rightarrow> v2_tx \<Rightarrow> world_action list" where
  "open_attempt r wid pool d sig tx =
     [WEnqueue d, WStart wid, WCall (RLatest (Inr (registry_latest r wid))) pool, WCall (RSign (Inr sig)) pool,
      WCall (RPrepare (Inr tx)) pool, WCall RLocked pool, WCall (RSend (Inr SendAccepted)) (insert tx pool),
      WCall (RWait (Inr WaitUnknown)) (insert tx pool), WCall (RLatest (Inr (registry_latest r wid))) (insert tx pool)]"

definition opened :: "'key world \<Rightarrow> hash32 \<Rightarrow> desired \<Rightarrow> bytes \<Rightarrow> v2_tx \<Rightarrow> 'key world \<Rightarrow> bool" where
  "opened w wid d sig tx w' \<longleftrightarrow>
     (let p = sy_pub (w_sys w) in
        sy_pub (w_sys w') = p\<lparr>pv_seq := pv_seq p + 1, pv_state := (pv_state p)(wid \<mapsto>
            (new_revision p wid d)\<lparr>ws_signature := Some sig, ws_prepared := Some tx\<rparr>)\<rparr>
        \<and> sy_pc (w_sys w') = PIdle \<and> w_registry w' = w_registry w \<and> w_mined w' = w_mined w
        \<and> w_pool w' = insert tx (w_pool w))"

lemma Enqueue_new:
  assumes "WorkloadID (ds_Identity d) = Inr wid"
    and "st = (case pv_state p wid of Some st \<Rightarrow> st | None \<Rightarrow> zero_workload_state)"
    and "ws_confirmed st \<noteq> Some (revisionKey p d)" "ws_seq st = 0 \<or> ws_key st \<noteq> revisionKey p d"
  shows "Enqueue p d = Inr (p\<lparr>pv_seq := pv_seq p + 1, pv_state := (pv_state p)(wid \<mapsto> new_revision p wid d)\<rparr>, [QAdd wid])"
  using assms by (auto simp: Enqueue_def Let_def new_revision_def split: option.splits)

lemma open_attempt_exec:
  assumes idle: "sy_pc (w_sys w) = PIdle" and wid: "WorkloadID (ds_Identity d) = Inr wid"
    and p: "sy_pub (w_sys w) = p" and st: "st = (case pv_state p wid of Some st \<Rightarrow> st | None \<Rightarrow> zero_workload_state)"
    and fresh: "ws_confirmed st \<noteq> Some (revisionKey p d)" "ws_seq st = 0 \<or> ws_key st \<noteq> revisionKey p d"
    and seq: "pv_seq p + 1 \<noteq> 0" and old: "oc_Key (registry_latest (w_registry w) wid) \<noteq> revisionKey p d"
    and digest: "envelope_SigningDigest (envelopeFor d) = Inr digest"
    and sig: "sig \<noteq> []" "VerifyConfigHashSignature cr (pv_pub p) digest sig"
    and tx: "tx_args tx = publish_args_for wid (revisionKey p d) sig" "length (w_mined w) \<le> tx_nonce tx"
  shows "\<exists>w'. world_exec cr me w (open_attempt (w_registry w) wid (w_pool w) d sig tx) = Some w' \<and> opened w wid d sig tx w'"
proof -
  note enq = Enqueue_new [OF wid st fresh]
  have conf: "ws_confirmed (new_revision p wid d) = ws_confirmed st" by (simp add: new_revision_def st)
  show ?thesis
    using idle p seq old digest sig tx fresh(1)
    by (simp add: open_attempt_def opened_def enq beginProcess_def snapshot_def conf new_revision_def matches_def prepareOnce_def
        storeAttempt_def revisionKey_def Let_def st [symmetric])
qed

text \<open>A revision that is found on the chain: enqueued, read, confirmed.\<close>

definition found_record :: "registry_v2 \<Rightarrow> hash32 \<Rightarrow> v2_tx set \<Rightarrow> desired \<Rightarrow> world_action list" where
  "found_record r wid pool d =
     [WEnqueue d, WStart wid, WCall (RLatest (Inr (registry_latest r wid))) pool, WCall RLocked pool]"

definition found :: "'key world \<Rightarrow> hash32 \<Rightarrow> desired \<Rightarrow> 'key world \<Rightarrow> bool" where
  "found w wid d w' \<longleftrightarrow>
     (let p = sy_pub (w_sys w) in
        sy_pub (w_sys w') = p\<lparr>pv_seq := pv_seq p + 1, pv_state := (pv_state p)(wid \<mapsto>
            (new_revision p wid d)\<lparr>ws_confirmed := Some (revisionKey p d), ws_prepared := None\<rparr>)\<rparr>
        \<and> sy_pc (w_sys w') = PIdle \<and> w_registry w' = w_registry w \<and> w_mined w' = w_mined w \<and> w_pool w' = w_pool w)"

lemma found_record_exec:
  assumes idle: "sy_pc (w_sys w) = PIdle" and wid: "WorkloadID (ds_Identity d) = Inr wid"
    and p: "sy_pub (w_sys w) = p" and st: "st = (case pv_state p wid of Some st \<Rightarrow> st | None \<Rightarrow> zero_workload_state)"
    and fresh: "ws_confirmed st \<noteq> Some (revisionKey p d)" "ws_seq st = 0 \<or> ws_key st \<noteq> revisionKey p d"
    and seq: "pv_seq p + 1 \<noteq> 0"
    and rcd: "registry_latest (w_registry w) wid = \<lparr>oc_Exists = True, oc_Key = revisionKey p d, oc_Signature = sig\<rparr>"
    and ours: "recordIsOurs cr p d sig"
  shows "\<exists>w'. world_exec cr me w (found_record (w_registry w) wid (w_pool w) d) = Some w' \<and> found w wid d w'"
proof -
  note enq = Enqueue_new [OF wid st fresh]
  let ?p = "p\<lparr>pv_seq := pv_seq p + 1, pv_state := (pv_state p)(wid \<mapsto> new_revision p wid d)\<rparr>"
  have ours': "recordIsOurs cr ?p d sig" using ours recordIsOurs_cong [of ?p p cr] by simp
  show ?thesis
    using idle p seq rcd ours' fresh(1)
    by (simp add: found_record_def found_def enq beginProcess_def snapshot_def new_revision_def matches_def confirm_def
        revisionKey_def Let_def st [symmetric])
qed

lemma world_exec_append:
  "world_exec cr me w (xs @ ys) = (case world_exec cr me w xs of None \<Rightarrow> None | Some w' \<Rightarrow> world_exec cr me w' ys)"
  by (induction xs arbitrary: w) (auto split: option.splits)

text \<open>The next transaction of the account is included.\<close>

definition included :: "'key world \<Rightarrow> v2_tx \<Rightarrow> hash32 \<Rightarrow> on_chain \<Rightarrow> 'key world \<Rightarrow> bool" where
  "included w tx wid oc w' \<longleftrightarrow>
     w_sys w' = w_sys w \<and> w_pool w' = w_pool w - {tx} \<and> length (w_mined w') = Suc (length (w_mined w))
     \<and> r2_publisher (w_registry w') = r2_publisher (w_registry w) \<and> registry_latest (w_registry w') wid = oc"

lemma mine_exec:
  assumes "tx \<in> w_pool w" "tx_nonce tx = length (w_mined w)" "tx_args tx = publish_args_for wid key sig"
    and "r2_publisher (w_registry w) = me" "rk_Version key \<noteq> 0" "sig \<noteq> []"
  shows "\<exists>w'. world_exec cr me w [WMine tx ts] = Some w'
     \<and> included w tx wid \<lparr>oc_Exists = True, oc_Key = key, oc_Signature = sig\<rparr> w'"
proof -
  have "transact publish_v2 (w_registry w) (ts, me, tx_args tx) = registry_mine (w_registry w) ts wid key sig"
    by (simp add: registry_mine_def assms(3,4))
  then show ?thesis
    using assms rc.mine_latest [OF assms(5,6), of "w_registry w" ts wid wid]
    by (simp add: included_def reg2.transact_publisher registry_mine_def)
qed

lemma deployed_v2:
  assumes "deploy_v2 me = Some r"
  shows "r2_publisher r = me" "\<not> oc_Exists (registry_latest r wid)" "oc_Key (registry_latest r wid) = zero_key"
proof -
  have "r2_publisher r = me \<and> getLatest_v2 r wid = zero_attestation_v2"
    using assms by (auto simp: deploy_v2_def getLatest_v2_def split: if_splits)
  then show "r2_publisher r = me" "\<not> oc_Exists (registry_latest r wid)" "oc_Key (registry_latest r wid) = zero_key"
    by (simp_all add: registry_latest_def LatestAttestationV2_reads view_v2_def read_v2_def zero_attestation_v2_def zero_key_def)
qed

lemma recordIsOurs_iff:
  "recordIsOurs cr p d sig \<longleftrightarrow>
     sig \<noteq> [] \<and> (\<exists>digest. envelope_SigningDigest (envelopeFor d) = Inr digest \<and> VerifyConfigHashSignature cr (pv_pub p) digest sig)"
  by (auto simp: recordIsOurs_def split: sum.splits)

definition tx_for :: "nat \<Rightarrow> hash32 \<Rightarrow> revision_key \<Rightarrow> bytes \<Rightarrow> v2_tx" where
  "tx_for n wid key sig = \<lparr>tx_nonce = n, tx_args = publish_args_for wid key sig\<rparr>"

lemma tx_for_fields [simp]: "tx_nonce (tx_for n wid key sig) = n" "tx_args (tx_for n wid key sig) = publish_args_for wid key sig"
  by (simp_all add: tx_for_def)

lemma revisionKey_update [simp]: "revisionKey (p\<lparr>pv_seq := n, pv_state := m\<rparr>) d = revisionKey p d"
  by (rule revisionKey_cong) simp

text \<open>Two revisions of one workload, one after the other, both sent and both still without a receipt.\<close>

lemma two_open_attempts:
  assumes fresh: "fresh_publisher p0" and r: "deploy_v2 me = Some r"
    and wid: "WorkloadID (ds_Identity a) = Inr wid" "WorkloadID (ds_Identity b) = Inr wid"
    and version: "ds_Version a \<noteq> 0" "ds_Version b \<noteq> 0" and key: "revisionKey p0 a \<noteq> revisionKey p0 b"
    and ours: "recordIsOurs cr p0 a sa" "recordIsOurs cr p0 b sb"
  shows "\<exists>w st. world_reach cr me p0 r w \<and> sy_pc (w_sys w) = PIdle \<and> w_registry w = r \<and> w_mined w = []
     \<and> w_pool w = {tx_for na wid (revisionKey p0 a) sa, tx_for nb wid (revisionKey p0 b) sb}
     \<and> sy_pub (w_sys w) = p0\<lparr>pv_seq := 2, pv_state := (pv_state p0)(wid \<mapsto> st)\<rparr>
     \<and> ws_confirmed st = None \<and> ws_key st = revisionKey p0 b \<and> ws_prepared st = Some (tx_for nb wid (revisionKey p0 b) sb)"
proof -
  let ?txa = "tx_for na wid (revisionKey p0 a) sa" and ?txb = "tx_for nb wid (revisionKey p0 b) sb"
  let ?w0 = "world_init p0 r"
  have p0: "pv_state p0 = Map.empty" "pv_seq p0 = 0" using fresh by (simp_all add: fresh_publisher_def)
  have zero: "revisionKey p0 a \<noteq> zero_key" "revisionKey p0 b \<noteq> zero_key"
    using version by (auto simp: revisionKey_def zero_key_def)
  obtain da where da: "envelope_SigningDigest (envelopeFor a) = Inr da" "sa \<noteq> []"
      "VerifyConfigHashSignature cr (pv_pub p0) da sa" using ours(1) by (auto simp: recordIsOurs_iff)
  obtain db where db: "envelope_SigningDigest (envelopeFor b) = Inr db" "sb \<noteq> []"
      "VerifyConfigHashSignature cr (pv_pub p0) db sb" using ours(2) by (auto simp: recordIsOurs_iff)
  obtain w1 where w1: "world_exec cr me ?w0 (open_attempt r wid {} a sa ?txa) = Some w1" "opened ?w0 wid a sa ?txa w1"
    using open_attempt_exec [of ?w0 a wid p0 zero_workload_state da sa cr ?txa me] wid(1) p0 zero(1) da deployed_v2(3) [OF r]
    by (auto simp: world_init_def zero_workload_state_def)
  let ?st = "(new_revision p0 wid a)\<lparr>ws_signature := Some sa, ws_prepared := Some ?txa\<rparr>"
  let ?p1 = "p0\<lparr>pv_seq := 1, pv_state := (pv_state p0)(wid \<mapsto> ?st)\<rparr>"
  have w1': "sy_pub (w_sys w1) = ?p1" "sy_pc (w_sys w1) = PIdle" "w_registry w1 = r" "w_mined w1 = []" "w_pool w1 = {?txa}"
    using w1(2) by (simp_all add: opened_def Let_def world_init_def p0)
  have st: "ws_confirmed ?st = None" "ws_key ?st = revisionKey p0 a" "ws_seq ?st = 1"
    by (simp_all add: new_revision_def p0 zero_workload_state_def)
  obtain w2 where w2: "world_exec cr me w1 (open_attempt r wid {?txa} b sb ?txb) = Some w2" "opened w1 wid b sb ?txb w2"
    using open_attempt_exec [of w1 b wid ?p1 ?st db sb cr ?txb me] wid(2) w1' st key zero(2) db deployed_v2(3) [OF r]
    by auto
  let ?st2 = "(new_revision ?p1 wid b)\<lparr>ws_signature := Some sb, ws_prepared := Some ?txb\<rparr>"
  have "sy_pub (w_sys w2) = p0\<lparr>pv_seq := 2, pv_state := (pv_state p0)(wid \<mapsto> ?st2)\<rparr>"
    using w2(2) by (simp add: opened_def Let_def w1'(1))
  moreover have "ws_confirmed ?st2 = None" "ws_key ?st2 = revisionKey p0 b" "ws_prepared ?st2 = Some ?txb"
    using st by (simp_all add: new_revision_def)
  moreover have "sy_pc (w_sys w2) = PIdle" "w_registry w2 = r" "w_mined w2 = []" "w_pool w2 = {?txa, ?txb}"
    using w2(2) w1'(3-) by (auto simp: opened_def Let_def)
  moreover have "world_reach cr me p0 r w2"
    using world_exec_reach [OF world_exec_reach [OF world_reach.init w1(1)] w2(1)] .
  ultimately show ?thesis by blast
qed

lemma web_revisions:
  "recordIsOurs accept_all world_pub0 (web_desired h) ''sig''" "ds_Version (web_desired h) \<noteq> 0"
  "revisionKey world_pub0 (web_desired 7) \<noteq> revisionKey world_pub0 (web_desired 8)"
  "WorkloadID (ds_Identity (web_desired h)) = Inr web_id"
  using web_digest [of h]
  by (auto simp: recordIsOurs_iff accept_all_def VerifyConfigHashSignature_def world_pub0_def web_desired_def V2_def
      revisionKey_def web_WorkloadID)

text \<open>
  Two revisions prepared with the same nonce, the second because the node had lost sight of the first, which is
  then included.
\<close>

lemma lost_nonce_run:
  "\<exists>w st. world_reach accept_all 1 world_pub0 web_registry w \<and> pv_state (sy_pub (w_sys w)) web_id = Some st
     \<and> (\<exists>tx. ws_prepared st = Some tx \<and> nonce_lost w tx)"
proof -
  let ?a = "revisionKey world_pub0 (web_desired 7)" and ?b = "revisionKey world_pub0 (web_desired 8)"
  let ?txa = "tx_for 0 web_id ?a ''sig''" and ?txb = "tx_for 0 web_id ?b ''sig''"
  obtain w st where reach: "world_reach accept_all 1 world_pub0 web_registry w" and w: "w_mined w = []" "w_pool w = {?txa, ?txb}"
      "sy_pub (w_sys w) = world_pub0\<lparr>pv_seq := 2, pv_state := (pv_state world_pub0)(web_id \<mapsto> st)\<rparr>" "ws_prepared st = Some ?txb"
    using two_open_attempts [OF web_deployed(2,1) web_revisions(4,4,2,2,3,1,1), of 0 0] by blast
  obtain w' where w': "world_exec accept_all 1 w [WMine ?txa 0] = Some w'" using w by simp
  have "p2_configHash (tx_args ?txa) \<noteq> p2_configHash (tx_args ?txb)"
    by (simp add: publish_args_for_def revisionKey_def web_desired_def)
  then have "?txb \<noteq> ?txa" by metis
  then have "nonce_lost w' ?txb" using w w' by (auto simp: nonce_lost_def)
  moreover have "w_sys w' = w_sys w" using w w' by auto
  ultimately show ?thesis using world_exec_reach [OF reach w'] w by auto
qed

subsection \<open>A lost nonce\<close>

text \<open>
  C12: an attempt whose nonce another transaction of the account used is never given up. From then on, whatever
  happens, no transaction of that revision takes effect on the registry, and as long as the revision is
  desired and unconfirmed the idle publisher holds the same dead transaction: every retry sends it again and
  waits for a receipt that cannot come, and a replacement is never prepared.
\<close>

theorem lost_nonce_wedges:
  assumes "world_reach cr me p0 r w" "fresh_publisher p0" "deploy_v2 owner = Some r"
    and "pv_state (sy_pub (w_sys w)) wid = Some st" "ws_prepared st = Some tx" "nonce_lost w tx"
    and "(world_step cr me)\<^sup>*\<^sup>* w w'"
  shows "effects (ws_seq st) w' = []
    \<and> (\<forall>st'. sy_pc (w_sys w') = PIdle \<longrightarrow> pv_state (sy_pub (w_sys w')) wid = Some st' \<longrightarrow> ws_seq st' = ws_seq st
         \<longrightarrow> ws_confirmed st' \<noteq> Some (ws_key st') \<longrightarrow> ws_prepared st' = Some tx)"
proof -
  have reach: "world_reach cr me p0 r w'" using assms(7,1) by (rule steps_reach)
  have "prepared_for (sy_hist (w_sys w)) wid st tx"
    using world_invs(1) [OF assms(1,2)] assms(4,5) by (auto simp: wf_inv_def rev_ok_def)
  then have "tx \<in> set (txs_of (ws_seq st) (sy_hist (w_sys w')))"
    by (intro steps_txs [OF assms(7)]) (auto simp: prepared_for_def txs_of_iff)
  moreover have lost: "nonce_lost w' tx" using assms(7,6) by (rule steps_lost)
  ultimately have "tx \<in> live (ws_seq st) (sy_hist (w_sys w'))"
    using world_inv_reach [OF reach assms(2,3)] by (intro lost_is_live) auto
  with lost_no_effect [OF reach assms(2,3) lost] lost_is_kept [OF reach assms(2,3)] show ?thesis by blast
qed

theorem lost_nonce_wedges_witness:
  "\<exists>w st tx. world_reach accept_all 1 world_pub0 web_registry w \<and> pv_state (sy_pub (w_sys w)) web_id = Some st
     \<and> ws_prepared st = Some tx \<and> nonce_lost w tx \<and> effects (ws_seq st) w = []"
  using lost_nonce_run lost_nonce_wedges [OF _ web_deployed(2,1) _ _ _ rtranclp.rtrancl_refl] by blast

subsection \<open>A superseded transaction that is included late\<close>

text \<open>
  C13: a confirmed revision can be overwritten by one it superseded. Take two different revisions of a workload,
  both properly signed. The publisher can reach a state in which the first is desired and confirmed, nothing
  is pending, the worker has nothing to do and enqueueing the first revision again is dropped as already
  confirmed, while the registry's record is the second one: it was superseded while its transaction was
  unsettled, and was included after the record of the first had been read and confirmed.
\<close>

theorem late_inclusion_overwrites:
  assumes fresh: "fresh_publisher p0" and r: "deploy_v2 me = Some r"
    and wid: "WorkloadID (ds_Identity a) = Inr wid" "WorkloadID (ds_Identity b) = Inr wid"
    and version: "ds_Version a \<noteq> 0" "ds_Version b \<noteq> 0" and key: "revisionKey p0 a \<noteq> revisionKey p0 b"
    and ours: "recordIsOurs cr p0 a sa" "recordIsOurs cr p0 b sb"
  shows "\<exists>w st. world_reach cr me p0 r w \<and> sy_pc (w_sys w) = PIdle \<and> w_pool w = {}
     \<and> pv_state (sy_pub (w_sys w)) wid = Some st \<and> ws_desired st = a \<and> ws_confirmed st = Some (ws_key st)
     \<and> snapshot (sy_pub (w_sys w)) wid = None \<and> Enqueue (sy_pub (w_sys w)) a = Inr (sy_pub (w_sys w), [])
     \<and> oc_Key (registry_latest (w_registry w) wid) = revisionKey p0 b"
proof -
  let ?txa = "tx_for 0 wid (revisionKey p0 a) sa" and ?txb = "tx_for 1 wid (revisionKey p0 b) sb"
  have sigs: "sa \<noteq> []" "sb \<noteq> []" using ours by (auto simp: recordIsOurs_iff)
  have vers: "rk_Version (revisionKey p0 a) \<noteq> 0" "rk_Version (revisionKey p0 b) \<noteq> 0" using version by (simp_all add: revisionKey_def)
  obtain w2 st where reach: "world_reach cr me p0 r w2" and w2: "sy_pc (w_sys w2) = PIdle" "w_registry w2 = r" "w_mined w2 = []"
      "w_pool w2 = {?txa, ?txb}" "sy_pub (w_sys w2) = p0\<lparr>pv_seq := 2, pv_state := (pv_state p0)(wid \<mapsto> st)\<rparr>"
      "ws_confirmed st = None" "ws_key st = revisionKey p0 b"
    using two_open_attempts [OF assms, of 0 1] by blast
  obtain w3 where w3: "world_exec cr me w2 [WMine ?txa 0] = Some w3"
      "included w2 ?txa wid \<lparr>oc_Exists = True, oc_Key = revisionKey p0 a, oc_Signature = sa\<rparr> w3"
    using mine_exec [of ?txa w2 wid "revisionKey p0 a" sa me cr 0] w2 vers sigs deployed_v2(1) [OF r] by auto
  have w3': "sy_pub (w_sys w3) = p0\<lparr>pv_seq := 2, pv_state := (pv_state p0)(wid \<mapsto> st)\<rparr>" "w_pool w3 = {?txb}"
      "length (w_mined w3) = 1" "r2_publisher (w_registry w3) = me" "sy_pc (w_sys w3) = PIdle"
    using w3(2) w2 deployed_v2(1) [OF r] by (auto simp: included_def tx_for_def)
  have ours3: "recordIsOurs cr (sy_pub (w_sys w3)) a sa"
    using ours(1) recordIsOurs_cong [of "sy_pub (w_sys w3)" p0 cr] w3'(1) by simp
  obtain w4 where w4: "world_exec cr me w3 (found_record (w_registry w3) wid (w_pool w3) a) = Some w4" "found w3 wid a w4"
    using found_record_exec [where me = me, OF w3'(5) wid(1) refl refl _ _ _ _ ours3] w3(2) w2 key by (auto simp: included_def w3'(1))
  have w4': "w_pool w4 = {?txb}" "length (w_mined w4) = 1" "r2_publisher (w_registry w4) = me"
    using w4(2) w3'(2-4) by (simp_all add: found_def Let_def)
  obtain w5 where w5: "world_exec cr me w4 [WMine ?txb 0] = Some w5"
      "included w4 ?txb wid \<lparr>oc_Exists = True, oc_Key = revisionKey p0 b, oc_Signature = sb\<rparr> w5"
    using mine_exec [of ?txb w4 wid "revisionKey p0 b" sb me cr 0] w4' vers sigs by auto
  have "world_reach cr me p0 r w5"
    using world_exec_reach [OF world_exec_reach [OF world_exec_reach [OF reach w3(1)] w4(1)] w5(1)] .
  moreover have "w_pool w5 = {}" "sy_pc (w_sys w5) = PIdle" "oc_Key (registry_latest (w_registry w5) wid) = revisionKey p0 b"
    using w5(2) w4(2) w3'(2) by (auto simp: included_def found_def Let_def)
  moreover have "sy_pub (w_sys w5) = p0\<lparr>pv_seq := 3, pv_state := (pv_state p0)(wid \<mapsto>
      (new_revision (sy_pub (w_sys w3)) wid a)\<lparr>ws_confirmed := Some (revisionKey p0 a), ws_prepared := None\<rparr>)\<rparr>"
    using w5(2) w4(2) by (simp add: included_def found_def Let_def w3'(1))
  ultimately show ?thesis
    using wid(1) by (intro exI [of _ w5]) (simp add: snapshot_def Enqueue_def Let_def new_revision_def w3'(1))
qed

theorem late_inclusion_overwrites_witness:
  "\<exists>w st. world_reach accept_all 1 world_pub0 web_registry w
     \<and> pv_state (sy_pub (w_sys w)) web_id = Some st \<and> ws_desired st = web_desired 7 \<and> ws_confirmed st = Some (ws_key st)
     \<and> oc_Key (registry_latest (w_registry w) web_id) = revisionKey world_pub0 (web_desired 8)"
  using late_inclusion_overwrites [OF web_deployed(2,1) web_revisions(4,4,2,2,3,1,1)] by blast

end
