(* ===== verification/Publisher_V2_Settle.thy ===== *)
theory Publisher_V2_Settle
  imports Publisher_V2_Stale
begin

section \<open>Attempts that can still be included\<close>

text \<open>
  The other side of Publisher\_V2\_Stale: on the chain of Publisher\_V2\_World, a revision whose attempt has not
  lost its nonce, or that has none yet, can be brought on the registry. The run is put together from what
  the worker does with what it holds: a record it finds, a transaction, a signature, or nothing.
\<close>

text \<open>The desired revision of a workload is confirmed, and it is the registry's current record.\<close>

definition settled_on :: "'key world \<Rightarrow> hash32 \<Rightarrow> revision_key \<Rightarrow> bool" where
  "settled_on w wid key \<longleftrightarrow>
     sy_pc (w_sys w) = PIdle \<and> snapshot (sy_pub (w_sys w)) wid = None
     \<and> (\<exists>st. pv_state (sy_pub (w_sys w)) wid = Some st \<and> ws_key st = key \<and> ws_confirmed st = Some key)
     \<and> oc_Key (registry_latest (w_registry w) wid) = key"

definition steps_to :: "('pub, 'key) crypto \<Rightarrow> address \<Rightarrow> 'key world \<Rightarrow> hash32 \<Rightarrow> revision_key \<Rightarrow> bool" where
  "steps_to cr me w wid key \<longleftrightarrow> (\<exists>w'. (world_step cr me)\<^sup>*\<^sup>* w w' \<and> settled_on w' wid key)"

lemma world_exec_steps: "world_exec cr me w as = Some w' \<Longrightarrow> (world_step cr me)\<^sup>*\<^sup>* w w'"
  by (induction cr me w as rule: world_exec.induct)
    (auto intro: converse_rtranclp_into_rtranclp world_do_step split: option.splits)

lemma steps_toI: "world_exec cr me w as = Some w' \<Longrightarrow> settled_on w' wid key \<Longrightarrow> steps_to cr me w wid key"
  unfolding steps_to_def using world_exec_steps by blast

lemma steps_to_trans: "world_exec cr me w as = Some w' \<Longrightarrow> steps_to cr me w' wid key \<Longrightarrow> steps_to cr me w wid key"
  unfolding steps_to_def by (meson rtranclp_trans world_exec_steps)

lemma send_settles:
  assumes pc: "sy_pc (w_sys w) = PSend wid rv tx"
    and st: "pv_state (sy_pub (w_sys w)) wid = Some st" "ws_seq st = ws_seq rv" "ws_key st = ws_key rv"
    and tx: "tx_nonce tx = length (w_mined w)" "tx_args tx = publish_args_for wid (ws_key rv) sig"
    and pub: "r2_publisher (w_registry w) = me" and ok: "rk_Version (ws_key rv) \<noteq> 0" "sig \<noteq> []"
  shows "steps_to cr me w wid (ws_key rv)"
proof -
  obtain w1 where w1: "world_exec cr me w [WCall (RSend (Inr SendAccepted)) (insert tx (w_pool w))] = Some w1"
    and w1': "sy_pc (w_sys w1) = PWait wid rv tx" "sy_pub (w_sys w1) = sy_pub (w_sys w)" "w_mined w1 = w_mined w"
      "tx \<in> w_pool w1" "w_registry w1 = w_registry w"
    using pc by simp
  obtain w2 where w2: "world_exec cr me w1 [WMine tx 0] = Some w2"
      "included w1 tx wid \<lparr>oc_Exists = True, oc_Key = ws_key rv, oc_Signature = sig\<rparr> w2"
    using mine_exec [of tx w1 wid "ws_key rv" sig me cr 0] w1' tx pub ok by auto
  have "(tx, True) \<in> set (w_mined w2)"
  proof -
    have "takes_effect (w_registry w1) me (tx_args tx)"
      using ok pub w1'(5) by (simp add: takes_effect_def admissible_v2_def tx(2) publish_args_for_def)
    then show ?thesis using w2(1) w1'(3,4) tx(1) by (auto split: if_splits)
  qed
  then obtain w3 where w3: "world_exec cr me w2 [WCall (RWait (Inr WaitMinedSuccess)) (w_pool w2), WCall RLocked (w_pool w2)] = Some w3"
    and "settled_on w3 wid (ws_key rv)"
    using w2(2) w1'(1,2) st by (auto simp: included_def settled_on_def confirm_def Let_def snapshot_def)
  then show ?thesis
    using steps_to_trans [OF w1 steps_to_trans [OF w2(1) steps_toI]] by blast
qed

lemma prepare_settles:
  assumes pc: "sy_pc (w_sys w) = PPrepare wid rv sig" and st: "pv_state (sy_pub (w_sys w)) wid = Some rv"
    and pub: "r2_publisher (w_registry w) = me" and ok: "rk_Version (ws_key rv) \<noteq> 0" "sig \<noteq> []"
  shows "steps_to cr me w wid (ws_key rv)"
proof -
  let ?tx = "tx_for (length (w_mined w)) wid (ws_key rv) sig"
  obtain w1 where w1: "world_exec cr me w [WCall (RPrepare (Inr ?tx)) (w_pool w), WCall RLocked (w_pool w)] = Some w1"
    and w1': "sy_pc (w_sys w1) = PSend wid rv ?tx" "w_mined w1 = w_mined w" "w_registry w1 = w_registry w"
      "pv_state (sy_pub (w_sys w1)) wid = Some (rv\<lparr>ws_signature := Some sig, ws_prepared := Some ?tx\<rparr>)"
    using pc st by (simp add: storeAttempt_def)
  have "steps_to cr me w1 wid (ws_key rv)"
    by (rule send_settles [OF w1'(1,4)]) (use w1'(2,3) pub ok in simp_all)
  with w1 show ?thesis by (rule steps_to_trans)
qed

lemma registry_publisher_reach:
  "world_reach cr me p0 r w \<Longrightarrow> r2_publisher (w_registry w) = r2_publisher r"
proof (induction rule: world_reach.induct)
  case (step w w')
  from step.hyps(2) have "r2_publisher (w_registry w') = r2_publisher (w_registry w)"
    by (cases rule: world_step.cases) (simp_all add: reg2.transact_publisher)
  with step.IH show ?case by simp
qed (simp add: world_init_def)

lemma snapshot_SomeD: "snapshot p wid = Some rv \<Longrightarrow> pv_state p wid = Some rv \<and> ws_confirmed rv \<noteq> Some (ws_key rv)"
  by (auto simp: snapshot_def split: option.splits if_splits)

text \<open>A signature or a transaction the publisher holds is a good one.\<close>

lemma held_good:
  assumes "world_reach cr me p0 r w" "fresh_publisher p0" "deploy_v2 owner = Some r"
    and "pv_state (sy_pub (w_sys w)) wid = Some st"
  shows "ws_signature st = Some sig \<Longrightarrow> sig \<noteq> []"
    and "ws_prepared st = Some tx \<Longrightarrow> \<exists>sig. sig \<noteq> [] \<and> tx_args tx = publish_args_for wid (ws_key st) sig"
proof -
  have hist: "hist_inv cr w" using world_inv_reach [OF assms(1-3)] by simp
  have ok: "rev_ok (sy_pub (w_sys w)) (sy_hist (w_sys w)) wid st"
    using world_invs(1) [OF assms(1,2)] assms(4) by (auto simp: wf_inv_def)
  show "ws_signature st = Some sig \<Longrightarrow> sig \<noteq> []"
    using ok hist_invD(1) [OF hist] by (fastforce simp: rev_ok_def signed_for_def)
  assume "ws_prepared st = Some tx"
  then obtain sig where prep: "EvPrepared (ws_seq st) wid (ws_key st) sig tx \<in> set (sy_hist (w_sys w))"
    using ok by (auto simp: rev_ok_def prepared_for_def)
  from hist_invD(1) [OF hist prep] show "\<exists>sig. sig \<noteq> [] \<and> tx_args tx = publish_args_for wid (ws_key st) sig"
    by (auto simp: wanted_by_def recordIsOurs_iff)
qed

text \<open>The worker starts on a workload and reads its record.\<close>

lemma read_exec:
  assumes "sy_pc (w_sys w) = PIdle" "snapshot (sy_pub (w_sys w)) wid = Some rv" "oc = registry_latest (w_registry w) wid"
  shows "\<exists>w'. world_exec cr me w [WStart wid, WCall (RLatest (Inr oc)) (w_pool w)] = Some w'
    \<and> sy_pub (w_sys w') = sy_pub (w_sys w) \<and> w_mined w' = w_mined w \<and> w_registry w' = w_registry w \<and> w_pool w' = w_pool w
    \<and> sy_pc (w_sys w') = (if matches cr (sy_pub (w_sys w)) rv oc then PConfirm wid rv else fst (prepareOnce wid rv))"
  using assms by (cases "prepareOnce wid rv"; cases "matches cr (sy_pub (w_sys w)) rv oc") (auto simp: beginProcess_def)

text \<open>From there it goes on with what it holds: a transaction, a signature, or nothing.\<close>

lemma attempt_settles:
  assumes pc: "sy_pc (w_sys w) = fst (prepareOnce wid rv)" and st: "pv_state (sy_pub (w_sys w)) wid = Some rv"
    and nonce: "\<And>tx. ws_prepared rv = Some tx \<Longrightarrow> tx_nonce tx = length (w_mined w)
        \<and> (\<exists>sig. sig \<noteq> [] \<and> tx_args tx = publish_args_for wid (ws_key rv) sig)"
    and held: "\<And>sig. ws_signature rv = Some sig \<Longrightarrow> sig \<noteq> []"
    and pub: "r2_publisher (w_registry w) = me" and key: "rk_Version (ws_key rv) \<noteq> 0"
    and sig: "recordIsOurs cr (sy_pub (w_sys w)) (ws_desired rv) sig"
  shows "steps_to cr me w wid (ws_key rv)"
proof (cases "ws_prepared rv")
  case (Some tx)
  with nonce obtain s where "s \<noteq> []" "tx_args tx = publish_args_for wid (ws_key rv) s" "tx_nonce tx = length (w_mined w)"
    by blast
  then show ?thesis using Some pc st pub key
    by (intro send_settles [where st = rv and tx = tx]) (simp_all add: prepareOnce_def)
next
  case None
  show ?thesis
  proof (cases "ws_signature rv")
    case (Some s)
    then show ?thesis using None pc st pub key held by (intro prepare_settles) (simp_all add: prepareOnce_def)
  next
    case unsigned: None
    obtain digest where digest: "envelope_SigningDigest (envelopeFor (ws_desired rv)) = Inr digest" "sig \<noteq> []"
        "VerifyConfigHashSignature cr (pv_pub (sy_pub (w_sys w))) digest sig"
      using sig by (auto simp: recordIsOurs_iff)
    then obtain w' where w': "world_exec cr me w [WCall (RSign (Inr sig)) (w_pool w)] = Some w'"
      and "sy_pc (w_sys w') = PPrepare wid rv sig" "sy_pub (w_sys w') = sy_pub (w_sys w)" "w_registry w' = w_registry w"
      using None unsigned pc by (simp add: prepareOnce_def)
    then have "steps_to cr me w' wid (ws_key rv)" using st pub key digest(2) by (intro prepare_settles) simp_all
    with w' show ?thesis by (rule steps_to_trans)
  qed
qed

text \<open>From an idle worker: a record that is there already is confirmed, otherwise the attempt goes on.\<close>

lemma idle_settles:
  assumes idle: "sy_pc (w_sys w) = PIdle" and rv: "snapshot (sy_pub (w_sys w)) wid = Some rv"
    and go_on: "\<And>w1. sy_pub (w_sys w1) = sy_pub (w_sys w) \<Longrightarrow> w_mined w1 = w_mined w \<Longrightarrow> w_registry w1 = w_registry w \<Longrightarrow>
      w_pool w1 = w_pool w \<Longrightarrow> sy_pc (w_sys w1) = fst (prepareOnce wid rv) \<Longrightarrow> steps_to cr me w1 wid (ws_key rv)"
  shows "steps_to cr me w wid (ws_key rv)"
proof -
  let ?oc = "registry_latest (w_registry w) wid" and ?p = "sy_pub (w_sys w)"
  note st = snapshot_SomeD [OF rv]
  obtain w1 where w1: "world_exec cr me w [WStart wid, WCall (RLatest (Inr ?oc)) (w_pool w)] = Some w1"
    and w1': "sy_pub (w_sys w1) = ?p" "w_mined w1 = w_mined w" "w_registry w1 = w_registry w" "w_pool w1 = w_pool w"
      "sy_pc (w_sys w1) = (if matches cr ?p rv ?oc then PConfirm wid rv else fst (prepareOnce wid rv))"
    using read_exec [OF idle rv refl] by blast
  have "steps_to cr me w1 wid (ws_key rv)"
  proof (cases "matches cr ?p rv ?oc")
    case True
    then obtain w2 where "world_exec cr me w1 [WCall RLocked (w_pool w)] = Some w2" "settled_on w2 wid (ws_key rv)"
      using w1' st by (auto simp: settled_on_def confirm_def snapshot_def matches_def Let_def)
    then show ?thesis by (rule steps_toI)
  next
    case False
    with w1' show ?thesis by (intro go_on) simp_all
  qed
  with w1 show ?thesis by (rule steps_to_trans)
qed

text \<open>An attempt that was reverted is sent once more in vain, its receipt is read, and it is given up.\<close>

lemma reverted_discarded:
  assumes pc: "sy_pc (w_sys w) = PSend wid rv tx" and st: "pv_state (sy_pub (w_sys w)) wid = Some rv"
    and tx: "(tx, False) \<in> set (w_mined w)"
  obtains w' where "world_exec cr me w
      [WCall (RSend (Inr SendUnknown)) (w_pool w), WCall (RWait (Inr WaitReverted)) (w_pool w), WCall RLocked (w_pool w)] = Some w'"
    "sy_pc (w_sys w') = PIdle" "pv_state (sy_pub (w_sys w')) wid = Some (rv\<lparr>ws_prepared := None\<rparr>)"
    "pv_pub (sy_pub (w_sys w')) = pv_pub (sy_pub (w_sys w))" "w_registry w' = w_registry w" "w_mined w' = w_mined w"
  using assms by (simp add: discardAttempt_def)

text \<open>
  C11: a revision that is not stuck can be published. Take any reachable state, on a registry whose publisher is the
  account, in which the worker is idle and the desired revision of a workload is unconfirmed, of a version other
  than zero and with an envelope the signer can sign. If its attempt has the account's next nonce, or was reverted,
  or if there is none, then there is a run after which the revision is confirmed and is the current record of the
  registry. In particular a reverted attempt, of which the publisher need not know yet, is found out and replaced.
\<close>

theorem unstuck_can_publish:
  fixes w :: "'key world"
  assumes reach: "world_reach cr me p0 r w" "fresh_publisher p0" "deploy_v2 me = Some r"
    and idle: "sy_pc (w_sys w) = PIdle" and rv: "snapshot (sy_pub (w_sys w)) wid = Some rv"
    and nonce: "\<And>tx. ws_prepared rv = Some tx \<Longrightarrow> tx_nonce tx = length (w_mined w) \<or> (tx, False) \<in> set (w_mined w)"
    and version: "ds_Version (ws_desired rv) \<noteq> 0" and sig: "recordIsOurs cr (sy_pub (w_sys w)) (ws_desired rv) sig"
  shows "steps_to cr me w wid (ws_key rv)"
proof (rule idle_settles [OF idle rv])
  fix w1 :: "'key world"
  assume w1: "sy_pub (w_sys w1) = sy_pub (w_sys w)" "w_mined w1 = w_mined w" "w_registry w1 = w_registry w"
    "w_pool w1 = w_pool w" "sy_pc (w_sys w1) = fst (prepareOnce wid rv)"
  note st = snapshot_SomeD [OF rv]
  have pub: "r2_publisher (w_registry w) = me"
    using registry_publisher_reach [OF reach(1)] deployed_v2(1) [OF reach(3)] by simp
  have key: "rk_Version (ws_key rv) \<noteq> 0"
    using world_invs(1) [OF reach(1,2)] st version by (auto simp: wf_inv_def rev_ok_def revisionKey_def)
  note held = held_good [OF reach conjunct1 [OF st]]
  show "steps_to cr me w1 wid (ws_key rv)"
  proof (cases "\<exists>tx. ws_prepared rv = Some tx \<and> (tx, False) \<in> set (w_mined w)")
    case False
    with nonce have "ws_prepared rv = Some tx \<Longrightarrow> tx_nonce tx = length (w_mined w)" for tx by blast
    with w1 st pub key sig held show ?thesis by (intro attempt_settles [where sig = sig]) simp_all
  next
    case True
    let ?rv = "rv\<lparr>ws_prepared := None\<rparr>"
    from True obtain tx where tx: "ws_prepared rv = Some tx" "(tx, False) \<in> set (w_mined w1)" using w1(2) by auto
    then have pc: "sy_pc (w_sys w1) = PSend wid rv tx" using w1(5) by (simp add: prepareOnce_def)
    have st1: "pv_state (sy_pub (w_sys w1)) wid = Some rv" using w1(1) st by simp
    from reverted_discarded [OF pc st1 tx(2), where cr = cr and me = me] obtain w2 as where w2: "world_exec cr me w1 as = Some w2"
      "sy_pc (w_sys w2) = PIdle" "pv_state (sy_pub (w_sys w2)) wid = Some ?rv"
      "pv_pub (sy_pub (w_sys w2)) = pv_pub (sy_pub (w_sys w1))" "w_registry w2 = w_registry w1" "w_mined w2 = w_mined w1"
      by metis
    have "recordIsOurs cr (sy_pub (w_sys w2)) (ws_desired rv) sig"
      using sig recordIsOurs_cong [of "sy_pub (w_sys w2)" "sy_pub (w_sys w)" cr] w1(1) w2(4) by simp
    moreover have "snapshot (sy_pub (w_sys w2)) wid = Some ?rv"
      using rv w2(3) st by (auto simp: snapshot_def split: if_splits)
    ultimately have "steps_to cr me w2 wid (ws_key ?rv)"
      using w2 w1(2,3) pub key held(1)
      by (intro idle_settles [OF w2(2)]) (auto intro!: attempt_settles [where sig = sig and rv = ?rv, simplified])
    with w2(1) show ?thesis by (simp add: steps_to_trans)
  qed
qed

text \<open>A sample: the attempt was sent, no receipt came in time, and then it ran out of gas.\<close>

lemma reverted_world:
  "\<exists>w rv tx. world_reach accept_all 1 world_pub0 web_registry w \<and> sy_pc (w_sys w) = PIdle
     \<and> snapshot (sy_pub (w_sys w)) web_id = Some rv \<and> ws_desired rv = web_desired 7
     \<and> ws_prepared rv = Some tx \<and> (tx, False) \<in> set (w_mined w) \<and> ws_key rv = revisionKey world_pub0 (web_desired 7)"
proof -
  let ?w0 = "world_init world_pub0 web_registry" and ?d = "web_desired 7"
  let ?tx = "tx_for 0 web_id (revisionKey world_pub0 ?d) ''sig''"
  have p0: "pv_state world_pub0 = Map.empty" "pv_seq world_pub0 = 0" by (simp_all add: world_pub0_def)
  have zero: "revisionKey world_pub0 ?d \<noteq> zero_key" using web_revisions(2) [of 7] by (auto simp: revisionKey_def zero_key_def)
  obtain digest where digest: "envelope_SigningDigest (envelopeFor ?d) = Inr digest" "''sig'' \<noteq> ([] :: bytes)"
      "VerifyConfigHashSignature accept_all (pv_pub world_pub0) digest ''sig''"
    using web_revisions(1) [of 7] by (auto simp: recordIsOurs_iff)
  obtain w1 where w1: "world_exec accept_all 1 ?w0 (open_attempt web_registry web_id {} ?d ''sig'' ?tx) = Some w1"
      "opened ?w0 web_id ?d ''sig'' ?tx w1"
    using open_attempt_exec [of ?w0 ?d web_id world_pub0 zero_workload_state digest "''sig''" accept_all ?tx 1]
      web_revisions(4) p0 zero digest deployed_v2(3) [OF web_deployed(1)]
    by (auto simp: world_init_def zero_workload_state_def)
  let ?st = "(new_revision world_pub0 web_id ?d)\<lparr>ws_signature := Some ''sig'', ws_prepared := Some ?tx\<rparr>"
  define w2 where "w2 = w1\<lparr>w_registry := w_registry w1, w_pool := w_pool w1 - {?tx}, w_mined := (?tx, False) # w_mined w1\<rparr>"
  have w1': "w_mined w1 = []" "?tx \<in> w_pool w1" "sy_pc (w_sys w1) = PIdle"
      "sy_pub (w_sys w1) = world_pub0\<lparr>pv_seq := 1, pv_state := (pv_state world_pub0)(web_id \<mapsto> ?st)\<rparr>"
    using w1(2) by (simp_all add: opened_def Let_def world_init_def p0)
  then have "world_step accept_all 1 w1 w2"
    unfolding w2_def using world_step.mine [of ?tx w1 False 1 accept_all] by simp
  then have "world_reach accept_all 1 world_pub0 web_registry w2"
    using world_exec_reach [OF world_reach.init w1(1)] by (rule world_reach.step [rotated])
  moreover have "snapshot (sy_pub (w_sys w2)) web_id = Some ?st" "ws_desired ?st = ?d" "ws_key ?st = revisionKey world_pub0 ?d"
    by (simp_all add: w2_def w1'(4) snapshot_def new_revision_def p0 zero_workload_state_def)
  ultimately show ?thesis
    using w1' by (intro exI [of _ w2] exI [of _ ?st] exI [of _ ?tx]) (simp add: w2_def)
qed

theorem unstuck_can_publish_witness:
  "\<exists>w rv tx. world_reach accept_all 1 world_pub0 web_registry w \<and> snapshot (sy_pub (w_sys w)) web_id = Some rv
     \<and> ws_prepared rv = Some tx \<and> (tx, False) \<in> set (w_mined w)
     \<and> steps_to accept_all 1 w web_id (revisionKey world_pub0 (web_desired 7))"
proof -
  obtain w rv tx where reach: "world_reach accept_all 1 world_pub0 web_registry w" and w: "sy_pc (w_sys w) = PIdle"
      "snapshot (sy_pub (w_sys w)) web_id = Some rv" "ws_desired rv = web_desired 7"
      "ws_prepared rv = Some tx" "(tx, False) \<in> set (w_mined w)" "ws_key rv = revisionKey world_pub0 (web_desired 7)"
    using reverted_world by blast
  have "recordIsOurs accept_all (sy_pub (w_sys w)) (web_desired 7) ''sig''"
    using web_revisions(1) [of 7] recordIsOurs_cong [of "sy_pub (w_sys w)" world_pub0 accept_all] by simp
  then have "steps_to accept_all 1 w web_id (ws_key rv)"
    using unstuck_can_publish [OF reach web_deployed(2,1) w(1,2), where sig = "''sig''"] w(3,4,5) web_revisions(2) by auto
  with reach w show ?thesis by auto
qed

end
