(* ===== verification/Publisher_V1.thy ===== *)
theory Publisher_V1
  imports Chain_Client Kms_Signer Publisher_V2
begin

section \<open>The v1 publisher: publisher.go\<close>

text \<open>
  \<^verbatim>\<open>internal/publisher/publisher.go\<close>: sign a job's version-bound digest, publish it, retry with backoff on
  failure. The signer is the KMS signer and the chain writer the v1 client of the other packages. The
  work queue is seen through the calls made on it; jobs that failed come back later, after jobs added in
  the meantime.

  The lemma shows that what is published is signed for its version and hash. How jobs, their retries, the
  transactions and the registry interact is the subject of Operator\_V1.
\<close>

record job =
  j_DeploymentID :: hash32
  j_Version :: u16
  j_ConfigHash :: hash32
  j_NamespacedName :: string

datatype v1_error = ErrSignV1 signer_error | ErrChainV1 chain_error

text \<open>Signer and chain writer of a publisher; \<open>send\<close> is the transaction sender of the client.\<close>

record ('key, 'ec, 'auth) publisher_v1 =
  p1_signer :: "'key kms_signer"
  p1_client :: "('ec, 'auth) client_v1"

definition New :: "'key kms_signer \<Rightarrow> ('ec, 'auth) client_v1 \<Rightarrow> ('key, 'ec, 'auth) publisher_v1" where
  "New sg chain = \<lparr>p1_signer = sg, p1_client = chain\<rparr>"

definition Enqueue_v1 :: "job \<Rightarrow> job queue_call list" where
  "Enqueue_v1 j = [QAdd j]"

definition publish_args_of :: "('key, 'ec, 'auth) publisher_v1 \<Rightarrow> job \<Rightarrow> bytes \<Rightarrow> publish_args_v1" where
  "publish_args_of p j sig =
     \<lparr>p1_deploymentId = j_DeploymentID j, p1_hashVersion = j_Version j, p1_configHash = j_ConfigHash j,
      p1_signature = sig, p1_signerFingerprint = PublicKeyFingerprintBytes (PublicKeyDER (p1_signer p))\<rparr>"

definition process_v1 :: "('pub, 'key) crypto \<Rightarrow> ('key, 'ec, 'auth) publisher_v1
    \<Rightarrow> ('auth \<Rightarrow> abi_value list \<Rightarrow> string + string) \<Rightarrow> job \<Rightarrow> v1_error + string" where
  "process_v1 cr p send j =
     (case SignDigest cr (p1_signer p) (SigningDigest (j_Version j) (j_ConfigHash j)) of
        Inl err \<Rightarrow> Inl (ErrSignV1 err)
      | Inr sig \<Rightarrow>
          (case PublishAttestation (p1_client p) send (publish_args_of p j sig) of
             Inl err \<Rightarrow> Inl (ErrChainV1 err)
           | Inr txHash \<Rightarrow> Inr txHash))"

text \<open>What \<^verbatim>\<open>processNext\<close> does with the item; \<^verbatim>\<open>Done\<close> is deferred.\<close>

definition processNext_v1 :: "job \<Rightarrow> v1_error + string \<Rightarrow> job queue_call list" where
  "processNext_v1 j res =
     (case res of
        Inl err \<Rightarrow> [QAddRateLimited j]
      | Inr txHash \<Rightarrow> [QForget j]) @ [QDone j]"

subsection \<open>Properties of the v1 publisher\<close>

text \<open>
  What the v1 publisher publishes is signed for exactly its version and hash. A job is processed
  without error only if the client was asked to send the job's id, version and hash with the fingerprint
  of the signer's key and a signature that verifies under that key over the digest of that version and
  hash.
\<close>

lemma process_v1_publishes_signed:
  assumes "process_v1 cr p send j = Inr txHash"
  shows "\<exists>sig auth. cl_auth (p1_client p) = Some auth \<and> j_Version j \<noteq> 0
     \<and> send auth [ABytes32 (j_DeploymentID j), AUint16 (j_Version j), ABytes32 (j_ConfigHash j), ABytes sig,
          ABytes32 (Sum256 (PublicKeyDER (p1_signer p)))] = Inr txHash
     \<and> sig \<noteq> [] \<and> VerifyConfigHashSignature cr (ks_pub (p1_signer p)) (SigningDigest (j_Version j) (j_ConfigHash j)) sig"
proof -
  from assms obtain sig where sig: "SignDigest cr (p1_signer p) (SigningDigest (j_Version j) (j_ConfigHash j)) = Inr sig"
    and pub: "PublishAttestation (p1_client p) send (publish_args_of p j sig) = Inr txHash"
    by (auto simp: process_v1_def split: sum.splits)
  note v = SignDigest_valid [OF sig]
  from pub obtain auth where "cl_auth (p1_client p) = Some auth" "j_Version j \<noteq> 0"
    "send auth (publish_values_v1 (publish_args_of p j sig)) = Inr txHash"
    by (auto simp: PublishAttestation_def publish_args_of_def res_simps split: option.splits if_splits)
  with v show ?thesis
    by (auto simp: publish_args_of_def publish_values_v1_def PublicKeyFingerprintBytes_def)
qed

definition sample_publisher :: "(unit, unit, unit) publisher_v1" where
  "sample_publisher = New sample_signer \<lparr>cl_ec = Some (), cl_auth = Some (), cl_address = 3\<rparr>"

end
