(* ===== verification/Publisher_Loop.thy ===== *)
theory Publisher_Loop
  imports Publisher_V2_Props Publisher_V1
begin

section \<open>The worker loops and their queue\<close>

text \<open>
  \<^verbatim>\<open>Start\<close> and \<^verbatim>\<open>processNext\<close> of both publishers: take an item from the work queue, process it, give it back or
  forget it, until the queue is shut down. The first part runs the loop over what the queue hands out,
  the second interleaves the loop of the v2 publisher with \<open>Enqueue\<close>.

  The queue is a library. What the loop relies on is in its documentation: an item that was added, with or
  without delay, is handed out by a later \<^verbatim>\<open>Get\<close>, and an item being processed is not handed out again before
  \<^verbatim>\<open>Done\<close>. So the queue is the set of items it owes. \<open>Enqueue\<close> releases the publisher's lock before it calls
  \<^verbatim>\<open>queue.Add\<close>, so the call is a step of its own: in between, the worker may run.

  Here the calls may get any answer, also one the chain would never give, such as a receipt for a transaction that
  no block includes; that is right for what is to hold whatever happens. What the worker can achieve on a
  real chain is the subject of Publisher\_V2\_Settle and Publisher\_V2\_Stale.

  The theorems: no unconfirmed revision is ever lost (\<open>no_lost_work\<close>), and a run whose calls succeed is the last
  one (\<open>processNext_publishes\<close>).
\<close>

subsection \<open>Running the loops\<close>

definition NeedLeaderElection_v1 :: bool where
  "NeedLeaderElection_v1 = True"

definition NeedLeaderElection_v2 :: bool where
  "NeedLeaderElection_v2 = True"

text \<open>
  \<^verbatim>\<open>processNext\<close> on what \<^verbatim>\<open>Get\<close> returned (\<open>None\<close>: the queue is shut down), with the answers the calls of
  \<^verbatim>\<open>process\<close> get: the new memory, the calls on the queue, and whether to go on.
\<close>

definition processNext_v2 :: "('pub, 'key) crypto \<Rightarrow> ('key, 'tx) publisher_v2 \<Rightarrow> (hash32 \<times> 'tx response list) option
    \<Rightarrow> (('key, 'tx) publisher_v2 \<times> hash32 queue_call list \<times> bool) option" where
  "processNext_v2 cr p got =
     (case got of
        None \<Rightarrow> Some (p, [], False)
      | Some (item, rs) \<Rightarrow>
          (case process cr p item rs of
             None \<Rightarrow> None
           | Some (p', res) \<Rightarrow> Some (p', processNextCalls item res, True)))"

text \<open>\<^verbatim>\<open>Start\<close> over a list of what \<^verbatim>\<open>Get\<close> returned; the flag says whether it returned or still waits for an item.\<close>

fun Start_v2 :: "('pub, 'key) crypto \<Rightarrow> ('key, 'tx) publisher_v2 \<Rightarrow> (hash32 \<times> 'tx response list) option list
    \<Rightarrow> (('key, 'tx) publisher_v2 \<times> hash32 queue_call list \<times> bool) option" where
  "Start_v2 cr p [] = Some (p, [], False)"
| "Start_v2 cr p (got # gots) =
     (case processNext_v2 cr p got of
        None \<Rightarrow> None
      | Some (p', calls, goOn) \<Rightarrow>
          (if \<not> goOn then Some (p', calls, True)
           else map_option (\<lambda>(p'', calls', returned). (p'', calls @ calls', returned)) (Start_v2 cr p' gots)))"

definition processNext_got_v1 :: "('pub, 'key) crypto \<Rightarrow> ('key, 'ec, 'auth) publisher_v1
    \<Rightarrow> (job \<times> ('auth \<Rightarrow> abi_value list \<Rightarrow> string + string)) option \<Rightarrow> job queue_call list \<times> bool" where
  "processNext_got_v1 cr p got =
     (case got of
        None \<Rightarrow> ([], False)
      | Some (j, send) \<Rightarrow> (processNext_v1 j (process_v1 cr p send j), True))"

fun Start_v1 :: "('pub, 'key) crypto \<Rightarrow> ('key, 'ec, 'auth) publisher_v1
    \<Rightarrow> (job \<times> ('auth \<Rightarrow> abi_value list \<Rightarrow> string + string)) option list \<Rightarrow> job queue_call list \<times> bool" where
  "Start_v1 cr p [] = ([], False)"
| "Start_v1 cr p (got # gots) =
     (case processNext_got_v1 cr p got of
        (calls, goOn) \<Rightarrow>
          (if \<not> goOn then (calls, True)
           else (case Start_v1 cr p gots of (calls', returned) \<Rightarrow> (calls @ calls', returned))))"

text \<open>The items that calls put on the queue.\<close>

fun adds_of :: "'i queue_call \<Rightarrow> 'i list" where
  "adds_of (QAdd i) = [i]"
| "adds_of (QAddRateLimited i) = [i]"
| "adds_of (QForget i) = []"
| "adds_of (QDone i) = []"

definition added :: "'i queue_call list \<Rightarrow> 'i list" where
  "added calls = concat (map adds_of calls)"

lemma added_append: "added (calls @ calls') = added calls @ added calls'"
  by (simp add: added_def)

fun done_of :: "'i queue_call \<Rightarrow> 'i list" where
  "done_of (QDone i) = [i]"
| "done_of call = []"

text \<open>
  What a queue asks of a worker, and both publishers keep: each item handed out is marked done exactly once,
  and it is added again unless its run is settled. \<open>after\<close> gives the calls made once a run has returned.
\<close>

locale worker_loop =
  fixes after :: "'i \<Rightarrow> 'res \<Rightarrow> 'i queue_call list"
    and settles :: "'res \<Rightarrow> bool"
  assumes marks_done: "concat (map done_of (after i res)) = [i]"
    and adds_again: "added (after i res) = (if settles res then [] else [i])"
begin

definition calls_of :: "('i \<times> 'res) list \<Rightarrow> 'i queue_call list" where
  "calls_of runs = concat (map (\<lambda>(i, res). after i res) runs)"

lemma calls_done: "concat (map done_of (calls_of runs)) = map fst runs"
  by (induction runs) (auto simp: calls_of_def marks_done)

lemma calls_added: "added (calls_of runs) = map fst (filter (\<lambda>(i, res). \<not> settles res) runs)"
  by (induction runs) (auto simp: calls_of_def added_append adds_again, simp add: added_def)

end

lemma added_processNextCalls:
  "added (processNextCalls wid res) = (if res = Inr False then [] else [wid])"
  by (auto simp: added_def processNextCalls_def split: sum.splits bool.splits)

interpretation loop2: worker_loop processNextCalls "\<lambda>res. res = Inr False"
  by unfold_locales
    (auto simp: added_def processNextCalls_def split: sum.splits bool.splits)

interpretation loop1: worker_loop processNext_v1 "\<lambda>res. \<exists>txHash. res = Inr txHash"
  by unfold_locales (auto simp: added_def processNext_v1_def split: sum.splits)

subsection \<open>The loop of the v2 publisher under interleaving\<close>

record ('key, 'tx) loop =
  lp_sys :: "('key, 'tx) sys"
  lp_item :: "hash32 option"
  lp_owed :: "hash32 set"
  lp_adding :: "hash32 list"

text \<open>The end of \<^verbatim>\<open>processNext\<close>: the calls on the queue, and the item is done.\<close>

definition finish :: "hash32 \<Rightarrow> 'tx outcome \<Rightarrow> ('key, 'tx) loop \<Rightarrow> ('key, 'tx) loop" where
  "finish wid res l =
     l\<lparr>lp_item := None, lp_owed := lp_owed l \<union> set (added (processNextCalls wid res))\<rparr>"

definition set_pc :: "'tx pc \<Rightarrow> ('key, 'tx) loop \<Rightarrow> ('key, 'tx) loop" where
  "set_pc pc l = l\<lparr>lp_sys := (lp_sys l)\<lparr>sy_pc := pc\<rparr>\<rparr>"

definition resumed :: "('key, 'tx) publisher_v2 \<Rightarrow> 'tx pc \<Rightarrow> 'tx response \<Rightarrow> ('key, 'tx) loop \<Rightarrow> ('key, 'tx) loop" where
  "resumed p' pc' r l =
     l\<lparr>lp_sys := \<lparr>sy_pub = p', sy_pc = pc', sy_hist = event_of (sy_pc (lp_sys l)) r @ sy_hist (lp_sys l)\<rparr>\<rparr>"

inductive worker_step :: "('pub, 'key) crypto \<Rightarrow> ('key, 'tx) loop \<Rightarrow> ('key, 'tx) loop \<Rightarrow> bool" for cr where
  add: "i \<in> set (lp_adding l) \<Longrightarrow>
     worker_step cr l (l\<lparr>lp_owed := insert i (lp_owed l), lp_adding := remove1 i (lp_adding l)\<rparr>)"
| get: "lp_item l = None \<Longrightarrow> wid \<in> lp_owed l \<Longrightarrow>
     worker_step cr l (l\<lparr>lp_item := Some wid, lp_owed := lp_owed l - {wid}\<rparr>)"
| start: "lp_item l = Some wid \<Longrightarrow> sy_pc (lp_sys l) = PIdle \<Longrightarrow>
     beginProcess (sy_pub (lp_sys l)) wid = (pc', None) \<Longrightarrow> worker_step cr l (set_pc pc' l)"
| skip: "lp_item l = Some wid \<Longrightarrow> sy_pc (lp_sys l) = PIdle \<Longrightarrow>
     beginProcess (sy_pub (lp_sys l)) wid = (pc', Some res) \<Longrightarrow> worker_step cr l (finish wid res (set_pc pc' l))"
| call: "lp_item l = Some wid \<Longrightarrow> resume cr (sy_pub (lp_sys l)) (sy_pc (lp_sys l)) r = Some (p', pc', None) \<Longrightarrow>
     worker_step cr l (resumed p' pc' r l)"
| return: "lp_item l = Some wid \<Longrightarrow> resume cr (sy_pub (lp_sys l)) (sy_pc (lp_sys l)) r = Some (p', pc', Some res) \<Longrightarrow>
     worker_step cr l (finish wid res (resumed p' pc' r l))"

inductive loop_step :: "('pub, 'key) crypto \<Rightarrow> ('key, 'tx) loop \<Rightarrow> ('key, 'tx) loop \<Rightarrow> bool" for cr where
  enqueue: "Enqueue (sy_pub (lp_sys l)) d = Inr (p', calls) \<Longrightarrow> pv_seq (sy_pub (lp_sys l)) + 1 \<noteq> 0 \<Longrightarrow>
     loop_step cr l (l\<lparr>lp_sys := (lp_sys l)\<lparr>sy_pub := p'\<rparr>, lp_adding := added calls @ lp_adding l\<rparr>)"
| worker: "worker_step cr l l' \<Longrightarrow> loop_step cr l l'"

definition loop_init :: "('key, 'tx) publisher_v2 \<Rightarrow> ('key, 'tx) loop" where
  "loop_init p0 =
     \<lparr>lp_sys = \<lparr>sy_pub = p0, sy_pc = PIdle, sy_hist = []\<rparr>, lp_item = None, lp_owed = {}, lp_adding = []\<rparr>"

inductive loop_reach :: "('pub, 'key) crypto \<Rightarrow> ('key, 'tx) publisher_v2 \<Rightarrow> ('key, 'tx) loop \<Rightarrow> bool" for cr p0 where
  init: "loop_reach cr p0 (loop_init p0)"
| step: "loop_reach cr p0 l \<Longrightarrow> loop_step cr l l' \<Longrightarrow> loop_reach cr p0 l'"

lemmas loop_ops = finish_def set_pc_def resumed_def

inductive_cases worker_stepE: "worker_step cr l l'"
inductive_cases loop_stepE: "loop_step cr l l'"

text \<open>The loop refines the system of worker and \<open>Enqueue\<close>: its steps are steps of that system, or stutter.\<close>

lemma loop_step_sys: "loop_step cr l l' \<Longrightarrow> lp_sys l' = lp_sys l \<or> step cr (lp_sys l) (lp_sys l')"
proof (induction rule: loop_step.induct)
  case (enqueue l d p' calls)
  then show ?case by (auto intro: step.enqueue)
next
  case (worker l l')
  then show ?case
  proof (cases rule: worker_step.cases)
    case (start wid pc')
    have "step cr (lp_sys l) ((lp_sys l)\<lparr>sy_pc := fst (beginProcess (sy_pub (lp_sys l)) wid)\<rparr>)"
      using start(3) by (rule step.start)
    with start show ?thesis by (simp add: loop_ops)
  next
    case (skip wid pc' res)
    have "step cr (lp_sys l) ((lp_sys l)\<lparr>sy_pc := fst (beginProcess (sy_pub (lp_sys l)) wid)\<rparr>)"
      using skip(3) by (rule step.start)
    with skip show ?thesis by (simp add: loop_ops)
  qed (auto simp: loop_ops intro: step.resume)
qed

lemma loop_reach_reach: "loop_reach cr p0 l \<Longrightarrow> reach cr p0 (lp_sys l)"
proof (induction rule: loop_reach.induct)
  case init
  show ?case by (simp add: loop_init_def reach.init)
next
  case (step l l')
  then show ?case using loop_step_sys [OF step.hyps(2)] by (auto intro: reach.step)
qed

lemma loop_wf: "loop_reach cr p0 l \<Longrightarrow> fresh_publisher p0 \<Longrightarrow> wf_inv (lp_sys l)"
  by (rule wf_inv_reach [OF loop_reach_reach])

subsection \<open>No unconfirmed revision is lost\<close>

text \<open>What a step of \<^verbatim>\<open>process\<close> that returns says: an error, or the outcome of a confirmation.\<close>

lemma resume_returns:
  assumes "resume cr p pc r = Some (p', pc', Some res)"
  obtains (failed) err where "res = Inl err"
  | (confirmed) wid rv again where "pc = PConfirm wid rv" "confirm p wid rv = (p', again)" "res = Inr again"
proof (cases pc)
  case (PLatest wid rv)
  with assms failed show ?thesis
    by (cases r) (auto simp: prepareOnce_def split: sum.splits if_splits option.splits)
next
  case (PWait wid rv tx)
  with assms failed show ?thesis by (cases r) (auto split: sum.splits wait_outcome.splits)
next
  case (PReconcile wid rv tx)
  with assms failed show ?thesis by (cases r) (auto split: sum.splits if_splits)
next
  case (PConfirm wid rv)
  with assms confirmed show ?thesis by (cases r) (auto split: prod.splits)
qed (use assms failed in \<open>cases r; auto split: sum.splits\<close>)+

lemma resume_returns_idle: "resume cr p pc r = Some (p', pc', Some res) \<Longrightarrow> pc' = PIdle"
  by (erule resume_SomeE)
    (auto simp: prepareOnce_def split: sum.splits if_splits option.splits prod.splits wait_outcome.splits)

lemma confirm_same_snapshot:
  assumes "confirm p wid rv = (p', False)" "pv_state p wid = Some st" "descends rv st"
  shows "snapshot p' wid = None"
  using assms by (auto simp: confirm_def snapshot_def descends_def Let_def split: if_splits)

lemma Enqueue_owes:
  assumes "Enqueue p d = Inr (p', calls)" "snapshot p' wid \<noteq> None"
  shows "snapshot p wid \<noteq> None \<or> wid \<in> set (added calls)"
proof -
  obtain w where w: "WorkloadID (ds_Identity d) = Inr w"
    using assms(1) by (auto simp: Enqueue_def split: sum.splits)
  show ?thesis
  proof (cases "w = wid")
    case False
    with assms w show ?thesis by (auto simp: Enqueue_def Let_def snapshot_def split: if_splits)
  next
    case True
    with assms w show ?thesis
      by (cases "pv_state p wid")
        (auto simp: Enqueue_def Let_def snapshot_def added_def zero_workload_state_def split: if_splits)
  qed
qed

lemma snapshot_cong: "pv_state p' wid = pv_state p wid \<Longrightarrow> snapshot p' wid = snapshot p wid"
  by (simp add: snapshot_def)

text \<open>Where the worker is, and that every unconfirmed revision is owed, about to be added, or in work.\<close>

definition unconfirmed :: "('key, 'tx) loop \<Rightarrow> hash32 set" where
  "unconfirmed l = {wid. snapshot (sy_pub (lp_sys l)) wid \<noteq> None}"

definition in_hand :: "('key, 'tx) loop \<Rightarrow> hash32 set" where
  "in_hand l = lp_owed l \<union> set (lp_adding l) \<union> set_option (lp_item l)"

definition loop_inv :: "('key, 'tx) loop \<Rightarrow> bool" where
  "loop_inv l \<longleftrightarrow>
     (lp_item l = None \<longrightarrow> sy_pc (lp_sys l) = PIdle)
     \<and> (\<forall>wid rv. pc_rev (sy_pc (lp_sys l)) = Some (wid, rv) \<longrightarrow> lp_item l = Some wid)
     \<and> finite (lp_owed l)
     \<and> unconfirmed l \<subseteq> in_hand l"

lemma loop_invD:
  assumes "loop_inv l"
  shows "lp_item l = None \<Longrightarrow> sy_pc (lp_sys l) = PIdle"
    and "pc_rev (sy_pc (lp_sys l)) = Some (wid, rv) \<Longrightarrow> lp_item l = Some wid"
    and "finite (lp_owed l)" and "unconfirmed l \<subseteq> in_hand l"
  using assms by (simp_all add: loop_inv_def)

text \<open>A step of \<^verbatim>\<open>process\<close> leaves other workloads alone.\<close>

lemma resumed_unconfirmed:
  assumes "loop_inv l" "lp_item l = Some wid"
    and res: "resume cr (sy_pub (lp_sys l)) (sy_pc (lp_sys l)) r = Some (p', pc', res)"
  shows "unconfirmed (resumed p' pc' r l) \<subseteq> insert wid (unconfirmed l)"
proof -
  obtain w rv where pc: "pc_rev (sy_pc (lp_sys l)) = Some (w, rv)" using resume_pc_rev [OF res] by blast
  then have "w = wid" using loop_invD(2) [OF assms(1) pc] assms(2) by simp
  then have "snapshot p' u = snapshot (sy_pub (lp_sys l)) u" if "u \<noteq> wid" for u
    using resume_other [OF res pc] that by (intro snapshot_cong) simp
  then show ?thesis by (auto simp: unconfirmed_def resumed_def)
qed

lemma returned_False:
  assumes inv: "loop_inv l" and wf: "wf_inv (lp_sys l)" and item: "lp_item l = Some wid"
    and res: "resume cr (sy_pub (lp_sys l)) (sy_pc (lp_sys l)) r = Some (p', pc', Some (Inr False))"
  shows "snapshot p' wid = None"
  using res
proof (cases rule: resume_returns)
  case (confirmed w rv again)
  then have w: "w = wid" using loop_invD(2) [OF inv, of w rv] item by simp
  have "pc_rev (sy_pc (lp_sys l)) = Some (wid, rv)" using confirmed(1) w by simp
  then obtain st where "pv_state (sy_pub (lp_sys l)) wid = Some st" "descends rv st"
    using wf unfolding wf_inv_def by blast
  moreover have "confirm (sy_pub (lp_sys l)) wid rv = (p', False)" using confirmed(2,3) w by simp
  ultimately show ?thesis by (intro confirm_same_snapshot)
qed simp

lemma loop_inv_return:
  assumes inv: "loop_inv l" and wf: "wf_inv (lp_sys l)" and item: "lp_item l = Some wid"
    and res: "resume cr (sy_pub (lp_sys l)) (sy_pc (lp_sys l)) r = Some (p', pc', Some res)"
  shows "loop_inv (finish wid res (resumed p' pc' r l))"
proof -
  let ?l = "finish wid res (resumed p' pc' r l)"
  have idle: "sy_pc (lp_sys ?l) = PIdle" using resume_returns_idle [OF res] by (simp add: loop_ops)
  have pub: "unconfirmed ?l = unconfirmed (resumed p' pc' r l)" by (simp add: unconfirmed_def finish_def)
  have own: "wid \<notin> unconfirmed ?l" if "res = Inr False"
    using returned_False [OF inv wf item] res that by (simp add: unconfirmed_def loop_ops)
  have "in_hand l - {wid} \<subseteq> in_hand ?l" by (auto simp: in_hand_def loop_ops item)
  moreover have "wid \<in> in_hand ?l" if "res \<noteq> Inr False"
    using that by (simp add: in_hand_def loop_ops added_processNextCalls)
  ultimately have "unconfirmed ?l \<subseteq> in_hand ?l"
    using resumed_unconfirmed [OF inv item res] own loop_invD(4) [OF inv] unfolding pub by blast
  moreover have "finite (lp_owed ?l)" using loop_invD(3) [OF inv] by (simp add: loop_ops)
  ultimately show ?thesis using idle by (simp add: loop_inv_def)
qed

lemma loop_inv_worker:
  assumes inv: "loop_inv l" and wf: "wf_inv (lp_sys l)" and step: "worker_step cr l l'"
  shows "loop_inv l'"
  using step
proof (cases rule: worker_step.cases)
  case (add i)
  have "x \<in> set (remove1 i (lp_adding l))" if "x \<in> set (lp_adding l)" "x \<noteq> i" for x
    using that by (simp add: in_set_remove1)
  then have "in_hand l \<subseteq> in_hand l'" by (auto simp: in_hand_def add(1))
  moreover have "unconfirmed l' = unconfirmed l" by (simp add: unconfirmed_def add(1))
  ultimately show ?thesis using inv by (auto simp: loop_inv_def add(1))
next
  case (get wid)
  then have "in_hand l' = in_hand l" "unconfirmed l' = unconfirmed l" by (auto simp: in_hand_def unconfirmed_def)
  with inv get show ?thesis by (auto simp: loop_inv_def)
next
  case (start wid pc')
  then have "pc_rev pc' = None \<or> (\<exists>rv. pc_rev pc' = Some (wid, rv))"
    by (auto simp: beginProcess_def split: option.splits)
  moreover have "in_hand l' = in_hand l" "unconfirmed l' = unconfirmed l"
    by (simp_all add: in_hand_def unconfirmed_def start(1) loop_ops)
  ultimately show ?thesis using inv start by (auto simp: loop_inv_def loop_ops)
next
  case (skip wid pc' res)
  then have none: "wid \<notin> unconfirmed l" and pc': "pc' = PIdle"
    by (auto simp: beginProcess_def unconfirmed_def split: option.splits)
  have "in_hand l \<subseteq> insert wid (in_hand l')" "unconfirmed l' = unconfirmed l"
    by (auto simp: in_hand_def unconfirmed_def skip(1,2) loop_ops)
  with none inv pc' show ?thesis by (auto simp: loop_inv_def loop_ops skip(1))
next
  case (call wid r p' pc')
  have "in_hand l' = in_hand l" by (simp add: in_hand_def call(1) loop_ops)
  moreover have "wid \<in> in_hand l" by (simp add: in_hand_def call(2))
  ultimately have "unconfirmed l' \<subseteq> in_hand l'"
    using resumed_unconfirmed [OF inv call(2,3)] loop_invD(4) [OF inv] call(1) by auto
  with resume_continues [OF call(3)] loop_invD(2,3) [OF inv] call(2) show ?thesis
    unfolding loop_inv_def call(1) by (simp add: loop_ops)
next
  case (return wid r p' pc' res)
  then show ?thesis using loop_inv_return [OF inv wf return(2,3)] by simp
qed

lemma loop_inv_enqueue:
  assumes "loop_inv l" and enq: "Enqueue (sy_pub (lp_sys l)) d = Inr (p', calls)"
  shows "loop_inv (l\<lparr>lp_sys := (lp_sys l)\<lparr>sy_pub := p'\<rparr>, lp_adding := added calls @ lp_adding l\<rparr>)"
    (is "loop_inv ?l")
proof -
  have "unconfirmed ?l \<subseteq> unconfirmed l \<union> set (added calls)"
    using Enqueue_owes [OF enq] by (auto simp: unconfirmed_def)
  moreover have "in_hand ?l = in_hand l \<union> set (added calls)" by (auto simp: in_hand_def)
  ultimately show ?thesis using assms(1) by (auto simp: loop_inv_def)
qed

lemma loop_inv_reach: "loop_reach cr p0 l \<Longrightarrow> fresh_publisher p0 \<Longrightarrow> loop_inv l"
proof (induction rule: loop_reach.induct)
  case init
  then show ?case by (simp add: loop_inv_def loop_init_def fresh_publisher_def snapshot_def unconfirmed_def)
next
  case (step l l')
  then have "loop_inv l" "wf_inv (lp_sys l)" using loop_wf by blast+
  from step.hyps(2) this show ?case
    by (cases rule: loop_step.cases) (auto intro: loop_inv_enqueue loop_inv_worker)
qed

subsection \<open>Steps and runs\<close>

text \<open>A run of \<^verbatim>\<open>process\<close>, and of \<^verbatim>\<open>processNext\<close>, is a sequence of worker steps.\<close>

lemma runProcess_steps:
  assumes "runProcess cr (sy_pub (lp_sys l)) (sy_pc (lp_sys l), None) rs = Some (p', res)" "lp_item l = Some wid"
  shows "\<exists>l'. (worker_step cr)\<^sup>*\<^sup>* l l' \<and> lp_item l' = None \<and> lp_adding l' = lp_adding l
     \<and> lp_owed l' = lp_owed l \<union> set (added (processNextCalls wid res)) \<and> sy_pub (lp_sys l') = p'"
  using assms
proof (induction rs arbitrary: l)
  case (Cons r rs)
  from Cons.prems obtain p1 pc1 res1 where
    res: "resume cr (sy_pub (lp_sys l)) (sy_pc (lp_sys l)) r = Some (p1, pc1, res1)"
    and run: "runProcess cr p1 (pc1, res1) rs = Some (p', res)"
    by (auto split: option.splits prod.splits)
  show ?case
  proof (cases res1)
    case (Some out)
    with run have "p' = p1" "res = out" by (simp_all split: if_splits)
    moreover have "worker_step cr l (finish wid out (resumed p1 pc1 r l))"
      using worker_step.return Cons.prems(2) res Some by blast
    ultimately show ?thesis by (intro exI [of _ "finish wid out (resumed p1 pc1 r l)"]) (auto simp: loop_ops)
  next
    case None
    then have "worker_step cr l (resumed p1 pc1 r l)" using worker_step.call Cons.prems(2) res by blast
    moreover obtain l' where "(worker_step cr)\<^sup>*\<^sup>* (resumed p1 pc1 r l) l'" "lp_item l' = None"
      "lp_adding l' = lp_adding l" "lp_owed l' = lp_owed l \<union> set (added (processNextCalls wid res))"
      "sy_pub (lp_sys l') = p'"
      using Cons.IH [of "resumed p1 pc1 r l"] run None Cons.prems(2) by (auto simp: loop_ops)
    ultimately show ?thesis by (intro exI [of _ l']) (auto intro: converse_rtranclp_into_rtranclp)
  qed
qed simp

lemma processNext_steps:
  assumes run: "processNext_v2 cr (sy_pub (lp_sys l)) (Some (wid, rs)) = Some (p', calls, True)"
    and idle: "lp_item l = None" "sy_pc (lp_sys l) = PIdle" and owed: "wid \<in> lp_owed l"
  shows "\<exists>l'. (worker_step cr)\<^sup>*\<^sup>* l l' \<and> lp_item l' = None \<and> lp_adding l' = lp_adding l
     \<and> lp_owed l' = (lp_owed l - {wid}) \<union> set (added calls) \<and> sy_pub (lp_sys l') = p'"
proof -
  define l1 where "l1 = l\<lparr>lp_item := Some wid, lp_owed := lp_owed l - {wid}\<rparr>"
  obtain res where proc: "process cr (sy_pub (lp_sys l)) wid rs = Some (p', res)"
    and calls: "calls = processNextCalls wid res"
    using run by (auto simp: processNext_v2_def split: option.splits prod.splits)
  have get: "worker_step cr l l1" unfolding l1_def using idle(1) owed by (rule worker_step.get)
  show ?thesis
  proof (cases "beginProcess (sy_pub (lp_sys l)) wid")
    case (Pair pc' out)
    show ?thesis
    proof (cases out)
      case None
      define l2 where "l2 = set_pc pc' l1"
      have "worker_step cr l1 l2"
        unfolding l2_def by (rule worker_step.start [of _ wid]) (simp_all add: l1_def idle Pair None)
      with get have "(worker_step cr)\<^sup>*\<^sup>* l l2" by simp
      moreover obtain l' where "(worker_step cr)\<^sup>*\<^sup>* l2 l'" "lp_item l' = None" "lp_adding l' = lp_adding l"
        "lp_owed l' = (lp_owed l - {wid}) \<union> set (added (processNextCalls wid res))" "sy_pub (lp_sys l') = p'"
        using runProcess_steps [of cr l2 rs p' res wid] proc Pair None
        by (auto simp: l2_def l1_def set_pc_def process_def)
      ultimately show ?thesis unfolding calls by (intro exI [of _ l']) (auto intro: rtranclp_trans)
    next
      case (Some r)
      with proc Pair have "p' = sy_pub (lp_sys l)" "res = r" by (simp_all add: process_def split: if_splits)
      moreover have "worker_step cr l1 (finish wid r (set_pc pc' l1))"
        by (rule worker_step.skip) (simp_all add: l1_def idle Pair Some)
      ultimately show ?thesis
        using get by (intro exI [of _ "finish wid r (set_pc pc' l1)"]) (auto simp: loop_ops l1_def calls)
    qed
  qed
qed

text \<open>When the queue owes nothing and the worker waits, every desired revision is confirmed.\<close>

lemma drained_confirmed:
  assumes "loop_reach cr p0 l" "fresh_publisher p0" "lp_item l = None" "lp_adding l = []" "lp_owed l = {}"
    and st: "pv_state (sy_pub (lp_sys l)) wid = Some st"
  shows "ws_confirmed st = Some (ws_key st)"
proof -
  have "in_hand l = {}" using assms(3-5) by (simp add: in_hand_def)
  then have "snapshot (sy_pub (lp_sys l)) wid = None"
    using loop_invD(4) [OF loop_inv_reach [OF assms(1,2)]] by (auto simp: unconfirmed_def)
  moreover have "ws_seq st \<noteq> 0" using loop_wf [OF assms(1,2)] st by (auto simp: wf_inv_def rev_ok_def)
  ultimately show ?thesis using st by (auto simp: snapshot_def split: if_splits)
qed

subsection \<open>Runs of the loops until shutdown\<close>

text \<open>\<^verbatim>\<open>Start\<close> returns exactly when the queue reports its shutdown.\<close>

lemma Start_v2_returns:
  "Start_v2 cr p gots = Some (p', calls, returned) \<Longrightarrow> returned \<longleftrightarrow> None \<in> set gots"
  by (induction gots arbitrary: p calls p')
    (auto simp: processNext_v2_def split: option.splits prod.splits if_splits)

lemma Start_v1_returns: "snd (Start_v1 cr p gots) \<longleftrightarrow> None \<in> set gots"
  by (induction gots) (auto simp: processNext_got_v1_def split: option.splits prod.splits)

text \<open>The items handed out before the shutdown, each with the result of its run.\<close>

fun runs_v1 :: "('pub, 'key) crypto \<Rightarrow> ('key, 'ec, 'auth) publisher_v1
    \<Rightarrow> (job \<times> ('auth \<Rightarrow> abi_value list \<Rightarrow> string + string)) option list \<Rightarrow> (job \<times> (v1_error + string)) list" where
  "runs_v1 cr p (Some (j, send) # gots) = (j, process_v1 cr p send j) # runs_v1 cr p gots"
| "runs_v1 cr p gots = []"

lemma Start_v1_calls: "fst (Start_v1 cr p gots) = loop1.calls_of (runs_v1 cr p gots)"
  by (induction cr p gots rule: runs_v1.induct)
    (auto simp: processNext_got_v1_def loop1.calls_of_def split: prod.splits)

lemma Start_v2_calls:
  fixes p :: "('key, 'tx) publisher_v2"
  shows "Start_v2 cr p gots = Some (p', calls, returned) \<Longrightarrow>
    \<exists>results :: (hash32 \<times> 'tx outcome) list. calls = loop2.calls_of results
      \<and> map fst results = map (fst \<circ> the) (takeWhile (\<lambda>got. got \<noteq> None) gots)"
proof (induction gots arbitrary: p calls)
  case Nil
  then show ?case by (intro exI [of _ "[]"]) (simp add: loop2.calls_of_def)
next
  case (Cons got gots)
  show ?case
  proof (cases got)
    case None
    with Cons.prems show ?thesis
      by (intro exI [of _ "[]"]) (simp add: processNext_v2_def loop2.calls_of_def)
  next
    case (Some x)
    obtain i rs where x: "x = (i, rs)" by fastforce
    from Cons.prems obtain p1 res calls' where "process cr p i rs = Some (p1, res)"
      "Start_v2 cr p1 gots = Some (p', calls', returned)" "calls = processNextCalls i res @ calls'"
      by (auto simp: processNext_v2_def Some x split: option.splits prod.splits)
    moreover from Cons.IH [OF this(2)] obtain results :: "(hash32 \<times> 'tx outcome) list" where "calls' = loop2.calls_of results"
      "map fst results = map (fst \<circ> the) (takeWhile (\<lambda>got. got \<noteq> None) gots)" by blast
    ultimately show ?thesis
      by (intro exI [of _ "(i, res) # results"]) (simp add: Some x loop2.calls_of_def)
  qed
qed

text \<open>Every item handed out is marked done, once and in order; in v1 exactly the failed jobs are owed again.\<close>

lemma Start_v1_owes:
  "concat (map done_of (fst (Start_v1 cr p gots))) = map fst (runs_v1 cr p gots)"
  "added (fst (Start_v1 cr p gots)) = map fst (filter (\<lambda>(j, res). \<not> (\<exists>txHash. res = Inr txHash)) (runs_v1 cr p gots))"
  by (simp_all add: Start_v1_calls loop1.calls_done loop1.calls_added)

lemma Start_v2_done:
  "Start_v2 cr p gots = Some (p', calls, returned) \<Longrightarrow>
    concat (map done_of calls) = map (fst \<circ> the) (takeWhile (\<lambda>got. got \<noteq> None) gots)"
  using Start_v2_calls loop2.calls_done by metis

subsection \<open>Properties of the loop\<close>

text \<open>
  C5: no unconfirmed revision is lost. However \<open>Enqueue\<close> calls and the steps of the worker interleave, and
  whatever fails, a workload whose latest desired revision is not confirmed is owed by the queue, about to be
  added to it by an \<open>Enqueue\<close> that has released the lock, or in the hands of the worker. So a publish that
  fails, an outcome that stays unknown and a revision that arrives during a confirmation all lead to another
  run.
\<close>

theorem no_lost_work:
  assumes "loop_reach cr p0 l" "fresh_publisher p0" "snapshot (sy_pub (lp_sys l)) wid = Some rv"
  shows "wid \<in> lp_owed l \<or> wid \<in> set (lp_adding l) \<or> lp_item l = Some wid"
proof -
  have "wid \<in> unconfirmed l" using assms(3) by (simp add: unconfirmed_def)
  then have "wid \<in> in_hand l" using loop_invD(4) [OF loop_inv_reach [OF assms(1,2)]] by blast
  then show ?thesis by (auto simp: in_hand_def)
qed

definition enqueued_loop :: "(unit, nat) loop" where
  "enqueued_loop =
     \<lparr>lp_sys = \<lparr>sy_pub = enqueued_pub, sy_pc = PIdle, sy_hist = []\<rparr>, lp_item = None, lp_owed = {},
      lp_adding = [web_id]\<rparr>"

lemma enqueued_loop_reach: "loop_reach accept_all pub0 enqueued_loop"
proof -
  have "Enqueue pub0 (web_desired 7) = Inr (enqueued_pub, [QAdd web_id])"
    by (simp add: enqueued_pub_def publisher_eval)
  then have "loop_step accept_all (loop_init pub0) enqueued_loop"
    using loop_step.enqueue [of "loop_init pub0" "web_desired 7" enqueued_pub "[QAdd web_id]" accept_all]
    by (simp add: loop_init_def enqueued_loop_def added_def pub0_def)
  with loop_reach.init show ?thesis by (rule loop_reach.step)
qed

theorem no_lost_work_witness:
  "loop_reach accept_all pub0 enqueued_loop \<and> snapshot (sy_pub (lp_sys enqueued_loop)) web_id \<noteq> None
   \<and> (web_id \<in> lp_owed enqueued_loop \<or> web_id \<in> set (lp_adding enqueued_loop) \<or> lp_item enqueued_loop = Some web_id)"
proof -
  obtain rv where "snapshot (sy_pub (lp_sys enqueued_loop)) web_id = Some rv"
    using enqueued_snapshot by (auto simp: enqueued_loop_def)
  with no_lost_work [OF enqueued_loop_reach start_sys_reach(2) this] enqueued_loop_reach show ?thesis by blast
qed

text \<open>
  C32: a good run is the last one. From any unconfirmed revision (fresh, signed, or with a transaction already
  prepared), when the chain holds no matching record and the calls still to be made succeed, \<^verbatim>\<open>processNext\<close>
  signs only if there is no signature, prepares only if there is no transaction, confirms the revision, drops
  its transaction, keeps its signature, leaves every other workload untouched, and forgets the item without
  adding it again; the next \<^verbatim>\<open>processNext\<close> on it makes no call at all.
\<close>

theorem processNext_publishes:
  assumes "snapshot p wid = Some rv" "\<not> matches cr p rv oc"
    and "envelope_SigningDigest (envelopeFor (ws_desired rv)) = Inr digest"
  shows "\<exists>p'. processNext_v2 cr p (Some (wid, good_answers rv oc sig tx sent)) = Some (p', [QForget wid, QDone wid], True)
     \<and> pv_state p' = (pv_state p)(wid \<mapsto> rv\<lparr>ws_signature :=
            if ws_signature rv = None \<and> ws_prepared rv = None then Some sig else ws_signature rv,
            ws_confirmed := Some (ws_key rv), ws_prepared := None\<rparr>)
     \<and> processNext_v2 cr p' (Some (wid, [])) = Some (p', [QForget wid, QDone wid], True)"
proof -
  from process_publishes [OF assms, of sig tx sent] obtain p' where
    "process cr p wid (good_answers rv oc sig tx sent) = Some (p', Inr False)" and none: "snapshot p' wid = None"
    and st: "pv_state p' = (pv_state p)(wid \<mapsto> rv\<lparr>ws_signature :=
            if ws_signature rv = None \<and> ws_prepared rv = None then Some sig else ws_signature rv,
            ws_confirmed := Some (ws_key rv), ws_prepared := None\<rparr>)"
    by blast
  moreover have "process cr p' wid [] = Some (p', Inr False)"
    by (simp add: process_def beginProcess_def none)
  ultimately show ?thesis
    by (intro exI [of _ p']) (simp add: processNext_v2_def processNextCalls_def)
qed

theorem processNext_publishes_witness:
  "\<exists>p' rv. snapshot enqueued_pub web_id = Some rv
     \<and> processNext_v2 accept_all enqueued_pub (Some (web_id, good_answers rv no_record ''sig'' 1 SendUnknown))
       = Some (p', [QForget web_id, QDone web_id], True)"
proof -
  obtain rv where rv: "snapshot enqueued_pub web_id = Some rv" "ws_desired rv = web_desired 7"
    using enqueued_snapshot by blast
  obtain digest where "envelope_SigningDigest (envelopeFor (ws_desired rv)) = Inr digest"
    using web_digest rv(2) by auto
  moreover have "\<not> matches accept_all enqueued_pub rv no_record" by (simp add: matches_def no_record_def)
  ultimately show ?thesis
    using processNext_publishes [OF rv(1), of accept_all no_record digest "''sig''" 1 SendUnknown] rv(1) by blast
qed

end
