(* ===== verification/Controller.thy ===== *)
theory Controller
  imports Publisher_V1
begin

section \<open>The Deployment reconciler: deployment\_controller.go\<close>

text \<open>
  \<^verbatim>\<open>internal/controller/deployment_controller.go\<close>: what the operator does when it is woken for a
  Deployment. Its state is the deduplication map \<^verbatim>\<open>lastAttested\<close>; what the API server answers to \<^verbatim>\<open>Get\<close>
  is an argument, and what \<^verbatim>\<open>Reconcile\<close> hands to the publisher is the list of calls on its queue. A
  reconcile that returns an error or panics changes nothing and enqueues nothing. The mutex of the code
  makes each of the three accesses to the map atomic; controller-runtime never reconciles one object
  twice at the same time.

  The lemmas give the jobs of a whole stream of reconciles, over any interleaving of Deployments,
  deletions and failed reads: exactly the changes of each Deployment's observed hash.
\<close>

record reconciler =
  dr_lastAttested :: "(hash32 \<rightharpoonup> hash32) option"

text \<open>\<open>rq_String\<close> is what \<^verbatim>\<open>req.NamespacedName.String()\<close> prints.\<close>

record ctrl_request =
  rq_Namespace :: string
  rq_Name :: string
  rq_String :: string

datatype get_error = GetNotFound | GetFailed string
datatype reconcile_error = ErrRead string | PanicNilMap

subsection \<open>The deduplication map\<close>

text \<open>A Go map may be nil (\<open>None\<close>): reading and deleting are fine, writing panics.\<close>

definition alreadyAttested :: "reconciler \<Rightarrow> hash32 \<Rightarrow> hash32 \<Rightarrow> bool" where
  "alreadyAttested r i h =
     (case dr_lastAttested r of
        None \<Rightarrow> False
      | Some m \<Rightarrow> (case m i of None \<Rightarrow> False | Some prev \<Rightarrow> prev = h))"

definition recordAttested :: "reconciler \<Rightarrow> hash32 \<Rightarrow> hash32 \<Rightarrow> reconcile_error + reconciler" where
  "recordAttested r i h =
     (case dr_lastAttested r of
        None \<Rightarrow> Inl PanicNilMap
      | Some m \<Rightarrow> Inr (r\<lparr>dr_lastAttested := Some (m(i \<mapsto> h))\<rparr>))"

definition forgetAttested :: "reconciler \<Rightarrow> hash32 \<Rightarrow> reconciler" where
  "forgetAttested r i =
     (case dr_lastAttested r of
        None \<Rightarrow> r
      | Some m \<Rightarrow> r\<lparr>dr_lastAttested := Some (m(i := None))\<rparr>)"

text \<open>Go's comparison of \<^verbatim>\<open>int64\<close> generations is signed.\<close>

definition rolloutConverged :: "'k deployment \<Rightarrow> bool" where
  "rolloutConverged d =
     (if sint (st_ObservedGeneration (d_Status d)) < sint (d_Generation d) then False
      else (let desired = (case d_Replicas d of None \<Rightarrow> 1 | Some n \<Rightarrow> n);
                s = d_Status d
            in st_UpdatedReplicas s = desired \<and> st_ReadyReplicas s = desired
               \<and> st_AvailableReplicas s = desired \<and> st_Replicas s = desired))"

text \<open>\<open>built\<close> is what building the controller on the manager returns.\<close>

definition SetupWithManager :: "reconciler \<Rightarrow> string option \<Rightarrow> reconciler \<times> string option" where
  "SetupWithManager r built =
     (case dr_lastAttested r of
        None \<Rightarrow> (r\<lparr>dr_lastAttested := Some Map.empty\<rparr>, built)
      | Some m \<Rightarrow> (r, built))"

subsection \<open>Reconcile\<close>

definition Reconcile :: "'k lib \<Rightarrow> reconciler \<Rightarrow> ctrl_request \<Rightarrow> get_error + 'k deployment
    \<Rightarrow> reconcile_error + reconciler \<times> job queue_call list" where
  "Reconcile lib r req get =
     (let i = DeploymentID (rq_Namespace req) (rq_Name req)
      in case get of
           Inl GetNotFound \<Rightarrow> Inr (forgetAttested r i, [])
         | Inl (GetFailed err) \<Rightarrow> Inl (ErrRead err)
         | Inr dep \<Rightarrow>
             (if \<not> rolloutConverged dep then Inr (r, [])
              else case ConfigHashForVersion lib CurrentVersion dep of
                  Inl err \<Rightarrow> Inr (r, [])
                | Inr configHash \<Rightarrow>
                    (if alreadyAttested r i configHash then Inr (r, [])
                     else bindE (recordAttested r i configHash) (\<lambda>r.
                       Inr (r, Enqueue_v1 \<lparr>j_DeploymentID = i, j_Version = CurrentVersion,
                                j_ConfigHash = configHash, j_NamespacedName = rq_String req\<rparr>)))))"

text \<open>A stream of reconciles, each with what the API server answered.\<close>

definition reconcile_step :: "'k lib \<Rightarrow> reconciler \<times> job queue_call list
    \<Rightarrow> ctrl_request \<times> (get_error + 'k deployment) \<Rightarrow> reconciler \<times> job queue_call list" where
  "reconcile_step lib st ev =
     (case Reconcile lib (fst st) (fst ev) (snd ev) of
        Inl err \<Rightarrow> st
      | Inr (r, calls) \<Rightarrow> (r, snd st @ calls))"

definition reconcile_all :: "'k lib \<Rightarrow> reconciler \<Rightarrow> (ctrl_request \<times> (get_error + 'k deployment)) list
    \<Rightarrow> reconciler \<times> job queue_call list" where
  "reconcile_all lib r evs = foldl (reconcile_step lib) (r, []) evs"

subsection \<open>What is observed of a Deployment\<close>

text \<open>
  What one reconcile observes about the Deployment \<open>i\<close>: nothing (it concerns another Deployment, the read
  failed, the rollout is under way, or the object cannot be hashed), that it is gone, or its hash.
\<close>

definition observe :: "'k lib \<Rightarrow> hash32 \<Rightarrow> ctrl_request \<times> (get_error + 'k deployment) \<Rightarrow> hash32 option option" where
  "observe lib i ev =
     (if DeploymentID (rq_Namespace (fst ev)) (rq_Name (fst ev)) \<noteq> i then None
      else case snd ev of
          Inl GetNotFound \<Rightarrow> Some None
        | Inl (GetFailed err) \<Rightarrow> None
        | Inr dep \<Rightarrow>
            (if rolloutConverged dep
             then case ConfigHashForVersion lib CurrentVersion dep of Inl err \<Rightarrow> None | Inr h \<Rightarrow> Some (Some h)
             else None))"

definition observed :: "'k lib \<Rightarrow> hash32 \<Rightarrow> (ctrl_request \<times> (get_error + 'k deployment)) list \<Rightarrow> hash32 option list" where
  "observed lib i evs = List.map_filter (observe lib i) evs"

fun added_for :: "hash32 \<Rightarrow> job queue_call list \<Rightarrow> hash32 list" where
  "added_for i [] = []"
| "added_for i (QAdd j # cs) = (if j_DeploymentID j = i then [j_ConfigHash j] else []) @ added_for i cs"
| "added_for i (c # cs) = added_for i cs"

lemma added_for_append [simp]: "added_for i (cs @ ds) = added_for i cs @ added_for i ds"
  by (induction i cs rule: added_for.induct) simp_all

text \<open>The entry of a Deployment, its abstract state.\<close>

definition last_of :: "reconciler \<Rightarrow> hash32 \<Rightarrow> hash32 option" where
  "last_of r i = (case dr_lastAttested r of None \<Rightarrow> None | Some m \<Rightarrow> m i)"

definition ready :: "reconciler \<Rightarrow> bool" where
  "ready r \<longleftrightarrow> dr_lastAttested r \<noteq> None"

text \<open>One reconcile moves the entry to what was observed and adds a job when that is a new hash.\<close>

lemma map_access:
  assumes "ready r"
  shows "alreadyAttested r i h \<longleftrightarrow> last_of r i = Some h"
    "\<exists>r'. recordAttested r i h = Inr r' \<and> ready r' \<and> (\<forall>k. last_of r' k = (if k = i then Some h else last_of r k))"
    "ready (forgetAttested r i)" "last_of (forgetAttested r i) k = (if k = i then None else last_of r k)"
  using assms
  by (auto simp: ready_def alreadyAttested_def recordAttested_def forgetAttested_def last_of_def split: option.splits)

lemma Reconcile_abs:
  assumes "ready r"
  shows "(\<exists>e. Reconcile lib r req get = Inl (ErrRead e)) \<and> observe lib i (req, get) = None
     \<or> (\<exists>r' calls. Reconcile lib r req get = Inr (r', calls) \<and> ready r'
          \<and> last_of r' i = (case observe lib i (req, get) of None \<Rightarrow> last_of r i | Some x \<Rightarrow> x)
          \<and> added_for i calls =
              (case observe lib i (req, get) of Some (Some h) \<Rightarrow> if last_of r i = Some h then [] else [h] | _ \<Rightarrow> []))"
proof (cases get)
  case (Inl e)
  then show ?thesis
    by (cases e) (simp_all add: Reconcile_def Let_def observe_def assms map_access)
next
  case get: (Inr dep)
  let ?i = "DeploymentID (rq_Namespace req) (rq_Name req)"
  show ?thesis
  proof (cases "rolloutConverged dep")
    case False
    with get show ?thesis by (simp add: Reconcile_def Let_def observe_def assms)
  next
    case conv: True
    show ?thesis
    proof (cases "ConfigHashForVersion lib CurrentVersion dep")
      case (Inl e)
      with get conv show ?thesis by (simp add: Reconcile_def Let_def observe_def assms)
    next
      case (Inr h)
      note eval = Reconcile_def Let_def observe_def get conv Inr map_access(1) [OF assms]
      obtain r' where r': "recordAttested r ?i h = Inr r'" "ready r'"
          "\<And>k. last_of r' k = (if k = ?i then Some h else last_of r k)"
        using map_access(2) [OF assms] by blast
      show ?thesis
      proof (cases "last_of r ?i = Some h")
        case True
        then show ?thesis by (auto simp: eval assms)
      next
        case False
        then show ?thesis by (auto simp: eval r' Enqueue_v1_def)
      qed
    qed
  qed
qed

lemma reconcile_step_abs:
  assumes "ready r" "reconcile_step lib (r, cs) ev = (r', cs')"
  shows "ready r'"
    and "last_of r' i = (case observe lib i ev of None \<Rightarrow> last_of r i | Some x \<Rightarrow> x)"
    and "added_for i cs' = added_for i cs @
      (case observe lib i ev of Some (Some h) \<Rightarrow> if last_of r i = Some h then [] else [h] | _ \<Rightarrow> [])"
proof -
  obtain req get where ev: "ev = (req, get)" by fastforce
  note cases = Reconcile_abs [OF assms(1), of lib req get]
  have step: "reconcile_step lib (r, cs) (req, get) = (r', cs')" using assms(2) ev by simp
  show "ready r'" using cases [of 0] step assms(1) by (auto simp: reconcile_step_def)
  show "last_of r' i = (case observe lib i ev of None \<Rightarrow> last_of r i | Some x \<Rightarrow> x)"
    using cases [of i] step unfolding ev by (auto simp: reconcile_step_def)
  show "added_for i cs' = added_for i cs @
      (case observe lib i ev of Some (Some h) \<Rightarrow> if last_of r i = Some h then [] else [h] | _ \<Rightarrow> [])"
    using cases [of i] step unfolding ev by (auto simp: reconcile_step_def)
qed

text \<open>The sequence of changes of a list of observations, from a given start.\<close>

definition changes :: "hash32 option \<Rightarrow> hash32 option list \<Rightarrow> hash32 list" where
  "changes s obs = List.map_filter (\<lambda>x. x) (tl (remdups_adj (s # obs)))"

lemma changes_Nil [simp]: "changes s [] = []"
  by (simp add: changes_def map_filter_simps)

lemma changes_Cons:
  "changes s (x # obs) = (case x of Some h \<Rightarrow> if s = Some h then [] else [h] | None \<Rightarrow> []) @ changes x obs"
proof -
  obtain t where t: "remdups_adj (x # obs) = x # t"
    by (metis remdups_adj_Cons_alt)
  then have "remdups_adj (s # x # obs) = (if s = x then [] else [s]) @ x # t"
    by simp
  with t show ?thesis by (auto simp only: changes_def map_filter_simps split: option.splits if_splits) simp_all
qed

lemma reconcile_all_from:
  assumes "ready r" "foldl (reconcile_step lib) (r, cs) evs = (r', cs')"
  shows "ready r' \<and> added_for i cs' = added_for i cs @ changes (last_of r i) (observed lib i evs)
     \<and> last_of r' i = last (last_of r i # observed lib i evs)"
  using assms
proof (induction evs arbitrary: r cs)
  case Nil
  then show ?case by (simp add: observed_def map_filter_simps)
next
  case (Cons ev evs)
  obtain r1 cs1 where step: "reconcile_step lib (r, cs) ev = (r1, cs1)" by fastforce
  note abs = reconcile_step_abs [OF Cons.prems(1) step]
  from Cons.IH [OF abs(1)] Cons.prems(2) step
  have IH: "ready r' \<and> added_for i cs' = added_for i cs1 @ changes (last_of r1 i) (observed lib i evs)
      \<and> last_of r' i = last (last_of r1 i # observed lib i evs)" by simp
  show ?case
  proof (cases "observe lib i ev")
    case None
    with IH abs(2,3) [of i] show ?thesis by (simp add: observed_def map_filter_simps)
  next
    case (Some x)
    with IH abs(2,3) [of i] show ?thesis
      by (simp add: observed_def map_filter_simps changes_Cons split: option.splits)
  qed
qed

subsection \<open>Properties of the reconciler\<close>

text \<open>
  C14: over any stream of reconciles, of any Deployments in any order, with deletions, failed reads and
  rollouts under way, the jobs enqueued for a Deployment are exactly the changes of its observed hash:
  each converged observation that differs from the one before it is enqueued once, in order, a repeated
  one is not, and an observed deletion makes the next observation new again. The reconciler never
  panics once it is set up.
\<close>

theorem reconcile_enqueues_changes:
  assumes "SetupWithManager \<lparr>dr_lastAttested = None\<rparr> built = (r, err)"
  shows "added_for i (snd (reconcile_all lib r evs)) = changes None (observed lib i evs)
     \<and> (\<forall>req get. Reconcile lib (fst (reconcile_all lib r evs)) req get \<noteq> Inl PanicNilMap)"
proof -
  have r: "ready r" "last_of r i = None"
    using assms by (auto simp: SetupWithManager_def ready_def last_of_def)
  obtain r' cs' where run: "reconcile_all lib r evs = (r', cs')" by fastforce
  then have all: "ready r' \<and> added_for i cs' = changes None (observed lib i evs)"
    using reconcile_all_from [OF r(1), of lib "[]" evs r' cs' i] r(2) by (simp add: reconcile_all_def)
  then have "Reconcile lib r' req get \<noteq> Inl PanicNilMap" for req get
    using Reconcile_abs [of r' lib req get i] by auto
  with all run show ?thesis by simp
qed

definition web_request :: ctrl_request where
  "web_request = \<lparr>rq_Namespace = ''default'', rq_Name = ''web'', rq_String = ''default/web''\<rparr>"

definition web_up :: "unit deployment" where
  "web_up = (one_container ''default'' ''web'' (nginx ''nginx:1.25''))
     \<lparr>d_Status := \<lparr>st_ObservedGeneration = 0, st_Replicas = 1, st_UpdatedReplicas = 1, st_ReadyReplicas = 1,
         st_AvailableReplicas = 1\<rparr>\<rparr>"

lemma web_up_converged: "rolloutConverged web_up"
  by (simp add: rolloutConverged_def web_up_def one_container_def zero_defs)

lemma web_up_hash: "ConfigHashForVersion plain_lib CurrentVersion web_up = Inr (Sum256 (v1_bytes plain_lib web_up))"
  by (simp add: ConfigHashForVersion_def CurrentVersion_def ConfigHash_v1_bytes)

definition web_story :: "(ctrl_request \<times> (get_error + unit deployment)) list" where
  "web_story = [(web_request, Inr web_up), (web_request, Inr web_up), (web_request, Inl (GetFailed ''timeout'')),
     (web_request, Inr web_up), (web_request, Inl GetNotFound), (web_request, Inr web_up)]"

theorem reconcile_enqueues_changes_witness:
  "added_for (DeploymentID ''default'' ''web'') (snd (reconcile_all plain_lib \<lparr>dr_lastAttested = Some Map.empty\<rparr> web_story))
   = [Sum256 (v1_bytes plain_lib web_up), Sum256 (v1_bytes plain_lib web_up)]"
proof -
  have s: "SetupWithManager \<lparr>dr_lastAttested = None\<rparr> None = (\<lparr>dr_lastAttested = Some Map.empty\<rparr>, None)"
    by (simp add: SetupWithManager_def)
  show ?thesis
    using reconcile_enqueues_changes [OF s, of "DeploymentID ''default'' ''web''" plain_lib web_story]
    by (simp add: observed_def web_story_def observe_def web_request_def map_filter_simps changes_Cons
        web_up_converged web_up_hash)
qed

text \<open>
  A job is only ever enqueued for a converged rollout: the API server returned the Deployment, its
  controller has observed the current generation (a signed comparison), and updated, ready, available
  and total replicas all equal the desired number, one when the field is absent. The job then carries
  the version and hash of exactly that object under the id of its name.
\<close>

lemma Reconcile_enqueues_converged:
  assumes "Reconcile lib r req get = Inr (r', QAdd j # calls)"
  shows "\<exists>dep. get = Inr dep \<and> sint (d_Generation dep) \<le> sint (st_ObservedGeneration (d_Status dep))
     \<and> (\<forall>n \<in> {st_UpdatedReplicas (d_Status dep), st_ReadyReplicas (d_Status dep), st_AvailableReplicas (d_Status dep),
           st_Replicas (d_Status dep)}. n = (case d_Replicas dep of None \<Rightarrow> 1 | Some m \<Rightarrow> m))
     \<and> ConfigHashForVersion lib (j_Version j) dep = Inr (j_ConfigHash j)
     \<and> j_DeploymentID j = DeploymentID (rq_Namespace req) (rq_Name req)
     \<and> calls = [] \<and> r' = r\<lparr>dr_lastAttested := Some ((the (dr_lastAttested r))(j_DeploymentID j \<mapsto> j_ConfigHash j))\<rparr>"
  using assms
  by (auto simp: Reconcile_def Let_def rolloutConverged_def recordAttested_def Enqueue_v1_def
      split: sum.splits option.splits if_splits get_error.splits)

end
