(* ===== verification/Build_Info.thy ===== *)
theory Build_Info
  imports Go_Json
begin

section \<open>Build identity: buildinfo.go\<close>

text \<open>
  \<^verbatim>\<open>internal/buildinfo/buildinfo.go\<close>: the version line of both commands. The three variables the linker sets
  are a record; what \<^verbatim>\<open>debug.ReadBuildInfo\<close> returns, the list of build settings or nothing, is an argument.
\<close>

record build_vars =
  bv_Version :: string
  bv_Commit :: string
  bv_Date :: string

definition unstamped :: build_vars where
  "unstamped = \<lparr>bv_Version = ''dev'', bv_Commit = [], bv_Date = []\<rparr>"

text \<open>One round of the loop over the settings, on the pair of revision and dirty flag.\<close>

definition scan_setting :: "string \<times> bool \<Rightarrow> string \<times> string \<Rightarrow> string \<times> bool" where
  "scan_setting acc kv =
     (case acc of (rv, dirty) \<Rightarrow>
        if fst kv = ''vcs.revision'' then (snd kv, dirty)
        else if fst kv = ''vcs.modified'' then (rv, snd kv = ''true'')
        else (rv, dirty))"

definition revision :: "build_vars \<Rightarrow> (string \<times> string) list option \<Rightarrow> string" where
  "revision v info =
     (if bv_Commit v \<noteq> [] then bv_Commit v
      else case info of
          None \<Rightarrow> []
        | Some settings \<Rightarrow>
            (let (rv, dirty) = foldl scan_setting ([], False) settings
             in if rv = [] then []
                else (let rv = (if length rv > 12 then take 12 rv else rv)
                      in if dirty then rv @ ''-dirty'' else rv)))"

definition build_String :: "build_vars \<Rightarrow> (string \<times> string) list option \<Rightarrow> string" where
  "build_String v info =
     (let s = bv_Version v; rv = revision v info
      in if rv \<noteq> []
         then (let s = s @ '' ('' @ rv; s = (if bv_Date v \<noteq> [] then s @ '', built '' @ bv_Date v else s) in s @ '')'')
         else if bv_Date v \<noteq> [] then s @ '' (built '' @ bv_Date v @ '')''
         else s)"

definition build_Print :: "build_vars \<Rightarrow> (string \<times> string) list option \<Rightarrow> string \<Rightarrow> string" where
  "build_Print v info name = name @ '' '' @ build_String v info @ [CHR 0x0A]"

text \<open>The loop keeps the last value of each key.\<close>

lemma scan_settings:
  "foldl scan_setting (rv, dirty) settings =
     (case map_of (rev settings) ''vcs.revision'' of None \<Rightarrow> rv | Some x \<Rightarrow> x,
      case map_of (rev settings) ''vcs.modified'' of None \<Rightarrow> dirty | Some x \<Rightarrow> x = ''true'')"
  by (induction settings arbitrary: rv dirty)
    (auto simp: scan_setting_def map_of_append map_add_def split: option.splits)

text \<open>
  A stamped commit is reported unchanged; otherwise the revision is what the toolchain recorded, cut
  to twelve bytes and marked when the tree was modified, and never longer than eighteen bytes. A modified
  tree is never reported without its mark.
\<close>

lemma revision_reports:
  "revision v info =
     (if bv_Commit v \<noteq> [] then bv_Commit v
      else case map_of (rev (case info of None \<Rightarrow> [] | Some s \<Rightarrow> s)) ''vcs.revision'' of
          None \<Rightarrow> []
        | Some r \<Rightarrow>
            (if r = [] then []
             else take 12 r @ (if map_of (rev (case info of None \<Rightarrow> [] | Some s \<Rightarrow> s)) ''vcs.modified'' = Some ''true''
                               then ''-dirty'' else [])))
   \<and> (bv_Commit v = [] \<longrightarrow> length (revision v info) \<le> 18)"
  by (auto simp: revision_def scan_settings Let_def split: option.splits)

end
