(* ===== verification/Go_Flag.thy ===== *)
theory Go_Flag
  imports Go_Json
begin

section \<open>Go's flag and strconv packages\<close>

text \<open>
  What \<^verbatim>\<open>cmd/main.go\<close> uses of the standard library to read its configuration: \<^verbatim>\<open>strconv.ParseBool\<close>,
  \<^verbatim>\<open>strconv.ParseInt\<close> in base 10 (for the environment) and base 0 (for flags of type \<^verbatim>\<open>int64\<close>), and
  \<^verbatim>\<open>flag.Parse\<close>.
\<close>

subsection \<open>Numbers and booleans\<close>

definition dec_value :: "string \<Rightarrow> nat" where
  "dec_value s = foldl (\<lambda>n c. 10 * n + (of_char c - 48)) 0 s"

text \<open>The sign, the rest, and the range of \<^verbatim>\<open>int64\<close>.\<close>

definition is_neg :: "string \<Rightarrow> bool" where
  "is_neg s \<longleftrightarrow> s \<noteq> [] \<and> hd s = CHR ''-''"

definition unsign :: "string \<Rightarrow> string" where
  "unsign s = (if s \<noteq> [] \<and> (hd s = CHR ''-'' \<or> hd s = CHR ''+'') then tl s else s)"

definition in_int64 :: "bool \<Rightarrow> nat \<Rightarrow> int64 option" where
  "in_int64 neg n =
     (if \<not> neg \<and> n \<ge> 2 ^ 63 then None
      else if neg \<and> n > 2 ^ 63 then None
      else Some (word_of_int (if neg then - int n else int n)))"

definition ParseInt10 :: "string \<Rightarrow> int64 option" where
  "ParseInt10 s =
     (if unsign s = [] \<or> \<not> list_all is_digit (unsign s) then None
      else in_int64 (is_neg s) (dec_value (unsign s)))"

text \<open>Base 0: the base is read off a prefix, and underscores may separate digits.\<close>

definition digit_val :: "char \<Rightarrow> nat option" where
  "digit_val c =
     (let n = of_char c
      in if 48 \<le> n \<and> n \<le> 57 then Some (n - 48)
         else if 97 \<le> n \<and> n \<le> 122 then Some (n - 87)
         else if 65 \<le> n \<and> n \<le> 90 then Some (n - 55)
         else None)"

definition base_prefix :: "string \<Rightarrow> nat \<times> string" where
  "base_prefix s =
     (if s \<noteq> [] \<and> hd s = CHR ''0''
      then (if length s \<ge> 3 \<and> s ! 1 \<in> {CHR ''b'', CHR ''B''} then (2, drop 2 s)
            else if length s \<ge> 3 \<and> s ! 1 \<in> {CHR ''o'', CHR ''O''} then (8, drop 2 s)
            else if length s \<ge> 3 \<and> s ! 1 \<in> {CHR ''x'', CHR ''X''} then (16, drop 2 s)
            else (8, drop 1 s))
      else (10, s))"

fun digits_value :: "nat \<Rightarrow> nat \<Rightarrow> string \<Rightarrow> nat option" where
  "digits_value base n [] = Some n"
| "digits_value base n (c # cs) =
     (if c = CHR ''_'' then digits_value base n cs
      else case digit_val c of
          None \<Rightarrow> None
        | Some d \<Rightarrow> (if d \<ge> base then None else digits_value base (base * n + d) cs))"

text \<open>\<^verbatim>\<open>underscoreOK\<close>: the state is the kind of the previous character.\<close>

datatype prev_char = PBegin | PDigit | PUnderscore | POther

fun underscores_ok :: "bool \<Rightarrow> prev_char \<Rightarrow> string \<Rightarrow> bool" where
  "underscores_ok hex prev [] \<longleftrightarrow> prev \<noteq> PUnderscore"
| "underscores_ok hex prev (c # cs) \<longleftrightarrow>
     (if is_digit c \<or> hex \<and> (case digit_val c of None \<Rightarrow> False | Some d \<Rightarrow> d < 16) then underscores_ok hex PDigit cs
      else if c = CHR ''_'' then prev = PDigit \<and> underscores_ok hex PUnderscore cs
      else prev \<noteq> PUnderscore \<and> underscores_ok hex POther cs)"

definition underscoreOK :: "string \<Rightarrow> bool" where
  "underscoreOK s =
     (let s = unsign s
      in if length s \<ge> 2 \<and> hd s = CHR ''0'' \<and> s ! 1 \<in> set ''bBoOxX''
         then underscores_ok (s ! 1 \<in> set ''xX'') PDigit (drop 2 s)
         else underscores_ok False PBegin s)"

definition ParseUint0 :: "string \<Rightarrow> nat option" where
  "ParseUint0 s =
     (if s = [] then None
      else case base_prefix s of
          (base, ds) \<Rightarrow>
            (case digits_value base 0 ds of
               None \<Rightarrow> None
             | Some n \<Rightarrow> (if CHR ''_'' \<in> set ds \<and> \<not> underscoreOK s then None else Some n)))"

definition ParseInt0 :: "string \<Rightarrow> int64 option" where
  "ParseInt0 s =
     (case ParseUint0 (unsign s) of None \<Rightarrow> None | Some n \<Rightarrow> in_int64 (is_neg s) n)"

definition ParseBool :: "string \<Rightarrow> bool option" where
  "ParseBool s =
     (if s \<in> {''1'', ''t'', ''T'', ''true'', ''TRUE'', ''True''} then Some True
      else if s \<in> {''0'', ''f'', ''F'', ''false'', ''FALSE'', ''False''} then Some False
      else None)"

subsection \<open>flag.Parse\<close>

text \<open>
  A flag is known to be boolean or not, and sets a value (\<open>None\<close>: the value is not accepted). A set of flags
  is a partial function on names; \<open>'s\<close> is the state they set.
\<close>

record 's flag_def =
  fd_bool :: bool
  fd_Set :: "string \<Rightarrow> 's \<Rightarrow> 's option"

datatype flag_error =
    BadFlagSyntax string
  | FlagHelp
  | FlagNotDefined string
  | InvalidBool string string
  | FlagNeedsArgument string
  | InvalidValue string string

definition stringVar :: "(string \<Rightarrow> 's \<Rightarrow> 's) \<Rightarrow> 's flag_def" where
  "stringVar upd = \<lparr>fd_bool = False, fd_Set = \<lambda>v s. Some (upd v s)\<rparr>"

definition boolVar :: "(bool \<Rightarrow> 's \<Rightarrow> 's) \<Rightarrow> 's flag_def" where
  "boolVar upd = \<lparr>fd_bool = True, fd_Set = \<lambda>v s. map_option (\<lambda>b. upd b s) (ParseBool v)\<rparr>"

definition int64Var :: "(int64 \<Rightarrow> 's \<Rightarrow> 's) \<Rightarrow> 's flag_def" where
  "int64Var upd = \<lparr>fd_bool = False, fd_Set = \<lambda>v s. map_option (\<lambda>n. upd n s) (ParseInt0 v)\<rparr>"

text \<open>The name of an argument without its dashes, and the value after the first equals sign.\<close>

definition flag_body :: "string \<Rightarrow> string" where
  "flag_body s = (if s ! 1 = CHR ''-'' then drop 2 s else drop 1 s)"

definition split_value :: "string \<Rightarrow> string \<times> string option" where
  "split_value body =
     (takeWhile (\<lambda>c. c \<noteq> CHR ''='') body,
      if CHR ''='' \<in> set body then Some (tl (dropWhile (\<lambda>c. c \<noteq> CHR ''='') body)) else None)"

fun flag_Parse :: "(string \<Rightarrow> 's flag_def option) \<Rightarrow> 's \<Rightarrow> string list \<Rightarrow> flag_error + 's \<times> string list" where
  "flag_Parse formal st [] = Inr (st, [])"
| "flag_Parse formal st (s # args) =
     (if length s < 2 \<or> hd s \<noteq> CHR ''-'' then Inr (st, s # args)
      else if s = ''--'' then Inr (st, args)
      else if flag_body s = [] \<or> hd (flag_body s) = CHR ''-'' \<or> hd (flag_body s) = CHR ''=''
      then Inl (BadFlagSyntax s)
      else case split_value (flag_body s) of
          (name, value) \<Rightarrow>
            (case formal name of
               None \<Rightarrow> Inl (if name = ''help'' \<or> name = ''h'' then FlagHelp else FlagNotDefined name)
             | Some fd \<Rightarrow>
                 (if fd_bool fd
                  then (let v = (case value of Some v \<Rightarrow> v | None \<Rightarrow> ''true'')
                        in case fd_Set fd v st of
                             None \<Rightarrow> Inl (InvalidBool v name)
                           | Some st' \<Rightarrow> flag_Parse formal st' args)
                  else case value of
                      Some v \<Rightarrow>
                        (case fd_Set fd v st of
                           None \<Rightarrow> Inl (InvalidValue v name)
                         | Some st' \<Rightarrow> flag_Parse formal st' args)
                    | None \<Rightarrow>
                        (case args of
                           [] \<Rightarrow> Inl (FlagNeedsArgument name)
                         | v # args' \<Rightarrow>
                             (case fd_Set fd v st of
                                None \<Rightarrow> Inl (InvalidValue v name)
                              | Some st' \<Rightarrow> flag_Parse formal st' args')))))"

declare flag_Parse.simps(2) [simp del]

subsection \<open>Reading back what strconv.FormatInt prints\<close>

lemma dec_value_snoc: "dec_value (s @ [c]) = 10 * dec_value s + (of_char c - 48)"
  by (simp add: dec_value_def)

lemma dec_value_dec_nat: "dec_value (dec_nat n) = n"
proof (induction n rule: dec_nat.induct)
  case (1 n)
  show ?case
  proof (cases "n < 10")
    case True
    then show ?thesis by (subst dec_nat.simps) (simp add: dec_value_def)
  next
    case False
    with 1 show ?thesis by (subst dec_nat.simps) (simp add: dec_value_snoc)
  qed
qed

lemma dec_nat_hd: "is_digit (hd (dec_nat n))" "n > 0 \<Longrightarrow> hd (dec_nat n) \<noteq> CHR ''0''"
proof -
  show "is_digit (hd (dec_nat n))" using dec_nat_digits [of n] dec_nat_nonempty [of n] by simp
  show "hd (dec_nat n) \<noteq> CHR ''0''" if "n > 0"
    using that
  proof (induction n rule: dec_nat.induct)
    case (1 n)
    show ?case
    proof (cases "n < 10")
      case True
      have "(of_char (char_of (48 + n) :: char) :: nat) \<noteq> of_char CHR ''0''" using True 1(2) by simp
      then have "char_of (48 + n) \<noteq> CHR ''0''" by (simp only: of_char_eq_iff not_False_eq_True)
      with True show ?thesis by (subst dec_nat.simps) simp
    next
      case False
      with 1(1) show ?thesis by (subst dec_nat.simps) (simp add: dec_nat_nonempty)
    qed
  qed
qed

lemma dec_int_sign:
  "is_neg (dec_int i) \<longleftrightarrow> i < 0" "unsign (dec_int i) = dec_nat (nat \<bar>i\<bar>)"
  using dec_nat_hd(1) [of "nat i"] dec_nat_nonempty
  by (auto simp: is_neg_def unsign_def dec_int_def is_digit_def)

text \<open>A value in range is read as itself; one out of range is refused, never wrapped.\<close>

lemma in_int64_abs:
  "in_int64 (i < 0) (nat \<bar>i\<bar>) = (if - (2 ^ 63) \<le> i \<and> i < 2 ^ 63 then Some (word_of_int i) else None)"
  by (auto simp: in_int64_def nat_less_iff le_nat_iff abs_if)

lemma ParseInt10_dec_int:
  "ParseInt10 (dec_int i) = (if - (2 ^ 63) \<le> i \<and> i < 2 ^ 63 then Some (word_of_int i) else None)"
  using dec_nat_digits dec_nat_nonempty
  by (simp add: ParseInt10_def dec_int_sign dec_value_dec_nat in_int64_abs list_all_iff)

lemma digits_value_dec:
  "list_all is_digit s \<Longrightarrow> digits_value 10 n s = Some (foldl (\<lambda>n c. 10 * n + (of_char c - 48)) n s)"
proof (induction s arbitrary: n)
  case (Cons c s)
  then have "digit_val c = Some (of_char c - 48)" "of_char c - 48 < (10 :: nat)" "c \<noteq> CHR ''_''"
    by (auto simp: digit_val_def is_digit_def Let_def)
  with Cons show ?case by simp
qed simp

lemma no_underscore: "list_all is_digit s \<Longrightarrow> CHR ''_'' \<notin> set s"
  by (auto simp: list_all_iff is_digit_def)

lemma ParseUint0_dec_nat: "ParseUint0 (dec_nat n) = Some n"
proof (cases "n = 0")
  case True
  have "(of_char (char_of (48 :: nat) :: char) :: nat) = of_char CHR ''0''" by simp
  then have "char_of (48 :: nat) = CHR ''0''" by (simp only: of_char_eq_iff)
  with True have "dec_nat n = ''0''" by (subst dec_nat.simps) simp
  then show ?thesis using True by (simp add: ParseUint0_def base_prefix_def)
next
  case False
  then have "base_prefix (dec_nat n) = (10, dec_nat n)" using dec_nat_hd(2) by (simp add: base_prefix_def)
  moreover have "list_all is_digit (dec_nat n)" using dec_nat_digits by (simp add: list_all_iff)
  ultimately show ?thesis
    using dec_nat_nonempty [of n] dec_value_dec_nat [of n]
    by (simp add: ParseUint0_def digits_value_dec no_underscore dec_value_def)
qed

lemma ParseInt0_dec_int:
  "ParseInt0 (dec_int i) = (if - (2 ^ 63) \<le> i \<and> i < 2 ^ 63 then Some (word_of_int i) else None)"
  by (simp add: ParseInt0_def dec_int_sign ParseUint0_dec_nat in_int64_abs)

lemma sint_int64: "- (2 ^ 63) \<le> i \<Longrightarrow> i < 2 ^ 63 \<Longrightarrow> sint (word_of_int i :: int64) = i"
  unfolding sint_sbintrunc' by (simp add: signed_take_bit_int_eq_self)

subsection \<open>The forms of a flag\<close>

text \<open>A usable name: not empty, not starting with a dash, and without an equals sign.\<close>

definition flag_name :: "string \<Rightarrow> bool" where
  "flag_name n \<longleftrightarrow> n \<noteq> [] \<and> hd n \<noteq> CHR ''-'' \<and> CHR ''='' \<notin> set n"

lemma flag_name_split:
  assumes "flag_name n"
  shows "split_value n = (n, None)" "split_value (n @ CHR ''='' # v) = (n, Some v)"
    "hd n \<noteq> CHR ''=''" "hd (n @ w) \<noteq> CHR ''-''" "hd (n @ w) \<noteq> CHR ''=''"
proof -
  have n: "n \<noteq> []" "hd n \<noteq> CHR ''-''" "\<And>c. c \<in> set n \<Longrightarrow> c \<noteq> CHR ''=''"
    using assms by (auto simp: flag_name_def)
  show "split_value n = (n, None)" using n(3) by (auto simp: split_value_def)
  show "split_value (n @ CHR ''='' # v) = (n, Some v)" using n(3) by (auto simp: split_value_def)
  show "hd n \<noteq> CHR ''=''" using n(1,3) hd_in_set by blast
  then show "hd (n @ w) \<noteq> CHR ''-''" "hd (n @ w) \<noteq> CHR ''=''" using n by simp_all
qed

lemma flag_arg:
  assumes n: "flag_name n" and d: "d = ''-'' \<or> d = ''--''" and w: "w = [] \<or> (\<exists>v. w = CHR ''='' # v)"
  shows "length (d @ n @ w) \<ge> 2" "hd (d @ n @ w) = CHR ''-''" "d @ n @ w \<noteq> ''--''" "flag_body (d @ n @ w) = n @ w"
proof -
  have n': "n \<noteq> []" "hd n \<noteq> CHR ''-''" using n by (simp_all add: flag_name_def)
  then obtain c cs where c: "n = c # cs" "c \<noteq> CHR ''-''" by (cases n) auto
  show "length (d @ n @ w) \<ge> 2" "hd (d @ n @ w) = CHR ''-''" "d @ n @ w \<noteq> ''--''" "flag_body (d @ n @ w) = n @ w"
    using d c by (auto simp: flag_body_def)
qed

text \<open>One dash or two, and the value behind an equals sign or in the next argument: all the same.\<close>

lemma flag_Parse_value:
  assumes n: "flag_name n" and d: "d = ''-'' \<or> d = ''--''" and fd: "formal n = Some fd" "\<not> fd_bool fd"
  shows "flag_Parse formal st ((d @ n @ CHR ''='' # v) # args) =
      (case fd_Set fd v st of None \<Rightarrow> Inl (InvalidValue v n) | Some st' \<Rightarrow> flag_Parse formal st' args)"
    and "flag_Parse formal st ((d @ n) # v # args) =
      (case fd_Set fd v st of None \<Rightarrow> Inl (InvalidValue v n) | Some st' \<Rightarrow> flag_Parse formal st' args)"
    and "flag_Parse formal st [d @ n] = Inl (FlagNeedsArgument n)"
proof -
  have ne: "n \<noteq> []" using n by (simp add: flag_name_def)
  show "flag_Parse formal st ((d @ n @ CHR ''='' # v) # args) =
      (case fd_Set fd v st of None \<Rightarrow> Inl (InvalidValue v n) | Some st' \<Rightarrow> flag_Parse formal st' args)"
    using flag_arg [OF n d, of "CHR ''='' # v"] flag_name_split(2,4,5) [OF n] ne fd
    by (simp add: flag_Parse.simps(2))
  show "flag_Parse formal st ((d @ n) # v # args) =
      (case fd_Set fd v st of None \<Rightarrow> Inl (InvalidValue v n) | Some st' \<Rightarrow> flag_Parse formal st' args)"
    "flag_Parse formal st [d @ n] = Inl (FlagNeedsArgument n)"
    using flag_arg [OF n d, of "[]"] flag_name_split(1,3) [OF n] n ne fd
    by (simp_all add: flag_Parse.simps(2) flag_name_def)
qed

text \<open>A boolean flag takes no separate value: what follows is the next argument, and if it is not a flag it
  ends the parsing.\<close>

lemma flag_Parse_bool:
  assumes n: "flag_name n" and d: "d = ''-'' \<or> d = ''--''" and fd: "formal n = Some fd" "fd_bool fd"
  shows "flag_Parse formal st ((d @ n) # args) =
    (case fd_Set fd ''true'' st of None \<Rightarrow> Inl (InvalidBool ''true'' n) | Some st' \<Rightarrow> flag_Parse formal st' args)"
proof -
  have ne: "n \<noteq> []" using n by (simp add: flag_name_def)
  have "flag_body (d @ n) = n" "length (d @ n) \<ge> 2" "hd (d @ n) = CHR ''-''" "d @ n \<noteq> ''--''"
    using flag_arg [OF n d, of "[]"] by simp_all
  with flag_name_split(1,3) [OF n] n ne fd show ?thesis
    unfolding flag_Parse.simps(2) by (simp add: flag_name_def Let_def split: option.splits)
qed

lemma flag_Parse_stop: "length s < 2 \<or> hd s \<noteq> CHR ''-'' \<Longrightarrow> flag_Parse formal st (s # args) = Inr (st, s # args)"
  by (simp add: flag_Parse.simps(2))

end
