(* ===== verification/Manager_Main.thy ===== *)
theory Manager_Main
  imports Controller Build_Info Go_Flag
begin

section \<open>The operator's start: cmd/main.go\<close>

text \<open>
  \<^verbatim>\<open>cmd/main.go\<close>: flags and environment are read, and the signer, the chain writer, the publisher and the
  reconciler are built in order; the first failure ends the process with status 1. What the manager of
  controller-runtime answers is the record \<open>manager\<close>. The result \<open>Started\<close> holds the components the
  process runs with.

  The lemmas show that a started operator holds what its components need: a P-256 key, a writer that can
  sign transactions, and a reconciler that cannot panic.
\<close>

subsection \<open>Flags\<close>

definition envInt64 :: "(string \<Rightarrow> string) \<Rightarrow> string \<Rightarrow> int64 \<Rightarrow> int64" where
  "envInt64 getenv key def =
     (if getenv key \<noteq> []
      then (case ParseInt10 (getenv key) of Some n \<Rightarrow> n | None \<Rightarrow> def)
      else def)"

record manager_flags =
  mf_metricsAddr :: string
  mf_probeAddr :: string
  mf_leaderElection :: bool
  mf_kmsKeyID :: string
  mf_ethRPCURL :: string
  mf_contractAddr :: string
  mf_chainID :: int64
  mf_showVersion :: bool

definition default_flags :: "(string \<Rightarrow> string) \<Rightarrow> manager_flags" where
  "default_flags getenv =
     \<lparr>mf_metricsAddr = '':8080'', mf_probeAddr = '':8081'', mf_leaderElection = False,
      mf_kmsKeyID = getenv ''KMS_KEY_ID'', mf_ethRPCURL = getenv ''ETH_RPC_URL'',
      mf_contractAddr = getenv ''CONTRACT_ADDRESS'', mf_chainID = envInt64 getenv ''CHAIN_ID'' 84532,
      mf_showVersion = False\<rparr>"

text \<open>
  The flags \<^verbatim>\<open>main\<close> defines. \<open>others\<close> are those libraries add to the same flag set (zap's through
  \<^verbatim>\<open>BindFlags\<close>, controller-runtime's own), by whether they are boolean and which values they accept; they do
  not touch the manager's variables.
\<close>

definition other_flag :: "bool \<times> (string \<Rightarrow> bool) \<Rightarrow> 's flag_def" where
  "other_flag f = \<lparr>fd_bool = fst f, fd_Set = \<lambda>v s. if snd f v then Some s else None\<rparr>"

definition manager_formal :: "(string \<Rightarrow> (bool \<times> (string \<Rightarrow> bool)) option) \<Rightarrow> string \<Rightarrow> manager_flags flag_def option" where
  "manager_formal others name =
     (if name = ''metrics-bind-address'' then Some (stringVar (\<lambda>v fl. fl\<lparr>mf_metricsAddr := v\<rparr>))
      else if name = ''health-probe-bind-address'' then Some (stringVar (\<lambda>v fl. fl\<lparr>mf_probeAddr := v\<rparr>))
      else if name = ''leader-elect'' then Some (boolVar (\<lambda>b fl. fl\<lparr>mf_leaderElection := b\<rparr>))
      else if name = ''kms-key-id'' then Some (stringVar (\<lambda>v fl. fl\<lparr>mf_kmsKeyID := v\<rparr>))
      else if name = ''eth-rpc-url'' then Some (stringVar (\<lambda>v fl. fl\<lparr>mf_ethRPCURL := v\<rparr>))
      else if name = ''contract-address'' then Some (stringVar (\<lambda>v fl. fl\<lparr>mf_contractAddr := v\<rparr>))
      else if name = ''chain-id'' then Some (int64Var (\<lambda>n fl. fl\<lparr>mf_chainID := n\<rparr>))
      else if name = ''version'' then Some (boolVar (\<lambda>b fl. fl\<lparr>mf_showVersion := b\<rparr>))
      else map_option other_flag (others name))"

definition manager_flags_of :: "(string \<Rightarrow> (bool \<times> (string \<Rightarrow> bool)) option) \<Rightarrow> (string \<Rightarrow> string) \<Rightarrow> string list
    \<Rightarrow> flag_error + manager_flags \<times> string list" where
  "manager_flags_of others getenv args = flag_Parse (manager_formal others) (default_flags getenv) args"

subsection \<open>main\<close>

record ctrl_options =
  co_MetricsBindAddress :: string
  co_HealthProbeBindAddress :: string
  co_LeaderElection :: bool
  co_LeaderElectionID :: string

definition manager_options :: "manager_flags \<Rightarrow> ctrl_options" where
  "manager_options fl =
     \<lparr>co_MetricsBindAddress = mf_metricsAddr fl, co_HealthProbeBindAddress = mf_probeAddr fl,
      co_LeaderElection = mf_leaderElection fl, co_LeaderElectionID = ''proof-of-deploy.proof-of-deploy.dev''\<rparr>"

text \<open>The errors of the manager's calls, \<open>None\<close> for success.\<close>

record manager =
  mgr_GetConfig :: "string option"
  mgr_New :: "ctrl_options \<Rightarrow> string option"
  mgr_Add :: "string option"
  mgr_Complete :: "string option"
  mgr_AddHealthz :: "string option"
  mgr_AddReadyz :: "string option"
  mgr_Start :: "string option"

datatype exit_reason =
    MissingConfiguration
  | MissingGasKey
  | NoKubeConfig string
  | NoManager string
  | NoSigner signer_error
  | NoChainWriter chain_error
  | NoPublisher string
  | NoController string
  | NoHealthCheck string
  | NoReadyCheck string
  | ManagerStopped string

datatype ('key, 'ec, 'auth) startup =
    PrintedUsage
  | Exit2 flag_error
  | PrintedVersion string
  | Exit1 exit_reason
  | Started "('key, 'ec, 'auth) publisher_v1" reconciler string

definition start_controller :: "manager \<Rightarrow> 'key kms_signer \<Rightarrow> ('ec, 'auth) client_v1 \<Rightarrow> ('key, 'ec, 'auth) startup" where
  "start_controller mgr kmsSigner chainWriter =
     (let pub = New kmsSigner chainWriter
      in case mgr_Add mgr of
           Some err \<Rightarrow> Exit1 (NoPublisher err)
         | None \<Rightarrow>
             (let (r, err) = SetupWithManager \<lparr>dr_lastAttested = None\<rparr> (mgr_Complete mgr)
              in case err of
                   Some err \<Rightarrow> Exit1 (NoController err)
                 | None \<Rightarrow>
                     (case mgr_AddHealthz mgr of
                        Some err \<Rightarrow> Exit1 (NoHealthCheck err)
                      | None \<Rightarrow>
                          (case mgr_AddReadyz mgr of
                             Some err \<Rightarrow> Exit1 (NoReadyCheck err)
                           | None \<Rightarrow> Started pub r (PublicKeyFingerprint (PublicKeyDER kmsSigner))))))"

definition manager_main :: "('pub, 'key) crypto \<Rightarrow> ('ec, 'priv, 'auth) eth \<Rightarrow> string + kmsAPI \<Rightarrow> manager
    \<Rightarrow> build_vars \<Rightarrow> (string \<times> string) list option \<Rightarrow> (string \<Rightarrow> string) \<Rightarrow> manager_flags
    \<Rightarrow> ('key, 'ec, 'auth) startup" where
  "manager_main cr eth loadConfig mgr v info getenv fl =
     (if mf_showVersion fl then PrintedVersion (build_Print v info ''manager'')
      else if mf_kmsKeyID fl = [] \<or> mf_ethRPCURL fl = [] \<or> mf_contractAddr fl = [] then Exit1 MissingConfiguration
      else if getenv ''ETH_PRIVATE_KEY'' = [] then Exit1 MissingGasKey
      else case mgr_GetConfig mgr of
          Some err \<Rightarrow> Exit1 (NoKubeConfig err)
        | None \<Rightarrow>
            (case mgr_New mgr (manager_options fl) of
               Some err \<Rightarrow> Exit1 (NoManager err)
             | None \<Rightarrow>
                 (case NewKMSSigner cr loadConfig (mf_kmsKeyID fl) of
                    Inl err \<Rightarrow> Exit1 (NoSigner err)
                  | Inr kmsSigner \<Rightarrow>
                      (case NewWriter eth (mf_ethRPCURL fl) (mf_contractAddr fl) (getenv ''ETH_PRIVATE_KEY'')
                              (sint (mf_chainID fl)) of
                         Inl err \<Rightarrow> Exit1 (NoChainWriter err)
                       | Inr chainWriter \<Rightarrow> start_controller mgr kmsSigner chainWriter))))"

text \<open>
  The whole of \<^verbatim>\<open>main\<close> up to the start, from the command line on. The flag set of the program exits by itself:
  with status 0 after printing its usage for a request for help, with status 2 on any other error. Arguments
  that are not flags are ignored.
\<close>

definition manager_process :: "('pub, 'key) crypto \<Rightarrow> ('ec, 'priv, 'auth) eth \<Rightarrow> string + kmsAPI \<Rightarrow> manager
    \<Rightarrow> build_vars \<Rightarrow> (string \<times> string) list option \<Rightarrow> (string \<Rightarrow> (bool \<times> (string \<Rightarrow> bool)) option)
    \<Rightarrow> (string \<Rightarrow> string) \<Rightarrow> string list \<Rightarrow> ('key, 'ec, 'auth) startup" where
  "manager_process cr eth loadConfig mgr v info others getenv args =
     (case manager_flags_of others getenv args of
        Inl err \<Rightarrow> (case err of FlagHelp \<Rightarrow> PrintedUsage | _ \<Rightarrow> Exit2 err)
      | Inr (fl, rest) \<Rightarrow> manager_main cr eth loadConfig mgr v info getenv fl)"

text \<open>How the process ends once the manager has stopped; \<^verbatim>\<open>mgr.Start\<close> returns without error on a signal.\<close>

definition manager_exit :: "manager \<Rightarrow> ('key, 'ec, 'auth) startup \<Rightarrow> nat" where
  "manager_exit mgr st =
     (case st of
        PrintedUsage \<Rightarrow> 0
      | Exit2 err \<Rightarrow> 2
      | PrintedVersion line \<Rightarrow> 0
      | Exit1 reason \<Rightarrow> 1
      | Started pub r fp \<Rightarrow> (case mgr_Start mgr of Some err \<Rightarrow> 1 | None \<Rightarrow> 0))"

subsection \<open>Properties of the start\<close>

text \<open>
  \<^verbatim>\<open>envInt64\<close> reads back every \<^verbatim>\<open>int64\<close> printed in decimal, both ends of the range included, and falls back to
  the default for every decimal number outside the range: no chain id is ever wrapped around.
\<close>

lemma envInt64_dec_int:
  "getenv key = dec_int i \<Longrightarrow>
     envInt64 getenv key def = (if - (2 ^ 63) \<le> i \<and> i < 2 ^ 63 then word_of_int i else def)"
  by (simp add: envInt64_def ParseInt10_dec_int) (auto simp: dec_int_def dec_nat_nonempty)

lemma manager_names: "flag_name ''chain-id''" "flag_name ''leader-elect''"
  by (simp_all add: flag_name_def)

lemma manager_formal_lookup:
  "manager_formal others ''chain-id'' = Some (int64Var (\<lambda>n fl. fl\<lparr>mf_chainID := n\<rparr>))"
  "manager_formal others ''leader-elect'' = Some (boolVar (\<lambda>b fl. fl\<lparr>mf_leaderElection := b\<rparr>))"
  by (simp_all add: manager_formal_def)

text \<open>
  A boolean flag with its value as a separate argument: \<^verbatim>\<open>--leader-elect false\<close> turns leader election on, and every
  flag after it is ignored.
\<close>

lemma leader_elect_false:
  "manager_flags_of others getenv (''--leader-elect'' # ''false'' # args)
     = Inr ((default_flags getenv)\<lparr>mf_leaderElection := True\<rparr>, ''false'' # args)"
  using flag_Parse_bool [where formal = "manager_formal others" and d = "''--''", OF manager_names(2) _ manager_formal_lookup(2)]
    flag_Parse_stop [of "''false''"]
  by (simp add: manager_flags_of_def boolVar_def ParseBool_def)

lemma NewKMSSigner_key:
  assumes "NewKMSSigner cr loadConfig keyID = Inr s"
  shows "on_P256 cr (ks_pub s)" "ParsePublicKeyDER cr (PublicKeyDER s) = Inr (ks_pub s)"
proof -
  from assms obtain client where "newWithClient cr client keyID = Inr s"
    by (auto simp: NewKMSSigner_def split: sum.splits)
  from newWithClient_key [OF this] show "on_P256 cr (ks_pub s)" "ParsePublicKeyDER cr (PublicKeyDER s) = Inr (ks_pub s)"
    by simp_all
qed

lemma NewWriter_auth:
  assumes "NewWriter eth rpc addr key chain = Inr c"
  shows "cl_auth c \<noteq> None" "cl_ec c \<noteq> None" "cl_address c = eth_HexToAddress eth addr"
  using assms by (auto simp: NewWriter_def NewReader_def res_simps)

lemma start_controller_Started:
  "start_controller mgr s c = Started pub r fp \<Longrightarrow>
    pub = New s c \<and> r = \<lparr>dr_lastAttested = Some Map.empty\<rparr> \<and> fp = PublicKeyFingerprint (PublicKeyDER s)"
  by (auto simp: start_controller_def SetupWithManager_def Let_def split: option.splits)

text \<open>
  An operator that starts is fit to work. Its signer's key parses and is on P-256, its chain writer
  holds a connection and a transaction key and writes to the configured address, the fingerprint it logs
  is the hex of the SHA-256 of its key, and its reconciler's map is allocated and empty. Without a
  required setting, or without the gas key, it does not start.
\<close>

lemma manager_started:
  assumes "manager_main cr eth loadConfig mgr v info getenv fl = Started pub r fp"
  shows "mf_kmsKeyID fl \<noteq> [] \<and> mf_ethRPCURL fl \<noteq> [] \<and> mf_contractAddr fl \<noteq> [] \<and> getenv ''ETH_PRIVATE_KEY'' \<noteq> []
     \<and> on_P256 cr (ks_pub (p1_signer pub))
     \<and> ParsePublicKeyDER cr (PublicKeyDER (p1_signer pub)) = Inr (ks_pub (p1_signer pub))
     \<and> cl_auth (p1_client pub) \<noteq> None \<and> cl_ec (p1_client pub) \<noteq> None
     \<and> cl_address (p1_client pub) = eth_HexToAddress eth (mf_contractAddr fl)
     \<and> fp = PublicKeyFingerprint (PublicKeyDER (p1_signer pub))
     \<and> r = \<lparr>dr_lastAttested = Some Map.empty\<rparr>"
proof -
  from assms have conf: "mf_kmsKeyID fl \<noteq> [] \<and> mf_ethRPCURL fl \<noteq> [] \<and> mf_contractAddr fl \<noteq> [] \<and> getenv ''ETH_PRIVATE_KEY'' \<noteq> []"
    by (auto simp: manager_main_def split: if_splits)
  from assms obtain s c where s: "NewKMSSigner cr loadConfig (mf_kmsKeyID fl) = Inr s"
    and c: "NewWriter eth (mf_ethRPCURL fl) (mf_contractAddr fl) (getenv ''ETH_PRIVATE_KEY'') (sint (mf_chainID fl)) = Inr c"
    and st: "start_controller mgr s c = Started pub r fp"
    by (auto simp: manager_main_def split: if_splits option.splits sum.splits)
  from start_controller_Started [OF st] NewKMSSigner_key [OF s] NewWriter_auth [OF c] conf show ?thesis
    by (simp add: New_def)
qed

definition smooth_manager :: manager where
  "smooth_manager =
     \<lparr>mgr_GetConfig = None, mgr_New = \<lambda>_. None, mgr_Add = None, mgr_Complete = None, mgr_AddHealthz = None, mgr_AddReadyz = None, mgr_Start = None\<rparr>"

definition sample_flags :: manager_flags where
  "sample_flags =
     \<lparr>mf_metricsAddr = '':8080'', mf_probeAddr = '':8081'', mf_leaderElection = False, mf_kmsKeyID = ''alias/a'', mf_ethRPCURL = ''http://rpc'', mf_contractAddr = ''0x3'', mf_chainID = 84532,
      mf_showVersion = False\<rparr>"

definition sample_dialer :: "(unit, unit, unit) eth" where
  "sample_dialer =
     \<lparr>eth_Dial = \<lambda>_. Inr (), eth_RegistryABI = Inr (), eth_RegistryV2ABI = Inr (), eth_HexToAddress = \<lambda>_. 3,
      eth_HexToECDSA = \<lambda>_. Inr (), eth_NewKeyedTransactor = \<lambda>_ _. Inr ()\<rparr>"

lemma sample_started:
  "\<exists>fp. manager_main trusting sample_dialer (Inr sample_kms) smooth_manager unstamped None (\<lambda>_. ''key'') sample_flags
     = Started sample_publisher \<lparr>dr_lastAttested = Some Map.empty\<rparr> fp"
  by (simp add: manager_main_def sample_flags_def smooth_manager_def sample_dialer_def NewKMSSigner_def
      sample_signer_built NewWriter_def NewReader_def start_controller_def SetupWithManager_def sample_publisher_def)

text \<open>
  The chain id is never garbled, but flag and environment disagree on what to do with a bad one. A decimal
  number in the range of \<^verbatim>\<open>int64\<close> is taken as itself from \<^verbatim>\<open>--chain-id\<close> and from \<^verbatim>\<open>CHAIN_ID\<close>, the flag winning over
  the environment. A number out of range ends the process with status 2 when given as a flag, and silently
  becomes Base Sepolia when given in the environment.
\<close>

lemma manager_chain_id:
  assumes "getenv ''CHAIN_ID'' = dec_int e"
  shows "sint (mf_chainID (default_flags getenv)) = (if - (2 ^ 63) \<le> e \<and> e < 2 ^ 63 then e else 84532)
     \<and> (- (2 ^ 63) \<le> i \<and> i < 2 ^ 63 \<longrightarrow>
          (\<exists>fl. manager_flags_of others getenv [''--chain-id='' @ dec_int i] = Inr (fl, []) \<and> sint (mf_chainID fl) = i))
     \<and> (\<not> (- (2 ^ 63) \<le> i \<and> i < 2 ^ 63) \<longrightarrow>
          manager_exit mgr (manager_process cr eth loadConfig mgr v info others getenv [''--chain-id='' @ dec_int i]) = 2)"
proof -
  have arg: "flag_Parse (manager_formal others) st [''--chain-id='' @ dec_int i]
      = (case fd_Set (int64Var (\<lambda>n fl. fl\<lparr>mf_chainID := n\<rparr>)) (dec_int i) st of
           None \<Rightarrow> Inl (InvalidValue (dec_int i) ''chain-id'') | Some st' \<Rightarrow> Inr (st', []))" for st
    using flag_Parse_value(1) [where formal = "manager_formal others" and d = "''--''" and st = st and v = "dec_int i"
        and args = "[]", OF manager_names(1) _ manager_formal_lookup(1)]
    by (simp add: int64Var_def split: option.splits)
  have "sint (mf_chainID (default_flags getenv)) = (if - (2 ^ 63) \<le> e \<and> e < 2 ^ 63 then e else 84532)"
    using envInt64_dec_int [of getenv "''CHAIN_ID''" e] assms sint_int64 [of e] sint_int64 [of 84532]
    by (simp add: default_flags_def)
  moreover have "\<exists>fl. manager_flags_of others getenv [''--chain-id='' @ dec_int i] = Inr (fl, []) \<and> sint (mf_chainID fl) = i"
    if "- (2 ^ 63) \<le> i" "i < 2 ^ 63"
    using that sint_int64 [OF that] unfolding manager_flags_of_def arg by (simp add: int64Var_def ParseInt0_dec_int)
  moreover have "manager_exit mgr (manager_process cr eth loadConfig mgr v info others getenv [''--chain-id='' @ dec_int i]) = 2"
    if "\<not> (- (2 ^ 63) \<le> i \<and> i < 2 ^ 63)"
    using that unfolding manager_process_def manager_flags_of_def arg
    by (auto simp: int64Var_def ParseInt0_dec_int manager_exit_def)
  ultimately show ?thesis by blast
qed

end
