(* ===== verification/Pod_Verify.thy ===== *)
theory Pod_Verify
  imports Chain_Client Kms_Signer Surface_V2
begin

section \<open>The verifier: cmd/verify/main.go\<close>

text \<open>
  \<^verbatim>\<open>cmd/verify/main.go\<close>: the command that checks a live Deployment against its latest record on the v1
  registry. What it reaches is an argument: the Kubernetes client (\<open>kube\<close>), go-ethereum (\<open>eth\<close> and the
  contract call), the file system, PEM and AWS (\<open>files\<close>), and the crypto library.

  \<open>verify_checks\<close> is the body of \<^verbatim>\<open>runVerify\<close>: a check that does not hold ends it with an error, which is
  either a FAIL, whose reason goes to standard output, or an operational error. \<open>runVerify\<close> adds the
  output.

  The lemmas show exactly when the verdict is PASS and exactly when it is FAIL, and that PASS means the
  live Deployment agrees with the attested one on the whole surface of the record's version.
\<close>

record options =
  o_kubeconfig :: string
  o_kubecontext :: string
  o_namespace :: string
  o_name :: string
  o_rpcURL :: string
  o_contractAddr :: string
  o_publicKeyFile :: string
  o_kmsKeyID :: string

text \<open>The defaults of the command-line flags; \<open>getenv\<close> is \<^verbatim>\<open>os.Getenv\<close>.\<close>

definition verify_flags :: "(string \<Rightarrow> string) \<Rightarrow> options" where
  "verify_flags getenv =
     \<lparr>o_kubeconfig = [], o_kubecontext = [], o_namespace = [], o_name = [],
      o_rpcURL = getenv ''ETH_RPC_URL'', o_contractAddr = getenv ''CONTRACT_ADDRESS'',
      o_publicKeyFile = [], o_kmsKeyID = getenv ''KMS_KEY_ID''\<rparr>"

text \<open>
  What client-go offers: loading a configuration for an explicit kubeconfig path and a context override
  (\<open>None\<close> when not set), its host, the raw configuration's current context, building a client set, and
  reading a Deployment with it.
\<close>

record ('cfg, 'k) kube =
  kube_ClientConfig :: "string option \<Rightarrow> string option \<Rightarrow> string + 'cfg"
  kube_RawConfig :: "string option \<Rightarrow> string option \<Rightarrow> string + string"
  kube_Host :: "'cfg \<Rightarrow> string"
  kube_NewForConfig :: "'cfg \<Rightarrow> string + unit"
  kube_Get :: "'cfg \<Rightarrow> string \<Rightarrow> string \<Rightarrow> string + 'k deployment"

record files =
  os_ReadFile :: "string \<Rightarrow> string + bytes"
  pem_Decode :: "bytes \<Rightarrow> bytes option"
  aws_LoadConfig :: "string + kmsAPI"

datatype key_error = ErrKeyFile string | ErrNoKeySource | ErrKeyFromKMS signer_error

datatype verify_error =
    FailErr string
  | ErrFlagsRequired
  | ErrReadingDeployment string
  | ErrVerifyChain chain_error
  | ErrRecordVersion u16
  | ErrHashing attest_error
  | ErrLoadingKey key_error
  | ErrParsingKey attest_error

subsection \<open>Reading the Deployment and the key\<close>

definition flag_value :: "string \<Rightarrow> string option" where
  "flag_value s = (if s \<noteq> [] then Some s else None)"

definition cluster_name :: "options \<Rightarrow> string \<Rightarrow> string + string \<Rightarrow> string" where
  "cluster_name opts host raw =
     (case raw of
        Inl err \<Rightarrow> host
      | Inr current \<Rightarrow>
          (let name = (if o_kubecontext opts = [] then current else o_kubecontext opts)
           in if name \<noteq> [] then name @ '' ('' @ host @ '')'' else host))"

definition getDeployment :: "('cfg, 'k) kube \<Rightarrow> options \<Rightarrow> string \<Rightarrow> string \<Rightarrow> string + 'k deployment \<times> string" where
  "getDeployment kube opts namespace name =
     (let path = flag_value (o_kubeconfig opts); ctx = flag_value (o_kubecontext opts)
      in bindE (kube_ClientConfig kube path ctx) (\<lambda>cfg.
         bindE (kube_NewForConfig kube cfg) (\<lambda>clientset.
           (let cluster = cluster_name opts (kube_Host kube cfg) (kube_RawConfig kube path ctx)
            in bindE (kube_Get kube cfg namespace name) (\<lambda>dep. Inr (dep, cluster))))))"

definition loadPublicKey :: "('pub, 'key) crypto \<Rightarrow> files \<Rightarrow> options \<Rightarrow> key_error + bytes" where
  "loadPublicKey cr fs opts =
     (if o_publicKeyFile opts \<noteq> []
      then (case os_ReadFile fs (o_publicKeyFile opts) of
              Inl err \<Rightarrow> Inl (ErrKeyFile err)
            | Inr raw \<Rightarrow> (case pem_Decode fs raw of Some block \<Rightarrow> Inr block | None \<Rightarrow> Inr raw))
      else if o_kmsKeyID opts = [] then Inl ErrNoKeySource
      else (case NewKMSSigner cr (aws_LoadConfig fs) (o_kmsKeyID opts) of
              Inl err \<Rightarrow> Inl (ErrKeyFromKMS err)
            | Inr s \<Rightarrow> Inr (PublicKeyDER s)))"

subsection \<open>Messages\<close>

definition nl :: string where
  "nl = [CHR 0x0A]"

definition fail :: "string \<Rightarrow> verify_error + 'a" where
  "fail msg = Inl (FailErr msg)"

definition msg_no_attestation :: "options \<Rightarrow> string" where
  "msg_no_attestation opts = ''no attestation found on-chain for '' @ o_namespace opts @ ''/'' @ o_name opts"

definition msg_hash_mismatch :: "hash32 \<Rightarrow> hash32 \<Rightarrow> string" where
  "msg_hash_mismatch localHash onchain =
     ''config hash mismatch'' @ nl @ ''  live:    '' @ MustHex localHash @ nl @ ''  onchain: '' @ MustHex onchain @ nl
     @ ''  the running Deployment differs from the attested state''"

definition msg_fingerprint_mismatch :: "hash32 \<Rightarrow> hash32 \<Rightarrow> string" where
  "msg_fingerprint_mismatch got onchain =
     ''signer fingerprint mismatch'' @ nl @ ''  expected: '' @ MustHex got @ nl @ ''  onchain:  '' @ MustHex onchain @ nl
     @ ''  attestation was signed by an unexpected key''"

definition msg_bad_signature :: string where
  "msg_bad_signature = ''signature verification failed for the attested config hash''"

definition weak_surface_warning :: "u16 \<Rightarrow> string" where
  "weak_surface_warning version =
     nl @ ''  WARNING: '' @ Version_String version @ '' hashes a narrow subset of the Deployment. It does NOT cover'' @ nl
     @ ''  command, args, initContainers, securityContext, volumes, mounts,'' @ nl
     @ ''  envFrom/valueFrom, serviceAccountName or host namespaces. A materially'' @ nl
     @ ''  more privileged workload can produce this same PASS.'' @ nl
     @ ''  See README '' @ [CHR 0x22] @ ''What fields are excluded and why'' @ [CHR 0x22] @ ''.'' @ nl"

definition pass_report :: "options \<Rightarrow> string \<Rightarrow> attestation \<Rightarrow> u16 \<Rightarrow> hash32 \<Rightarrow> string" where
  "pass_report opts cluster att version localHash =
     ''PASS  '' @ o_namespace opts @ ''/'' @ o_name opts @ nl
     @ ''  cluster:            '' @ cluster @ nl
     @ ''  hash protocol:      '' @ Version_String version @ nl
     @ ''  config hash:        '' @ MustHex localHash @ nl
     @ ''  signer fingerprint: '' @ MustHex (at_SignerFingerprint att) @ nl
     @ ''  block timestamp:    '' @ dec_nat (unat (at_BlockTimestamp att)) @ nl
     @ ''  the live Deployment matches a signature recorded on-chain by the expected key.'' @ nl
     @ (if IsWeakSurface version then weak_surface_warning version else [])"

subsection \<open>runVerify\<close>

definition failE :: "('e \<Rightarrow> verify_error) \<Rightarrow> 'e + 'a \<Rightarrow> verify_error + 'a" where
  "failE f m = (case m of Inl e \<Rightarrow> Inl (f e) | Inr x \<Rightarrow> Inr x)"

lemma failE_simps [simp, res_simps]: "failE f (Inl e) = Inl (f e)" "failE f (Inr x) = Inr x"
  by (simp_all add: failE_def)

lemma failE_Inr_iff [res_simps]: "failE f m = Inr y \<longleftrightarrow> m = Inr y"
  by (cases m) auto

lemma failE_Inl_iff [res_simps]: "failE f m = Inl y \<longleftrightarrow> (\<exists>e. m = Inl e \<and> y = f e)"
  by (cases m) auto

text \<open>Steps 6 and 7 of the code: the key and the signature.\<close>

definition verify_signature :: "('pub, 'key) crypto \<Rightarrow> files \<Rightarrow> options \<Rightarrow> attestation \<Rightarrow> hash32 \<Rightarrow> verify_error + unit" where
  "verify_signature cr fs opts att localHash =
     bindE (failE ErrLoadingKey (loadPublicKey cr fs opts)) (\<lambda>pubDER.
       (let got = PublicKeyFingerprintBytes pubDER
        in if got \<noteq> at_SignerFingerprint att then fail (msg_fingerprint_mismatch got (at_SignerFingerprint att))
           else bindE (failE ErrParsingKey (ParsePublicKeyDER cr pubDER)) (\<lambda>pub.
             if \<not> VerifyConfigHashSignature cr pub (SigningDigest (at_HashVersion att) localHash) (at_Signature att)
             then fail msg_bad_signature
             else Inr ())))"

text \<open>Steps 3 to 5, then 6 and 7: everything after the record has been read.\<close>

definition verify_record :: "'k lib \<Rightarrow> ('pub, 'key) crypto \<Rightarrow> files \<Rightarrow> options \<Rightarrow> 'k deployment \<Rightarrow> string \<Rightarrow> attestation
    \<Rightarrow> verify_error + string" where
  "verify_record lib cr fs opts dep cluster att =
     (if \<not> at_Exists att then fail (msg_no_attestation opts)
      else let version = at_HashVersion att
           in if \<not> Supported version then Inl (ErrRecordVersion version)
              else bindE (failE ErrHashing (ConfigHashForVersion lib version dep)) (\<lambda>localHash.
                if localHash \<noteq> at_ConfigHash att then fail (msg_hash_mismatch localHash (at_ConfigHash att))
                else bindE (verify_signature cr fs opts att localHash) (\<lambda>_.
                  Inr (pass_report opts cluster att version localHash))))"

text \<open>\<open>call\<close> is the contract call of a reader.\<close>

definition verify_checks :: "'k lib \<Rightarrow> ('cfg, 'k) kube \<Rightarrow> ('ec, 'priv, 'auth) eth
    \<Rightarrow> (('ec, 'auth) client_v1 \<Rightarrow> hash32 \<Rightarrow> string + abi_value list) \<Rightarrow> ('pub, 'key) crypto \<Rightarrow> files \<Rightarrow> options
    \<Rightarrow> verify_error + string" where
  "verify_checks lib kube eth call cr fs opts =
     (if o_rpcURL opts = [] \<or> o_contractAddr opts = [] then Inl ErrFlagsRequired
      else bindE (failE ErrReadingDeployment (getDeployment kube opts (o_namespace opts) (o_name opts))) (\<lambda>(dep, cluster).
        let i = DeploymentID (o_namespace opts) (o_name opts)
        in bindE (failE ErrVerifyChain (NewReader eth (o_rpcURL opts) (o_contractAddr opts))) (\<lambda>reader.
           bindE (failE ErrVerifyChain (LatestAttestation (call reader) i)) (\<lambda>att.
             verify_record lib cr fs opts dep cluster att))))"

definition runVerify :: "'k lib \<Rightarrow> ('cfg, 'k) kube \<Rightarrow> ('ec, 'priv, 'auth) eth
    \<Rightarrow> (('ec, 'auth) client_v1 \<Rightarrow> hash32 \<Rightarrow> string + abi_value list) \<Rightarrow> ('pub, 'key) crypto \<Rightarrow> files \<Rightarrow> options
    \<Rightarrow> string \<times> verify_error option" where
  "runVerify lib kube eth call cr fs opts =
     (case verify_checks lib kube eth call cr fs opts of
        Inl (FailErr msg) \<Rightarrow> (''FAIL  '' @ msg @ nl, Some (FailErr msg))
      | Inl err \<Rightarrow> ([], Some err)
      | Inr report \<Rightarrow> (report, None))"

text \<open>The end of \<^verbatim>\<open>main\<close>: any error exits with status 1.\<close>

definition exit_status :: "verify_error option \<Rightarrow> nat" where
  "exit_status err = (case err of None \<Rightarrow> 0 | Some e \<Rightarrow> 1)"

text \<open>
  The command line. What cobra makes of it is the argument: an error of its own, a text it prints (help or
  version), or a run of \<^verbatim>\<open>verify\<close> with the flags that were given, by their long names and in order. Cobra runs a
  command only if every flag marked as required is given.
\<close>

datatype verify_command = CmdFailed string | CmdPrinted string | CmdVerify "(string \<times> string) list"

definition set_verify_flag :: "string \<times> string \<Rightarrow> options \<Rightarrow> options" where
  "set_verify_flag f o1 =
     (case f of (name, v) \<Rightarrow>
        if name = ''kubeconfig'' then o1\<lparr>o_kubeconfig := v\<rparr>
        else if name = ''context'' then o1\<lparr>o_kubecontext := v\<rparr>
        else if name = ''namespace'' then o1\<lparr>o_namespace := v\<rparr>
        else if name = ''name'' then o1\<lparr>o_name := v\<rparr>
        else if name = ''eth-rpc-url'' then o1\<lparr>o_rpcURL := v\<rparr>
        else if name = ''contract-address'' then o1\<lparr>o_contractAddr := v\<rparr>
        else if name = ''public-key'' then o1\<lparr>o_publicKeyFile := v\<rparr>
        else if name = ''kms-key-id'' then o1\<lparr>o_kmsKeyID := v\<rparr>
        else o1)"

definition verify_options :: "(string \<Rightarrow> string) \<Rightarrow> (string \<times> string) list \<Rightarrow> options" where
  "verify_options getenv given = fold set_verify_flag given (verify_flags getenv)"

definition required_flags :: "string list" where
  "required_flags = [''namespace'', ''name'']"

definition verify_main :: "'k lib \<Rightarrow> ('cfg, 'k) kube \<Rightarrow> ('ec, 'priv, 'auth) eth
    \<Rightarrow> (('ec, 'auth) client_v1 \<Rightarrow> hash32 \<Rightarrow> string + abi_value list) \<Rightarrow> ('pub, 'key) crypto \<Rightarrow> files
    \<Rightarrow> (string \<Rightarrow> string) \<Rightarrow> verify_command \<Rightarrow> nat" where
  "verify_main lib kube eth call cr fs getenv cmd =
     (case cmd of
        CmdFailed err \<Rightarrow> 1
      | CmdPrinted out \<Rightarrow> 0
      | CmdVerify given \<Rightarrow>
          (if \<not> list_all (\<lambda>f. f \<in> set (map fst given)) required_flags then 1
           else exit_status (snd (runVerify lib kube eth call cr fs (verify_options getenv given)))))"

text \<open>The last value given for a flag wins; the environment only fills in what was not given.\<close>

lemma verify_options_fields:
  "o_namespace (verify_options getenv given) = (case map_of (rev given) ''namespace'' of Some v \<Rightarrow> v | None \<Rightarrow> [])"
  "o_name (verify_options getenv given) = (case map_of (rev given) ''name'' of Some v \<Rightarrow> v | None \<Rightarrow> [])"
  "o_rpcURL (verify_options getenv given) =
     (case map_of (rev given) ''eth-rpc-url'' of Some v \<Rightarrow> v | None \<Rightarrow> getenv ''ETH_RPC_URL'')"
  "o_contractAddr (verify_options getenv given) =
     (case map_of (rev given) ''contract-address'' of Some v \<Rightarrow> v | None \<Rightarrow> getenv ''CONTRACT_ADDRESS'')"
  "o_publicKeyFile (verify_options getenv given) = (case map_of (rev given) ''public-key'' of Some v \<Rightarrow> v | None \<Rightarrow> [])"
  "o_kmsKeyID (verify_options getenv given) =
     (case map_of (rev given) ''kms-key-id'' of Some v \<Rightarrow> v | None \<Rightarrow> getenv ''KMS_KEY_ID'')"
  by (induction given rule: rev_induct)
    (auto simp: verify_options_def verify_flags_def set_verify_flag_def split: prod.splits)

subsection \<open>Verdicts\<close>

lemma runVerify_verdict:
  "snd (runVerify lib kube eth call cr fs opts) = None
     \<longleftrightarrow> (\<exists>report. verify_checks lib kube eth call cr fs opts = Inr report)"
  "snd (runVerify lib kube eth call cr fs opts) = Some err
     \<longleftrightarrow> verify_checks lib kube eth call cr fs opts = Inl err"
  by (auto simp: runVerify_def split: sum.splits verify_error.splits)

lemma verify_signature_pass_iff:
  "verify_signature cr fs opts att h = Inr u \<longleftrightarrow>
     (\<exists>der pub. loadPublicKey cr fs opts = Inr der \<and> Sum256 der = at_SignerFingerprint att
        \<and> ParsePublicKeyDER cr der = Inr pub
        \<and> VerifyConfigHashSignature cr pub (SigningDigest (at_HashVersion att) h) (at_Signature att))"
  by (auto simp: verify_signature_def Let_def fail_def PublicKeyFingerprintBytes_def res_simps split: if_splits)

lemma verify_signature_fail_iff:
  "verify_signature cr fs opts att h = Inl (FailErr msg) \<longleftrightarrow>
     (\<exists>der. loadPublicKey cr fs opts = Inr der
        \<and> (Sum256 der \<noteq> at_SignerFingerprint att
             \<and> msg = msg_fingerprint_mismatch (Sum256 der) (at_SignerFingerprint att)
           \<or> Sum256 der = at_SignerFingerprint att
             \<and> (\<exists>pub. ParsePublicKeyDER cr der = Inr pub
               \<and> \<not> VerifyConfigHashSignature cr pub (SigningDigest (at_HashVersion att) h) (at_Signature att))
             \<and> msg = msg_bad_signature))"
  by (auto simp: verify_signature_def Let_def fail_def PublicKeyFingerprintBytes_def res_simps split: if_splits)

lemma verify_signature_fails:
  "(\<exists>msg. verify_signature cr fs opts att h = Inl (FailErr msg)) \<longleftrightarrow>
     (\<exists>der. loadPublicKey cr fs opts = Inr der
        \<and> (Sum256 der \<noteq> at_SignerFingerprint att
           \<or> (\<exists>pub. ParsePublicKeyDER cr der = Inr pub
               \<and> \<not> VerifyConfigHashSignature cr pub (SigningDigest (at_HashVersion att) h) (at_Signature att))))"
  unfolding verify_signature_fail_iff by blast

lemma ConfigHashForVersion_Supported: "ConfigHashForVersion lib v d = Inr h \<Longrightarrow> Supported v"
  by (auto simp: ConfigHashForVersion_def Supported_def split: if_splits)

lemma verify_record_pass_iff:
  "(\<exists>report. verify_record lib cr fs opts dep cluster att = Inr report) \<longleftrightarrow>
     at_Exists att \<and> ConfigHashForVersion lib (at_HashVersion att) dep = Inr (at_ConfigHash att)
     \<and> verify_signature cr fs opts att (at_ConfigHash att) = Inr ()"
  by (auto simp: verify_record_def Let_def fail_def res_simps dest: ConfigHashForVersion_Supported split: if_splits)

lemma verify_record_fail_iff:
  "(\<exists>msg. verify_record lib cr fs opts dep cluster att = Inl (FailErr msg)) \<longleftrightarrow>
     \<not> at_Exists att
     \<or> (\<exists>h. ConfigHashForVersion lib (at_HashVersion att) dep = Inr h
          \<and> (h \<noteq> at_ConfigHash att \<or> (\<exists>msg. verify_signature cr fs opts att h = Inl (FailErr msg))))"
  by (auto simp: verify_record_def Let_def fail_def res_simps dest: ConfigHashForVersion_Supported split: if_splits)

text \<open>What has been read when the record is judged.\<close>

definition verifier_reads :: "('cfg, 'k) kube \<Rightarrow> ('ec, 'priv, 'auth) eth
    \<Rightarrow> (('ec, 'auth) client_v1 \<Rightarrow> hash32 \<Rightarrow> string + abi_value list) \<Rightarrow> options
    \<Rightarrow> 'k deployment \<Rightarrow> string \<Rightarrow> attestation \<Rightarrow> bool" where
  "verifier_reads kube eth call opts dep cluster att \<longleftrightarrow>
     o_rpcURL opts \<noteq> [] \<and> o_contractAddr opts \<noteq> []
     \<and> getDeployment kube opts (o_namespace opts) (o_name opts) = Inr (dep, cluster)
     \<and> (\<exists>reader. NewReader eth (o_rpcURL opts) (o_contractAddr opts) = Inr reader
          \<and> LatestAttestation (call reader) (DeploymentID (o_namespace opts) (o_name opts)) = Inr att)"

lemma verify_checks_reads:
  assumes "verifier_reads kube eth call opts dep cluster att"
  shows "verify_checks lib kube eth call cr fs opts = verify_record lib cr fs opts dep cluster att"
  using assms by (auto simp: verifier_reads_def verify_checks_def Let_def split: sum.splits)

lemma verify_checks_unread:
  assumes "\<And>dep cluster att. \<not> verifier_reads kube eth call opts dep cluster att"
  obtains err where "verify_checks lib kube eth call cr fs opts = Inl err" "\<And>msg. err \<noteq> FailErr msg"
proof (cases "o_rpcURL opts = [] \<or> o_contractAddr opts = []")
  case True
  then show ?thesis using that [of ErrFlagsRequired] by (auto simp: verify_checks_def)
next
  case flags: False
  note eval = verify_checks_def flags Let_def
  show ?thesis
  proof (cases "getDeployment kube opts (o_namespace opts) (o_name opts)")
    case (Inl e)
    then show ?thesis using that flags by (simp add: eval)
  next
    case dep: (Inr dc)
    obtain dep cluster where dc: "dc = (dep, cluster)" by fastforce
    show ?thesis
    proof (cases "NewReader eth (o_rpcURL opts) (o_contractAddr opts)")
      case (Inl e)
      then show ?thesis using that flags dep dc by (simp add: eval)
    next
      case reader: (Inr reader)
      show ?thesis
      proof (cases "LatestAttestation (call reader) (DeploymentID (o_namespace opts) (o_name opts))")
        case (Inl e)
        then show ?thesis using that flags dep dc reader by (simp add: eval)
      next
        case (Inr att)
        then have "verifier_reads kube eth call opts dep cluster att"
          using flags dep dc reader by (simp add: verifier_reads_def)
        then show ?thesis using assms by blast
      qed
    qed
  qed
qed

lemma runVerify_pass_reads:
  "snd (runVerify lib kube eth call cr fs opts) = None \<longleftrightarrow>
     (\<exists>dep cluster att. verifier_reads kube eth call opts dep cluster att
        \<and> (\<exists>report. verify_record lib cr fs opts dep cluster att = Inr report))"
  using verify_checks_reads [of kube eth call opts _ _ _ lib cr fs] verify_checks_unread [of kube eth call opts lib cr fs]
  unfolding runVerify_verdict(1) by (metis sum.simps(4))

lemma runVerify_fail_reads:
  "(\<exists>msg. snd (runVerify lib kube eth call cr fs opts) = Some (FailErr msg)) \<longleftrightarrow>
     (\<exists>dep cluster att. verifier_reads kube eth call opts dep cluster att
        \<and> (\<exists>msg. verify_record lib cr fs opts dep cluster att = Inl (FailErr msg)))"
  using verify_checks_reads [of kube eth call opts _ _ _ lib cr fs] verify_checks_unread [of kube eth call opts lib cr fs]
  unfolding runVerify_verdict(2) by (metis sum.inject(1))

subsection \<open>Surfaces by version\<close>

definition version_ok :: "'k lib \<Rightarrow> u16 \<Rightarrow> 'k deployment \<Rightarrow> bool" where
  "version_ok lib v d \<longleftrightarrow> (if v = V1 then v1_ok lib d else v2_ok lib d)"

definition same_surface :: "'k lib \<Rightarrow> u16 \<Rightarrow> 'k deployment \<Rightarrow> 'k deployment \<Rightarrow> bool" where
  "same_surface lib v d d' \<longleftrightarrow>
     (if v = V1 then surfaceV1 lib d = surfaceV1 lib d' else surfaceV2 lib d = surfaceV2 lib d')"

definition version_bytes :: "'k lib \<Rightarrow> u16 \<Rightarrow> 'k deployment \<Rightarrow> bytes" where
  "version_bytes lib v d = (if v = V1 then v1_bytes lib d else v2_bytes lib d)"

lemma ConfigHashForVersion_bytes:
  assumes "Supported v" "version_ok lib v d"
  shows "ConfigHashForVersion lib v d = Inr (Sum256 (version_bytes lib v d))"
  using assms
  by (auto simp: ConfigHashForVersion_def Supported_def version_ok_def version_bytes_def V1_def V2_def
      ConfigHash_v1_bytes ConfigHashV2_v2_bytes)

lemma version_bytes_eq_iff:
  "version_ok lib v d \<Longrightarrow> version_ok lib v d' \<Longrightarrow> version_bytes lib v d = version_bytes lib v d' \<longleftrightarrow> same_surface lib v d d'"
  by (simp add: version_ok_def version_bytes_def same_surface_def v1_bytes_eq_iff v2_bytes_eq_iff split: if_splits)

lemma same_hash_same_surface:
  assumes "ConfigHashForVersion lib v d = Inr h" "ConfigHashForVersion lib v d' = Inr h"
    and ok: "version_ok lib v d" "version_ok lib v d'"
  shows "same_surface lib v d d' \<or> sha_collision (version_bytes lib v d) (version_bytes lib v d')"
  using assms(1,2) ConfigHashForVersion_Supported [OF assms(1)] version_bytes_eq_iff [OF ok]
  by (auto simp: ConfigHashForVersion_bytes ok sha_collision_def)

subsection \<open>Properties of the verifier\<close>

text \<open>
  C16: exactly when the verdict is PASS. The flags are set; the Deployment and the record of its id can be
  read; the record exists; the live Deployment hashes, under the version the record declares, to the
  recorded hash; the expected key's fingerprint is the recorded one; and the recorded signature verifies
  under that key over the digest of that version and hash. Each is necessary and together they suffice;
  the exit status is 0 in this case and no other.
\<close>

theorem verify_pass_iff:
  "exit_status (snd (runVerify lib kube eth call cr fs opts)) = 0 \<longleftrightarrow>
     o_rpcURL opts \<noteq> [] \<and> o_contractAddr opts \<noteq> []
     \<and> (\<exists>dep cluster reader att der pub.
          getDeployment kube opts (o_namespace opts) (o_name opts) = Inr (dep, cluster)
          \<and> NewReader eth (o_rpcURL opts) (o_contractAddr opts) = Inr reader
          \<and> LatestAttestation (call reader) (DeploymentID (o_namespace opts) (o_name opts)) = Inr att
          \<and> at_Exists att
          \<and> ConfigHashForVersion lib (at_HashVersion att) dep = Inr (at_ConfigHash att)
          \<and> loadPublicKey cr fs opts = Inr der \<and> Sum256 der = at_SignerFingerprint att
          \<and> ParsePublicKeyDER cr der = Inr pub
          \<and> ecdsa_VerifyASN1 cr pub
               (hash_bytes (Sum256 (signingDomain @ be16 (at_HashVersion att) @ hash_bytes (at_ConfigHash att))))
               (at_Signature att))"
proof -
  have "exit_status (snd (runVerify lib kube eth call cr fs opts)) = 0
      \<longleftrightarrow> snd (runVerify lib kube eth call cr fs opts) = None"
    by (auto simp: exit_status_def split: option.splits)
  then show ?thesis
    unfolding runVerify_pass_reads verify_record_pass_iff verify_signature_pass_iff verifier_reads_def
    by (simp add: SigningDigest_def signing_preimage_v1_def VerifyConfigHashSignature_def) blast
qed

text \<open>
  C39: exactly when the verdict is FAIL. The Deployment and the record were read, and there is no record,
  or the live Deployment hashes to something else, or the record names another key, or the signature
  does not verify. An unreachable cluster or chain, an unknown version, an object that cannot be hashed
  or a key that cannot be loaded is never reported as FAIL; but the exit status is 1 for both, so a
  caller cannot tell a FAIL from an operational error by it.
\<close>

theorem verify_fail_iff:
  "((\<exists>msg. snd (runVerify lib kube eth call cr fs opts) = Some (FailErr msg)) \<longleftrightarrow>
     (\<exists>dep cluster att. verifier_reads kube eth call opts dep cluster att
        \<and> (\<not> at_Exists att
           \<or> (\<exists>h. ConfigHashForVersion lib (at_HashVersion att) dep = Inr h
               \<and> (h \<noteq> at_ConfigHash att
                  \<or> (\<exists>der. loadPublicKey cr fs opts = Inr der
                      \<and> (Sum256 der \<noteq> at_SignerFingerprint att
                         \<or> (\<exists>pub. ParsePublicKeyDER cr der = Inr pub
                             \<and> \<not> VerifyConfigHashSignature cr pub (SigningDigest (at_HashVersion att) h)
                                  (at_Signature att)))))))))
   \<and> exit_status (Some (FailErr m)) = exit_status (Some (ErrReadingDeployment e))"
  unfolding runVerify_fail_reads verify_record_fail_iff verify_signature_fails
  by (simp add: exit_status_def)

definition sample_kube :: "unit deployment \<Rightarrow> (unit, unit) kube" where
  "sample_kube d =
     \<lparr>kube_ClientConfig = \<lambda>_ _. Inr (), kube_RawConfig = \<lambda>_ _. Inr ''kind'', kube_Host = \<lambda>_. ''https://127.0.0.1'',
      kube_NewForConfig = \<lambda>_. Inr (), kube_Get = \<lambda>_ _ _. Inr d\<rparr>"

definition sample_eth :: "(unit, unit, unit) eth" where
  "sample_eth =
     \<lparr>eth_Dial = \<lambda>_. Inr (), eth_RegistryABI = Inr (), eth_RegistryV2ABI = Inr (), eth_HexToAddress = \<lambda>_. 3,
      eth_HexToECDSA = \<lambda>_. Inr (), eth_NewKeyedTransactor = \<lambda>_ _. Inr ()\<rparr>"

definition sample_files :: files where
  "sample_files = \<lparr>os_ReadFile = \<lambda>_. Inr ''der'', pem_Decode = \<lambda>_. None, aws_LoadConfig = Inr sample_kms\<rparr>"

definition sample_options :: options where
  "sample_options =
     \<lparr>o_kubeconfig = [], o_kubecontext = [], o_namespace = ''default'', o_name = ''web'', o_rpcURL = ''http://rpc'',
      o_contractAddr = ''0x3'', o_publicKeyFile = ''key.der'', o_kmsKeyID = []\<rparr>"

text \<open>A registry that holds one record, and a verifier reading it.\<close>

definition sample_registry :: "u16 \<Rightarrow> hash32 \<Rightarrow> registry_v1" where
  "sample_registry v h =
     transact publish_v1 (the (deploy_v1 1))
       (100, 1, \<lparr>p1_deploymentId = DeploymentID ''default'' ''web'', p1_hashVersion = v, p1_configHash = h,
          p1_signature = ''sig'', p1_signerFingerprint = Sum256 ''der''\<rparr>)"

definition call_of :: "registry_v1 \<Rightarrow> ('ec, 'auth) client_v1 \<Rightarrow> hash32 \<Rightarrow> string + abi_value list" where
  "call_of r reader = (\<lambda>k. Inr (abi_getLatest_v1 r k))"

definition sample_attestation :: "u16 \<Rightarrow> hash32 \<Rightarrow> attestation" where
  "sample_attestation v h =
     \<lparr>at_ConfigHash = h, at_Signature = ''sig'', at_SignerFingerprint = Sum256 ''der'', at_BlockTimestamp = 100,
      at_HashVersion = v, at_Exists = True\<rparr>"

lemmas sample_world = sample_kube_def sample_eth_def sample_files_def sample_options_def sample_attestation_def
  getDeployment_def flag_value_def cluster_name_def loadPublicKey_def NewReader_def call_of_def

lemma sample_reads:
  assumes "v \<noteq> 0"
  shows "verifier_reads (sample_kube d) sample_eth (call_of (sample_registry v h)) sample_options d
     ''kind (https://127.0.0.1)'' (sample_attestation v h)"
proof -
  have "getLatest_v1 (sample_registry v h) (DeploymentID ''default'' ''web'')
      = \<lparr>a1_configHash = h, a1_signature = ''sig'', a1_signerFingerprint = Sum256 ''der'', a1_blockTimestamp = 100,
         a1_hashVersion = v, a1_exists = True\<rparr>"
    using assms by (simp add: sample_registry_def transact_def publish_v1_def deploy_v1_def getLatest_v1_def)
  then show ?thesis
    using LatestAttestation_reads [of "sample_registry v h" "DeploymentID ''default'' ''web''"]
    by (simp add: verifier_reads_def sample_world read_v1_def Let_def)
qed

lemma sample_passes:
  assumes "v \<noteq> 0" "ConfigHashForVersion plain_lib v d = Inr h"
  shows "snd (runVerify plain_lib (sample_kube d) sample_eth (call_of (sample_registry v h)) trusting sample_files
    sample_options) = None"
proof -
  have "verify_signature trusting sample_files sample_options (sample_attestation v h) h = Inr ()"
    unfolding verify_signature_pass_iff
    by (simp add: sample_world ParsePublicKeyDER_def trusting_def VerifyConfigHashSignature_def)
  with assms(2) sample_reads [OF assms(1)] show ?thesis
    unfolding runVerify_pass_reads verify_record_pass_iff by (fastforce simp: sample_attestation_def)
qed

lemma empty_registry_reads:
  "\<exists>att. verifier_reads (sample_kube d) sample_eth (call_of (the (deploy_v1 1))) sample_options d
     ''kind (https://127.0.0.1)'' att \<and> \<not> at_Exists att"
  using LatestAttestation_reads [of "the (deploy_v1 1)" "DeploymentID ''default'' ''web''"]
  by (simp add: verifier_reads_def sample_world Let_def read_v1_def getLatest_v1_def deploy_v1_def zero_attestation_v1_def)

theorem verify_fail_iff_witness:
  "\<exists>msg. snd (runVerify plain_lib (sample_kube zero_deployment) sample_eth (call_of (the (deploy_v1 1))) trusting
     sample_files sample_options) = Some (FailErr msg)"
  using verify_fail_iff [of plain_lib "sample_kube zero_deployment" sample_eth "call_of (the (deploy_v1 1))" trusting
      sample_files sample_options "[]" "[]"] empty_registry_reads [of zero_deployment]
  by blast

text \<open>
  What a PASS means. If a record's hash was computed for some attested Deployment and the verifier
  passes, the live Deployment agrees with the attested one on the whole surface of the record's version,
  or the two canonical texts are a SHA-256 collision.
\<close>

lemma pass_attests_surface:
  assumes "snd (runVerify lib kube eth call cr fs opts) = None"
    and "verifier_reads kube eth call opts live cluster att"
    and "ConfigHashForVersion lib (at_HashVersion att) attested = Inr (at_ConfigHash att)"
    and "version_ok lib (at_HashVersion att) live" "version_ok lib (at_HashVersion att) attested"
  shows "same_surface lib (at_HashVersion att) live attested
     \<or> sha_collision (version_bytes lib (at_HashVersion att) live) (version_bytes lib (at_HashVersion att) attested)"
proof -
  from assms(1) verify_checks_reads [OF assms(2)]
  have "\<exists>report. verify_record lib cr fs opts live cluster att = Inr report"
    unfolding runVerify_verdict(1) by metis
  then have "ConfigHashForVersion lib (at_HashVersion att) live = Inr (at_ConfigHash att)"
    unfolding verify_record_pass_iff by blast
  from same_hash_same_surface [OF this assms(3-5)] show ?thesis .
qed

text \<open>
  The warning of a v1 PASS is true. Under a v1 record the verdict and the whole report are the same for
  a Deployment with any other annotations, init containers, commands, security contexts, volumes, host
  namespaces or service account, as long as the containers keep their names, images, environment names
  and resources.
\<close>

lemma v1_verdict_blind:
  assumes "at_HashVersion att = V1"
    and "map v1_view (range_of (ps_Containers p)) = map v1_view (range_of (ps_Containers (d_PodSpec d)))"
  shows "verify_record lib cr fs opts (d\<lparr>d_Annotations := a, d_Generation := g, d_Status := st, d_PodSpec := p\<rparr>) cluster att
     = verify_record lib cr fs opts d cluster att"
  by (simp add: verify_record_def Let_def ConfigHashForVersion_def assms(1) Normalize_other_pod [OF assms(2)])

end
