(* ===== verification/Operator_Verifier.thy ===== *)
theory Operator_Verifier
  imports Manager_Main Pod_Verify
begin

section \<open>Operator, registry and verifier together\<close>

text \<open>
  The composition the repository exists for: the reconciler observes a Deployment, the publisher signs and
  publishes, the registry keeps the record, and the verifier judges a live Deployment against it.
\<close>

text \<open>What the registry holds for a job once its transaction is accepted and no later one for its id is.\<close>

lemma published_record:
  assumes "j_Version j \<noteq> 0" "publish_v1 r ts (r1_publisher r) (publish_args_of pub j sig) = Inr r'"
    and "last_accepted (\<lambda>a. p1_hashVersion a \<noteq> 0) p1_deploymentId (r1_publisher r) cs (j_DeploymentID j) = None"
  shows "getLatest_v1 (history publish_v1 r' cs) (j_DeploymentID j) = entry_v1 ts (publish_args_of pub j sig)"
proof -
  have pub: "r1_publisher r' = r1_publisher r" using assms(2) by (rule reg1.call_publisher)
  have "lookup_v1 (history publish_v1 r' cs) (j_DeploymentID j) = lookup_v1 r' (j_DeploymentID j)"
    using reg1.history_lookup [of r' cs "j_DeploymentID j"] assms(3) by (simp add: pub)
  also have "\<dots> = Some (entry_v1 ts (publish_args_of pub j sig))"
    using reg1.call_lookup [OF assms(2), of "j_DeploymentID j"] by (simp add: publish_args_of_def)
  finally show ?thesis by (auto simp: lookup_v1_def split: if_splits)
qed

lemma Reconcile_job:
  assumes "Reconcile lib rc req (Inr dep) = Inr (rc', QAdd j # calls)"
  shows "j_Version j = V1" "j_DeploymentID j = DeploymentID (rq_Namespace req) (rq_Name req)"
    "ConfigHashForVersion lib V1 dep = Inr (j_ConfigHash j)"
  using assms
  by (auto simp: Reconcile_def Let_def recordAttested_def Enqueue_v1_def CurrentVersion_def
      split: sum.splits option.splits if_splits)

text \<open>
  C3: operator and verifier agree end to end. The reconciler enqueued a job for the Deployment \<open>dep\<close>; the
  publisher, whose key came from KMS, signed it; the registry accepted it, and since then any transactions
  happened, none of them an accepted one for this Deployment's id. Then the verifier, given the
  operator's public key and reading the registry, passes a live Deployment if and only if it has the same
  v1 surface as \<open>dep\<close>, or its canonical text collides with that of \<open>dep\<close> under SHA-256: no false alarm and
  no missed change.
\<close>

theorem operator_verifier_agree:
  assumes "Reconcile lib rc req (Inr dep) = Inr (rc', QAdd j # calls)"
    and "newWithClient cr client keyID = Inr (p1_signer pub)"
    and "SignDigest cr (p1_signer pub) (SigningDigest (j_Version j) (j_ConfigHash j)) = Inr sig"
    and "publish_v1 r ts (r1_publisher r) (publish_args_of pub j sig) = Inr r'"
    and "last_accepted (\<lambda>a. p1_hashVersion a \<noteq> 0) p1_deploymentId (r1_publisher r) cs (j_DeploymentID j) = None"
    and "o_rpcURL opts \<noteq> []" "o_contractAddr opts \<noteq> []"
    and "o_namespace opts = rq_Namespace req" "o_name opts = rq_Name req"
    and "getDeployment kube opts (o_namespace opts) (o_name opts) = Inr (live, cluster)"
    and "NewReader eth (o_rpcURL opts) (o_contractAddr opts) = Inr reader"
    and "loadPublicKey cr fs opts = Inr (PublicKeyDER (p1_signer pub))"
    and "v1_ok lib dep" "v1_ok lib live"
  shows "snd (runVerify lib kube eth (call_of (history publish_v1 r' cs)) cr fs opts) = None
     \<longleftrightarrow> surfaceV1 lib live = surfaceV1 lib dep \<or> sha_collision (v1_bytes lib live) (v1_bytes lib dep)"
proof -
  note j = Reconcile_job [OF assms(1)]
  let ?rec = "entry_v1 ts (publish_args_of pub j sig)" and ?i = "DeploymentID (o_namespace opts) (o_name opts)"
  have v: "j_Version j \<noteq> 0" by (simp add: j V1_def)
  have i: "?i = j_DeploymentID j" using assms(8,9) j(2) by simp
  have "LatestAttestation (call_of (history publish_v1 r' cs) reader) ?i = Inr (read_v1 ?rec)"
    unfolding call_of_def LatestAttestation_reads i published_record [OF v assms(4,5)] ..
  then have reads: "verifier_reads kube eth (call_of (history publish_v1 r' cs)) opts live cluster (read_v1 ?rec)"
    using assms(6,7,10,11) by (auto simp: verifier_reads_def)
  have att: "at_Exists (read_v1 ?rec)" "at_HashVersion (read_v1 ?rec) = V1" "at_ConfigHash (read_v1 ?rec) = j_ConfigHash j"
    "at_SignerFingerprint (read_v1 ?rec) = Sum256 (PublicKeyDER (p1_signer pub))" "at_Signature (read_v1 ?rec) = sig"
    by (simp_all add: read_v1_def entry_v1_def publish_args_of_def j PublicKeyFingerprintBytes_def)
  have "verify_signature cr fs opts (read_v1 ?rec) (j_ConfigHash j) = Inr ()"
    using assms(12) kms.holder_verifies [OF _ assms(3)] assms(2)
    unfolding verify_signature_pass_iff att j(1) by blast
  then have "snd (runVerify lib kube eth (call_of (history publish_v1 r' cs)) cr fs opts) = None
      \<longleftrightarrow> ConfigHashForVersion lib V1 live = Inr (j_ConfigHash j)"
    unfolding runVerify_verdict(1) verify_checks_reads [OF reads] verify_record_pass_iff att by (simp add: att(1))
  also have "\<dots> \<longleftrightarrow> ConfigHashForVersion lib V1 live = ConfigHashForVersion lib V1 dep"
    using j(3) by simp
  also have "\<dots> \<longleftrightarrow> surfaceV1 lib live = surfaceV1 lib dep \<or> sha_collision (v1_bytes lib live) (v1_bytes lib dep)"
    using v1_bytes_eq_iff [OF assms(14,13)] Sum256_eqD
    by (auto simp: ConfigHashForVersion_def ConfigHash_v1_bytes sha_collision_def)
  finally show ?thesis .
qed

definition web_job :: job where
  "web_job =
     \<lparr>j_DeploymentID = DeploymentID ''default'' ''web'', j_Version = CurrentVersion, j_ConfigHash = Sum256 (v1_bytes plain_lib web_up),
      j_NamespacedName = ''default/web''\<rparr>"

lemma web_enqueued:
  "\<exists>rc'. Reconcile plain_lib \<lparr>dr_lastAttested = Some Map.empty\<rparr> web_request (Inr web_up) = Inr (rc', [QAdd web_job])"
  by (simp add: Reconcile_def Let_def web_up_converged web_up_hash alreadyAttested_def recordAttested_def Enqueue_v1_def
      web_job_def web_request_def)

theorem operator_verifier_agree_witness:
  "\<exists>r'. publish_v1 (the (deploy_v1 1)) 100 1 (publish_args_of sample_publisher web_job ''sig'') = Inr r'
     \<and> snd (runVerify plain_lib (sample_kube web_up) sample_eth (call_of (history publish_v1 r' [])) trusting sample_files
          sample_options) = None"
proof -
  obtain rc' where rec: "Reconcile plain_lib \<lparr>dr_lastAttested = Some Map.empty\<rparr> web_request (Inr web_up) = Inr (rc', [QAdd web_job])"
    using web_enqueued by blast
  have signer: "newWithClient trusting sample_kms ''alias/a'' = Inr (p1_signer sample_publisher)"
    by (simp add: sample_publisher_def New_def sample_signer_built)
  have sig: "SignDigest trusting (p1_signer sample_publisher) (SigningDigest (j_Version web_job) (j_ConfigHash web_job)) = Inr ''sig''"
    by (simp add: SignDigest_def sign_request_def sample_publisher_def New_def sample_signer_def sample_kms_def
        signingAlgorithm_def trusting_def VerifyConfigHashSignature_def)
  have p: "r1_publisher (the (deploy_v1 1)) = 1" by (simp add: deploy_v1_def)
  obtain r' where r': "publish_v1 (the (deploy_v1 1)) 100 (r1_publisher (the (deploy_v1 1)))
      (publish_args_of sample_publisher web_job ''sig'') = Inr r'"
    by (simp add: publish_v1_def deploy_v1_def publish_args_of_def web_job_def CurrentVersion_def V1_def)
  have none: "last_accepted (\<lambda>a. p1_hashVersion a \<noteq> 0) p1_deploymentId (r1_publisher (the (deploy_v1 1))) []
      (j_DeploymentID web_job) = None" by (simp add: last_accepted_def)
  have ok: "v1_ok plain_lib web_up" by (simp add: web_up_def example_eval)
  have "snd (runVerify plain_lib (sample_kube web_up) sample_eth (call_of (history publish_v1 r' [])) trusting sample_files
      sample_options) = None \<longleftrightarrow> surfaceV1 plain_lib web_up = surfaceV1 plain_lib web_up
        \<or> sha_collision (v1_bytes plain_lib web_up) (v1_bytes plain_lib web_up)"
    by (rule operator_verifier_agree [OF rec signer sig r' none])
      (simp_all add: sample_world web_request_def Let_def ok sample_publisher_def New_def PublicKeyDER_def sample_signer_def)
  with r' p show ?thesis by simp
qed

text \<open>
  A started operator fails only on what is outside it. For a job its reconciler enqueued, processing
  never fails for want of a transaction key or a version: an error comes from signing, or is the
  transaction's own.
\<close>

lemma started_operator_errors:
  assumes "manager_main cr eth loadConfig mgr v info getenv fl = Started pub r fp"
    and "Reconcile lib rc req (Inr dep) = Inr (rc', QAdd j # calls)"
    and "process_v1 cr pub send j = Inl err"
  shows "(\<exists>e. err = ErrSignV1 e) \<or> (\<exists>e. err = ErrChainV1 (ErrPublishTx e))"
proof -
  from assms(1) obtain s c where c: "NewWriter eth (mf_ethRPCURL fl) (mf_contractAddr fl) (getenv ''ETH_PRIVATE_KEY'') (sint (mf_chainID fl)) = Inr c"
    and st: "start_controller mgr s c = Started pub r fp"
    by (auto simp: manager_main_def split: if_splits option.splits sum.splits)
  from start_controller_Started [OF st] NewWriter_auth [OF c] obtain auth where "cl_auth (p1_client pub) = Some auth"
    by (auto simp: New_def)
  moreover have "j_Version j \<noteq> 0" using Reconcile_job(1) [OF assms(2)] by (simp add: V1_def)
  ultimately show ?thesis
    using assms(3)
    by (auto simp: process_v1_def PublishAttestation_def publish_args_of_def wrap_def split: sum.splits)
qed

end
