(* ===== verification/Operator_V1.thy ===== *)
theory Operator_V1
  imports Publisher_Loop Operator_Verifier
begin

section \<open>The running v1 operator\<close>

text \<open>
  The operator as it runs: reconciles, the publish worker with its queue, the transactions it has handed to a
  node, the blocks that include or drop them, transactions of others, and restarts, in any order. The
  components are those of Controller, Publisher\_V1, Kms\_Signer, Chain\_Client and Registry; here they share one
  state. KMS may answer differently at every call; a transaction whose submission failed may still have
  reached the node.

  Shown over all reachable states: where each attested hash is (\<open>attested_hash_accounted\<close>), where each record
  on chain comes from (\<open>registry_provenance\<close>), what a PASS then means (\<open>pass_means_observed\<close>), and that a
  dropped transaction is never made up for (\<open>dropped_never_retried\<close>).

  The account that writes to the registry is taken to be used by the operator only; this is the registry's
  own trust assumption.
\<close>

subsection \<open>State and steps\<close>

record 'k opstate =
  os_reconciler :: reconciler
  os_owed :: "job set"
  os_item :: "job option"
  os_mempool :: "publish_args_v1 list"
  os_registry :: registry_v1
  os_seen :: "(ctrl_request \<times> 'k deployment) list"
  os_sent :: "job set"

datatype 'k op_action =
    AReconcile ctrl_request "get_error + 'k deployment"
  | AGet job
  | APublish job
  | AFail job
  | AMine publish_args_v1
  | ADrop publish_args_v1
  | AForeign address publish_args_v1
  | ARestart

definition with_kms :: "kmsAPI \<Rightarrow> ('key, 'ec, 'auth) publisher_v1 \<Rightarrow> ('key, 'ec, 'auth) publisher_v1" where
  "with_kms kms p = p\<lparr>p1_signer := (p1_signer p)\<lparr>ks_client := kms\<rparr>\<rparr>"

definition noted :: "ctrl_request \<Rightarrow> get_error + 'k deployment \<Rightarrow> (ctrl_request \<times> 'k deployment) list" where
  "noted req get = (case get of Inl err \<Rightarrow> [] | Inr dep \<Rightarrow> [(req, dep)])"

text \<open>
  What reaches the node is what the client passes to \<^verbatim>\<open>Transact\<close>, as the contract will read it: \<open>hands_over\<close> runs the
  publisher on a node that takes the arguments \<open>a\<close> and nothing else.
\<close>

definition node_takes :: "publish_args_v1 \<Rightarrow> 'auth \<Rightarrow> abi_value list \<Rightarrow> string + string" where
  "node_takes a auth vs = (if calldata_v1 vs = Some a then Inr ''taken'' else Inl ''other'')"

definition hands_over :: "('pub, 'key) crypto \<Rightarrow> ('key, 'ec, 'auth) publisher_v1 \<Rightarrow> job \<Rightarrow> publish_args_v1 \<Rightarrow> bool" where
  "hands_over cr p j a \<longleftrightarrow> process_v1 cr p (node_takes a) j = Inr ''taken''"

inductive op_step :: "'k lib \<Rightarrow> ('pub, 'key) crypto \<Rightarrow> ('key, 'ec, 'auth) publisher_v1 \<Rightarrow> address
    \<Rightarrow> 'k opstate \<Rightarrow> 'k op_action \<Rightarrow> 'k opstate \<Rightarrow> bool" for lib cr pub me where
  reconcile: "Reconcile lib (os_reconciler s) req get = Inr (r', calls) \<Longrightarrow>
     op_step lib cr pub me s (AReconcile req get)
       (s\<lparr>os_reconciler := r', os_owed := os_owed s \<union> set (added calls), os_seen := noted req get @ os_seen s\<rparr>)"
| get: "os_item s = None \<Longrightarrow> j \<in> os_owed s \<Longrightarrow>
     op_step lib cr pub me s (AGet j) (s\<lparr>os_item := Some j, os_owed := os_owed s - {j}\<rparr>)"
| publish: "os_item s = Some j \<Longrightarrow>
     process_v1 cr (with_kms kms pub) send j = Inr txHash \<Longrightarrow> hands_over cr (with_kms kms pub) j a \<Longrightarrow>
     op_step lib cr pub me s (APublish j)
       (s\<lparr>os_item := None, os_owed := os_owed s \<union> set (added (processNext_v1 j (Inr txHash))),
          os_mempool := a # os_mempool s, os_sent := insert j (os_sent s)\<rparr>)"
| fail: "os_item s = Some j \<Longrightarrow> process_v1 cr (with_kms kms pub) send j = Inl err \<Longrightarrow>
     pool = os_mempool s
       \<or> (\<exists>a e. hands_over cr (with_kms kms pub) j a \<and> err = ErrChainV1 (ErrPublishTx e) \<and> pool = a # os_mempool s) \<Longrightarrow>
     op_step lib cr pub me s (AFail j)
       (s\<lparr>os_item := None, os_owed := os_owed s \<union> set (added (processNext_v1 j (Inl err))), os_mempool := pool\<rparr>)"
| mine: "a \<in> set (os_mempool s) \<Longrightarrow>
     op_step lib cr pub me s (AMine a)
       (s\<lparr>os_mempool := remove1 a (os_mempool s), os_registry := transact publish_v1 (os_registry s) (ts, me, a)\<rparr>)"
| drop: "a \<in> set (os_mempool s) \<Longrightarrow>
     op_step lib cr pub me s (ADrop a) (s\<lparr>os_mempool := remove1 a (os_mempool s)\<rparr>)"
| foreign: "sender \<noteq> r1_publisher (os_registry s) \<Longrightarrow>
     op_step lib cr pub me s (AForeign sender a)
       (s\<lparr>os_registry := transact publish_v1 (os_registry s) (ts, sender, a)\<rparr>)"
| restart: "SetupWithManager \<lparr>dr_lastAttested = None\<rparr> built = (r', err) \<Longrightarrow>
     op_step lib cr pub me s ARestart (s\<lparr>os_reconciler := r', os_owed := {}, os_item := None\<rparr>)"

inductive op_run :: "'k lib \<Rightarrow> ('pub, 'key) crypto \<Rightarrow> ('key, 'ec, 'auth) publisher_v1 \<Rightarrow> address
    \<Rightarrow> 'k opstate \<Rightarrow> 'k op_action list \<Rightarrow> 'k opstate \<Rightarrow> bool" for lib cr pub me where
  none: "op_run lib cr pub me s [] s"
| then_run: "op_step lib cr pub me s a s' \<Longrightarrow> op_run lib cr pub me s' as s'' \<Longrightarrow> op_run lib cr pub me s (a # as) s''"

text \<open>A started operator and a registry just deployed.\<close>

definition op_init :: "registry_v1 \<Rightarrow> 'k opstate" where
  "op_init r =
     \<lparr>os_reconciler = fst (SetupWithManager \<lparr>dr_lastAttested = None\<rparr> None), os_owed = {}, os_item = None,
      os_mempool = [], os_registry = r, os_seen = [], os_sent = {}\<rparr>"

inductive_cases op_stepE: "op_step lib cr pub me s a s'"
inductive_cases op_run_ConsE: "op_run lib cr pub me s (a # as) s'"
inductive_cases op_run_NilE: "op_run lib cr pub me s [] s'"

lemma with_kms_same:
  "publish_args_of (with_kms kms p) j sig = publish_args_of p j sig"
  "ks_pub (p1_signer (with_kms kms p)) = ks_pub (p1_signer p)"
  by (simp_all add: with_kms_def publish_args_of_def PublicKeyDER_def)

text \<open>What is handed over is the job, signed; other arguments are never taken.\<close>

lemma hands_over_iff:
  "hands_over cr (with_kms kms p) j a \<longleftrightarrow>
     (\<exists>sig. SignDigest cr (p1_signer (with_kms kms p)) (SigningDigest (j_Version j) (j_ConfigHash j)) = Inr sig
        \<and> cl_auth (p1_client p) \<noteq> None \<and> j_Version j \<noteq> 0 \<and> a = publish_args_of p j sig)"
proof -
  have client: "p1_client (with_kms kms p) = p1_client p" by (simp add: with_kms_def)
  have version: "p1_hashVersion (publish_args_of p j sig) = j_Version j" for sig by (simp add: publish_args_of_def)
  show ?thesis
    by (auto simp: hands_over_def process_v1_def PublishAttestation_def node_takes_def with_kms_same client version
        split: sum.splits option.splits if_splits)
qed

lemma hands_over_fields:
  "hands_over cr (with_kms kms p) j a \<Longrightarrow> p1_deploymentId a = j_DeploymentID j \<and> p1_configHash a = j_ConfigHash j"
  by (auto simp: hands_over_iff publish_args_of_def)

lemma added_processNext_v1:
  "added (processNext_v1 j (Inr tx)) = []" "added (processNext_v1 j (Inl err)) = [j]"
  by (simp_all add: added_def processNext_v1_def)

subsection \<open>Where jobs, transactions and records come from\<close>

text \<open>A job stands for a Deployment that was seen converged; a transaction carries such a job, signed.\<close>

definition job_ok :: "'k lib \<Rightarrow> 'k opstate \<Rightarrow> job \<Rightarrow> bool" where
  "job_ok lib s j \<longleftrightarrow>
     j_Version j = V1
     \<and> (\<exists>(req, dep) \<in> set (os_seen s). rolloutConverged dep
          \<and> DeploymentID (rq_Namespace req) (rq_Name req) = j_DeploymentID j
          \<and> ConfigHashForVersion lib V1 dep = Inr (j_ConfigHash j))"

definition args_ok :: "'k lib \<Rightarrow> ('pub, 'key) crypto \<Rightarrow> ('key, 'ec, 'auth) publisher_v1 \<Rightarrow> 'k opstate
    \<Rightarrow> publish_args_v1 \<Rightarrow> bool" where
  "args_ok lib cr pub s a \<longleftrightarrow>
     (\<exists>j sig. job_ok lib s j \<and> a = publish_args_of pub j sig
        \<and> VerifyConfigHashSignature cr (ks_pub (p1_signer pub)) (SigningDigest (j_Version j) (j_ConfigHash j)) sig)"

definition accounted :: "'k opstate \<Rightarrow> job \<Rightarrow> bool" where
  "accounted s j \<longleftrightarrow> j \<in> os_owed s \<or> os_item s = Some j \<or> j \<in> os_sent s"

definition op_inv :: "'k lib \<Rightarrow> ('pub, 'key) crypto \<Rightarrow> ('key, 'ec, 'auth) publisher_v1 \<Rightarrow> 'k opstate \<Rightarrow> bool" where
  "op_inv lib cr pub s \<longleftrightarrow>
     ready (os_reconciler s)
     \<and> (\<forall>j. j \<in> os_owed s \<or> os_item s = Some j \<longrightarrow> job_ok lib s j)
     \<and> (\<forall>a \<in> set (os_mempool s). args_ok lib cr pub s a)
     \<and> (\<forall>i rec. lookup_v1 (os_registry s) i = Some rec \<longrightarrow>
          (\<exists>ts a. args_ok lib cr pub s a \<and> rec = entry_v1 ts a \<and> p1_deploymentId a = i))
     \<and> (\<forall>i h. last_of (os_reconciler s) i = Some h \<longrightarrow>
          (\<exists>j. j_DeploymentID j = i \<and> j_ConfigHash j = h \<and> accounted s j))"

lemma op_invD:
  assumes "op_inv lib cr pub s"
  shows "ready (os_reconciler s)"
    and "j \<in> os_owed s \<or> os_item s = Some j \<Longrightarrow> job_ok lib s j"
    and "a \<in> set (os_mempool s) \<Longrightarrow> args_ok lib cr pub s a"
    and "lookup_v1 (os_registry s) i = Some rec \<Longrightarrow>
      \<exists>ts a. args_ok lib cr pub s a \<and> rec = entry_v1 ts a \<and> p1_deploymentId a = i"
    and "last_of (os_reconciler s) i = Some h \<Longrightarrow> \<exists>j. j_DeploymentID j = i \<and> j_ConfigHash j = h \<and> accounted s j"
  using assms unfolding op_inv_def by blast+

lemma job_ok_mono: "job_ok lib s j \<Longrightarrow> set (os_seen s) \<subseteq> set (os_seen s') \<Longrightarrow> job_ok lib s' j"
  by (auto simp: job_ok_def)

lemma args_ok_mono: "args_ok lib cr pub s a \<Longrightarrow> set (os_seen s) \<subseteq> set (os_seen s') \<Longrightarrow> args_ok lib cr pub s' a"
  unfolding args_ok_def using job_ok_mono by blast

text \<open>What a reconcile adds.\<close>

lemma Reconcile_adds:
  assumes "Reconcile lib r req get = Inr (r', calls)" "j \<in> set (added calls)"
  shows "\<exists>dep. get = Inr dep \<and> rolloutConverged dep \<and> j_Version j = V1
     \<and> j_DeploymentID j = DeploymentID (rq_Namespace req) (rq_Name req)
     \<and> ConfigHashForVersion lib V1 dep = Inr (j_ConfigHash j)"
  using assms
  by (auto simp: Reconcile_def Let_def recordAttested_def Enqueue_v1_def CurrentVersion_def added_def
      split: sum.splits option.splits if_splits get_error.splits)

lemma added_for_added: "h \<in> set (added_for i calls) \<Longrightarrow> \<exists>j \<in> set (added calls). j_DeploymentID j = i \<and> j_ConfigHash j = h"
  by (induction i calls rule: added_for.induct) (auto simp: added_def split: if_splits)

lemma Reconcile_accounts:
  assumes "ready r" "Reconcile lib r req get = Inr (r', calls)" "last_of r' i = Some h"
  shows "last_of r i = Some h \<or> (\<exists>j \<in> set (added calls). j_DeploymentID j = i \<and> j_ConfigHash j = h)"
  using Reconcile_abs [OF assms(1), of lib req get i] assms(2,3) added_for_added [of h i calls]
  by (auto split: option.splits if_splits)

text \<open>A transaction in a block: an accepted one writes its record, any other leaves the registry as it is.\<close>

lemma transact_v1_lookup:
  "lookup_v1 (transact publish_v1 r (ts, sender, a)) i = Some rec \<Longrightarrow>
     lookup_v1 r i = Some rec \<or> (sender = r1_publisher r \<and> rec = entry_v1 ts a \<and> p1_deploymentId a = i)"
proof (cases "accepted (\<lambda>a. p1_hashVersion a \<noteq> 0) (r1_publisher r) (ts, sender, a)")
  case True
  moreover assume "lookup_v1 (transact publish_v1 r (ts, sender, a)) i = Some rec"
  ultimately show ?thesis
    using reg1.transact_accepted(1) [OF True, of i] by (auto simp: accepted_def split: if_splits)
qed (simp add: reg1.transact_refused)

lemma op_inv_init: "deploy_v1 owner = Some r \<Longrightarrow> op_inv lib cr pub (op_init r)"
  by (auto simp: op_inv_def op_init_def SetupWithManager_def ready_def last_of_def deploy_v1_def lookup_v1_def
      getLatest_v1_def zero_attestation_v1_def split: if_splits)

lemma op_inv_reconcile:
  assumes inv: "op_inv lib cr pub s" and rec: "Reconcile lib (os_reconciler s) req get = Inr (r', calls)"
  shows "op_inv lib cr pub
    (s\<lparr>os_reconciler := r', os_owed := os_owed s \<union> set (added calls), os_seen := noted req get @ os_seen s\<rparr>)"
    (is "op_inv lib cr pub ?s")
proof -
  note ready = op_invD(1) [OF inv]
  have seen: "set (os_seen s) \<subseteq> set (os_seen ?s)" by auto
  have "ready r'" using Reconcile_abs [OF ready, of lib req get] rec by auto
  moreover have "job_ok lib ?s j" if "j \<in> set (added calls)" for j
    using Reconcile_adds [OF rec that] by (auto simp: job_ok_def noted_def)
  moreover have "job_ok lib ?s j" if "j \<in> os_owed s \<or> os_item s = Some j" for j
    using op_invD(2) [OF inv that] seen by (rule job_ok_mono)
  moreover have "args_ok lib cr pub ?s a" if "args_ok lib cr pub s a" for a
    using that seen by (rule args_ok_mono)
  moreover have "\<exists>j. j_DeploymentID j = i \<and> j_ConfigHash j = h \<and> accounted ?s j" if "last_of r' i = Some h" for i h
    using Reconcile_accounts [OF ready rec that] op_invD(5) [OF inv, of i h]
    by (auto simp: accounted_def)
  ultimately show ?thesis
    using op_invD(3,4) [OF inv] unfolding op_inv_def by (simp, blast)
qed

lemma op_inv_publish:
  assumes inv: "op_inv lib cr pub s" and item: "os_item s = Some j"
    and over: "hands_over cr (with_kms kms pub) j a"
  shows "args_ok lib cr pub s a"
proof -
  from over obtain sig where
    sig: "SignDigest cr (p1_signer (with_kms kms pub)) (SigningDigest (j_Version j) (j_ConfigHash j)) = Inr sig"
    and a: "a = publish_args_of pub j sig"
    unfolding hands_over_iff by blast
  show ?thesis
    using SignDigest_valid(2) [OF sig] op_invD(2) [OF inv, of j] item a
    unfolding args_ok_def with_kms_same by blast
qed

text \<open>Steps that only move jobs and transactions.\<close>

lemma op_inv_move:
  assumes inv: "op_inv lib cr pub s" and same: "os_seen s' = os_seen s" "os_reconciler s' = os_reconciler s"
    and jobs: "\<And>j. j \<in> os_owed s' \<or> os_item s' = Some j \<Longrightarrow> j \<in> os_owed s \<or> os_item s = Some j"
    and pool: "\<And>a. a \<in> set (os_mempool s') \<Longrightarrow> a \<in> set (os_mempool s) \<or> args_ok lib cr pub s a"
    and reg: "\<And>i rec. lookup_v1 (os_registry s') i = Some rec \<Longrightarrow>
      lookup_v1 (os_registry s) i = Some rec \<or> (\<exists>ts a. a \<in> set (os_mempool s) \<and> rec = entry_v1 ts a \<and> p1_deploymentId a = i)"
    and acc: "\<And>j. accounted s j \<Longrightarrow> accounted s' j"
  shows "op_inv lib cr pub s'"
proof -
  have jok: "job_ok lib s' j \<longleftrightarrow> job_ok lib s j" for j by (simp add: job_ok_def same)
  have aok: "args_ok lib cr pub s' a \<longleftrightarrow> args_ok lib cr pub s a" for a by (simp add: args_ok_def jok)
  have "\<exists>ts a. args_ok lib cr pub s a \<and> rec = entry_v1 ts a \<and> p1_deploymentId a = i"
    if "lookup_v1 (os_registry s') i = Some rec" for i rec
    using reg [OF that] op_invD(3,4) [OF inv] by blast
  moreover have "\<exists>j. j_DeploymentID j = i \<and> j_ConfigHash j = h \<and> accounted s' j"
    if "last_of (os_reconciler s) i = Some h" for i h
    using op_invD(5) [OF inv that] acc by blast
  ultimately show ?thesis
    using op_invD(1,2,3) [OF inv] jobs pool unfolding op_inv_def aok jok same by blast
qed

lemma op_inv_step:
  assumes inv: "op_inv lib cr pub s" and step: "op_step lib cr pub me s a s'"
  shows "op_inv lib cr pub s'"
  using step
proof (cases rule: op_step.cases)
  case (reconcile req get r' calls)
  then show ?thesis using op_inv_reconcile [OF inv] by simp
next
  case (get j)
  then show ?thesis by (intro op_inv_move [OF inv]) (auto simp: accounted_def)
next
  case (publish j kms send txHash b)
  note args = op_inv_publish [OF inv publish(3,5)]
  show ?thesis
    using publish(3) args
    by (intro op_inv_move [OF inv]) (auto simp: publish(2) accounted_def added_processNext_v1)
next
  case (fail j kms send err pool)
  have "a \<in> set (os_mempool s) \<or> args_ok lib cr pub s a" if "a \<in> set pool" for a
    using fail(5) that op_inv_publish [OF inv fail(3)] by auto
  with fail(3) show ?thesis
    by (intro op_inv_move [OF inv]) (auto simp: fail(2) accounted_def added_processNext_v1)
next
  case (mine a ts)
  then show ?thesis
    using transact_v1_lookup [of "os_registry s" ts me a]
    by (intro op_inv_move [OF inv]) (auto simp: accounted_def dest: notin_set_remove1 set_remove1_subset [THEN subsetD])
next
  case (drop a)
  then show ?thesis
    by (intro op_inv_move [OF inv]) (auto simp: accounted_def dest: set_remove1_subset [THEN subsetD])
next
  case (foreign sender a ts)
  then show ?thesis
    using transact_v1_lookup [of "os_registry s" ts sender a]
    by (intro op_inv_move [OF inv]) (auto simp: accounted_def)
next
  case (restart built r' err)
  then have r': "ready r'" "\<And>i. last_of r' i = None" by (auto simp: SetupWithManager_def ready_def last_of_def)
  have "args_ok lib cr pub s' a \<longleftrightarrow> args_ok lib cr pub s a" for a
    by (simp add: args_ok_def job_ok_def restart(2))
  then show ?thesis
    using op_invD(3,4) [OF inv] r' unfolding op_inv_def restart(2) by simp
qed

lemma op_inv_run: "op_run lib cr pub me s as s' \<Longrightarrow> op_inv lib cr pub s \<Longrightarrow> op_inv lib cr pub s'"
  by (induction rule: op_run.induct) (auto intro: op_inv_step)

lemma op_inv_reachable:
  "deploy_v1 owner = Some r \<Longrightarrow> op_run lib cr pub me (op_init r) as s \<Longrightarrow> op_inv lib cr pub s"
  using op_inv_run op_inv_init by blast

subsection \<open>A Deployment whose transaction is gone\<close>

text \<open>
  Nothing is under way for a Deployment: no job, no transaction. An action is calm for it when it lets the
  operator observe nothing but what it has recorded (a hash, or that there is nothing to record), and does not
  make it forget a recorded hash by a restart.
\<close>

definition nothing_under_way :: "'k opstate \<Rightarrow> hash32 \<Rightarrow> bool" where
  "nothing_under_way s i \<longleftrightarrow>
     (\<forall>j. j \<in> os_owed s \<or> os_item s = Some j \<longrightarrow> j_DeploymentID j \<noteq> i)
     \<and> (\<forall>a \<in> set (os_mempool s). p1_deploymentId a \<noteq> i)"

fun calm :: "'k lib \<Rightarrow> hash32 \<Rightarrow> hash32 option \<Rightarrow> 'k op_action \<Rightarrow> bool" where
  "calm lib i l (AReconcile req get) \<longleftrightarrow> observe lib i (req, get) \<in> {None, Some l}"
| "calm lib i l ARestart \<longleftrightarrow> l = None"
| "calm lib i l a \<longleftrightarrow> True"

lemma nothing_under_wayD:
  assumes "nothing_under_way s i"
  shows "j \<in> os_owed s \<Longrightarrow> j_DeploymentID j \<noteq> i" "os_item s = Some j \<Longrightarrow> j_DeploymentID j \<noteq> i"
    "a \<in> set (os_mempool s) \<Longrightarrow> p1_deploymentId a \<noteq> i"
  using assms by (auto simp: nothing_under_way_def)

lemma added_added_for: "j \<in> set (added calls) \<Longrightarrow> \<forall>k. QAddRateLimited k \<notin> set calls \<Longrightarrow>
    j_ConfigHash j \<in> set (added_for (j_DeploymentID j) calls)"
  by (induction "j_DeploymentID j" calls rule: added_for.induct) (auto simp: added_def)

lemma Reconcile_never_delays: "Reconcile lib r req get = Inr (r', calls) \<Longrightarrow> QAddRateLimited k \<notin> set calls"
  by (auto simp: Reconcile_def Let_def recordAttested_def Enqueue_v1_def
      split: sum.splits option.splits if_splits get_error.splits)

lemma Reconcile_repeats:
  assumes "ready r" "Reconcile lib r req get = Inr (r', calls)" "last_of r i = l"
    and "observe lib i (req, get) \<in> {None, Some l}"
  shows "last_of r' i = l" "j \<in> set (added calls) \<Longrightarrow> j_DeploymentID j \<noteq> i"
proof -
  have abs: "last_of r' i = l \<and> added_for i calls = []"
    using Reconcile_abs [OF assms(1), of lib req get i] assms(2-4) by (auto split: option.splits)
  then show "last_of r' i = l" by simp
  show "j_DeploymentID j \<noteq> i" if "j \<in> set (added calls)"
    using added_added_for [OF that] Reconcile_never_delays [OF assms(2)] abs by fastforce
qed

lemma transact_v1_other:
  "p1_deploymentId a \<noteq> i \<or> sender \<noteq> r1_publisher r \<Longrightarrow> lookup_v1 (transact publish_v1 r (ts, sender, a)) i = lookup_v1 r i"
  using reg1.transact_refused [of r ts sender a] reg1.transact_accepted(1) [of r ts sender a i]
  by (cases "accepted (\<lambda>a. p1_hashVersion a \<noteq> 0) (r1_publisher r) (ts, sender, a)") (auto simp: accepted_def)

definition settled_at :: "hash32 \<Rightarrow> hash32 option \<Rightarrow> attestation_v1 option \<Rightarrow> 'k opstate \<Rightarrow> bool" where
  "settled_at i l rec s \<longleftrightarrow>
     ready (os_reconciler s) \<and> last_of (os_reconciler s) i = l \<and> nothing_under_way s i
     \<and> lookup_v1 (os_registry s) i = rec"

lemma settled_at_step:
  assumes old: "settled_at i l rec s" and step: "op_step lib cr pub me s a s'" and calm: "calm lib i l a"
  shows "settled_at i l rec s'"
proof -
  have ready: "ready (os_reconciler s)" and last: "last_of (os_reconciler s) i = l"
    and none: "nothing_under_way s i" and reg: "lookup_v1 (os_registry s) i = rec"
    using old by (simp_all add: settled_at_def)
  note gone = nothing_under_wayD [OF none]
  from step show ?thesis
  proof (cases rule: op_step.cases)
    case (reconcile req get r' calls)
    have "observe lib i (req, get) \<in> {None, Some l}" using calm reconcile(1) by simp
    note rep = Reconcile_repeats [OF ready reconcile(3) last this]
    have "ready r'" using Reconcile_abs [OF ready, of lib req get] reconcile(3) by auto
    with rep gone reg show ?thesis by (auto simp: settled_at_def nothing_under_way_def reconcile(2))
  next
    case (get j)
    with gone ready last reg show ?thesis by (auto simp: settled_at_def nothing_under_way_def)
  next
    case (publish j kms send txHash b)
    have "p1_deploymentId b \<noteq> i" using gone(2) [OF publish(3)] hands_over_fields [OF publish(5)] by simp
    with gone ready last reg show ?thesis
      by (auto simp: settled_at_def nothing_under_way_def publish(2) added_processNext_v1)
  next
    case (fail j kms send err pool)
    have j: "j_DeploymentID j \<noteq> i" by (rule gone(2) [OF fail(3)])
    then have "p1_deploymentId a \<noteq> i" if "a \<in> set pool" for a
      using fail(5) that gone(3) [of a] hands_over_fields [of cr kms pub j a] by auto
    with j gone(1) ready last reg show ?thesis
      by (auto simp: settled_at_def nothing_under_way_def fail(2) added_processNext_v1)
  next
    case (mine a ts)
    have "lookup_v1 (transact publish_v1 (os_registry s) (ts, me, a)) i = rec"
      using transact_v1_other gone(3) [OF mine(3)] reg by simp
    with gone ready last show ?thesis
      by (auto simp: settled_at_def nothing_under_way_def mine(2) dest: set_remove1_subset [THEN subsetD])
  next
    case (drop a)
    with gone ready last reg show ?thesis
      by (auto simp: settled_at_def nothing_under_way_def dest: set_remove1_subset [THEN subsetD])
  next
    case (foreign sender a ts)
    have "lookup_v1 (transact publish_v1 (os_registry s) (ts, sender, a)) i = rec"
      using transact_v1_other foreign(3) reg by simp
    with gone ready last show ?thesis by (auto simp: settled_at_def nothing_under_way_def foreign(2))
  next
    case (restart built r' err)
    then have "ready r'" "last_of r' i = None" by (auto simp: SetupWithManager_def ready_def last_of_def)
    with calm gone reg show ?thesis by (auto simp: settled_at_def nothing_under_way_def restart(1,2))
  qed
qed

lemma settled_at_run:
  "op_run lib cr pub me s as s' \<Longrightarrow> list_all (calm lib i l) as \<Longrightarrow> settled_at i l rec s \<Longrightarrow> settled_at i l rec s'"
  by (induction rule: op_run.induct) (auto intro: settled_at_step)

subsection \<open>From a restart to a record\<close>

definition job_for :: "ctrl_request \<Rightarrow> hash32 \<Rightarrow> job" where
  "job_for req h =
     \<lparr>j_DeploymentID = DeploymentID (rq_Namespace req) (rq_Name req), j_Version = CurrentVersion, j_ConfigHash = h,
      j_NamespacedName = rq_String req\<rparr>"

definition sent_state :: "'k opstate \<Rightarrow> ctrl_request \<Rightarrow> 'k deployment \<Rightarrow> hash32 \<Rightarrow> publish_args_v1 \<Rightarrow> 'k opstate" where
  "sent_state s req dep h a =
     s\<lparr>os_reconciler := \<lparr>dr_lastAttested = Some [DeploymentID (rq_Namespace req) (rq_Name req) \<mapsto> h]\<rparr>,
       os_seen := (req, dep) # os_seen s, os_item := None, os_owed := {}, os_mempool := a # os_mempool s,
       os_sent := insert (job_for req h) (os_sent s)\<rparr>"

definition recovery :: "ctrl_request \<Rightarrow> 'k deployment \<Rightarrow> hash32 \<Rightarrow> 'k op_action list" where
  "recovery req dep h = [ARestart, AReconcile req (Inr dep), AGet (job_for req h), APublish (job_for req h)]"

lemma op_run_append:
  "op_run lib cr pub me s as s' \<Longrightarrow> op_run lib cr pub me s' bs s'' \<Longrightarrow> op_run lib cr pub me s (as @ bs) s''"
  by (induction rule: op_run.induct) (auto intro: op_run.then_run)

lemma op_run_single: "op_step lib cr pub me s a s' \<Longrightarrow> op_run lib cr pub me s [a] s'"
  by (auto intro: op_run.intros)

text \<open>The steps of an operator whose calls succeed, or fail without effect.\<close>

lemma reconcile_new:
  assumes "os_reconciler s = \<lparr>dr_lastAttested = Some m\<rparr>" "m (DeploymentID (rq_Namespace req) (rq_Name req)) \<noteq> Some h"
    and "rolloutConverged dep" "ConfigHashForVersion lib CurrentVersion dep = Inr h"
  shows "op_step lib cr pub me s (AReconcile req (Inr dep))
    (s\<lparr>os_reconciler := \<lparr>dr_lastAttested = Some (m(DeploymentID (rq_Namespace req) (rq_Name req) \<mapsto> h))\<rparr>,
       os_owed := insert (job_for req h) (os_owed s), os_seen := (req, dep) # os_seen s\<rparr>)"
proof -
  have "Reconcile lib (os_reconciler s) req (Inr dep)
      = Inr (\<lparr>dr_lastAttested = Some (m(DeploymentID (rq_Namespace req) (rq_Name req) \<mapsto> h))\<rparr>, [QAdd (job_for req h)])"
    using assms
    by (auto simp: Reconcile_def Let_def alreadyAttested_def recordAttested_def Enqueue_v1_def job_for_def split: option.splits)
  from op_step.reconcile [OF this, of cr pub me] show ?thesis by (simp add: added_def noted_def)
qed

lemma publish_signed:
  assumes "os_item s = Some (job_for req h)" "cl_auth (p1_client pub) \<noteq> None"
    and "SignDigest cr (p1_signer (with_kms kms pub)) (SigningDigest CurrentVersion h) = Inr sig"
  shows "op_step lib cr pub me s (APublish (job_for req h))
    (s\<lparr>os_item := None, os_mempool := publish_args_of pub (job_for req h) sig # os_mempool s,
       os_sent := insert (job_for req h) (os_sent s)\<rparr>)"
proof -
  let ?a = "publish_args_of pub (job_for req h) sig"
  have over: "hands_over cr (with_kms kms pub) (job_for req h) ?a"
    using assms(2,3) by (simp add: hands_over_iff job_for_def CurrentVersion_def V1_def)
  show ?thesis
    using op_step.publish [OF assms(1) over [unfolded hands_over_def] over, of lib me] by (simp add: added_processNext_v1)
qed

lemma fail_unsent:
  assumes "os_item s = Some j"
  shows "op_step lib cr pub me s (AFail j) (s\<lparr>os_item := None, os_owed := insert j (os_owed s)\<rparr>)"
proof -
  have "\<exists>err. process_v1 cr (with_kms kms pub) (\<lambda>_ _. Inl ''refused'') j = Inl err" for kms
    by (auto simp: process_v1_def PublishAttestation_def split: sum.splits option.splits)
  then obtain kms err where "process_v1 cr (with_kms kms pub) (\<lambda>_ _. Inl ''refused'') j = Inl err" by blast
  from op_step.fail [OF assms this disjI1 [OF refl], of lib me] have "op_step lib cr pub me s (AFail j)
      (s\<lparr>os_item := None, os_owed := insert j (os_owed s), os_mempool := os_mempool s\<rparr>)"
    by (simp add: added_processNext_v1)
  also have "s\<lparr>os_item := None, os_owed := insert j (os_owed s), os_mempool := os_mempool s\<rparr>
      = s\<lparr>os_item := None, os_owed := insert j (os_owed s)\<rparr>"
    by (rule opstate.equality) simp_all
  finally show ?thesis .
qed

lemma recovery_sends:
  assumes conv: "rolloutConverged dep" "ConfigHashForVersion lib CurrentVersion dep = Inr h"
    and sig: "SignDigest cr (p1_signer (with_kms kms pub)) (SigningDigest CurrentVersion h) = Inr sig"
    and auth: "cl_auth (p1_client pub) = Some auth"
  shows "op_run lib cr pub me s (recovery req dep h) (sent_state s req dep h (publish_args_of pub (job_for req h) sig))"
proof -
  let ?j = "job_for req h" and ?r0 = "\<lparr>dr_lastAttested = Some Map.empty\<rparr>"
    and ?r1 = "\<lparr>dr_lastAttested = Some [DeploymentID (rq_Namespace req) (rq_Name req) \<mapsto> h]\<rparr>"
  define s0 where "s0 = s\<lparr>os_reconciler := ?r0, os_owed := {}, os_item := None\<rparr>"
  define s1 where "s1 = s0\<lparr>os_reconciler := ?r1, os_owed := {?j}, os_seen := (req, dep) # os_seen s\<rparr>"
  define s2 where "s2 = s1\<lparr>os_item := Some ?j, os_owed := {}\<rparr>"
  have "op_step lib cr pub me s ARestart s0"
    unfolding s0_def by (rule op_step.restart [of None]) (simp add: SetupWithManager_def)
  moreover have "op_step lib cr pub me s0 (AReconcile req (Inr dep)) s1"
    using reconcile_new [of s0 Map.empty, OF _ _ conv] by (simp add: s0_def s1_def)
  moreover have "op_step lib cr pub me s1 (AGet ?j) s2"
    using op_step.get [of s1 ?j] by (simp add: s1_def s2_def s0_def)
  moreover have "sent_state s req dep h (publish_args_of pub ?j sig)
      = s2\<lparr>os_item := None, os_mempool := publish_args_of pub ?j sig # os_mempool s2, os_sent := insert ?j (os_sent s2)\<rparr>"
    by (rule opstate.equality) (simp_all add: s2_def s1_def s0_def sent_state_def)
  then have "op_step lib cr pub me s2 (APublish ?j) (sent_state s req dep h (publish_args_of pub ?j sig))"
    using publish_signed [of s2 req h pub cr kms sig lib me] sig auth by (simp add: s2_def)
  ultimately show ?thesis unfolding recovery_def by (blast intro: op_run.then_run op_run.none)
qed

lemma mined_record:
  assumes "r1_publisher (os_registry s) = me" "a \<in> set (os_mempool s)" "p1_hashVersion a \<noteq> 0"
  shows "\<exists>s'. op_step lib cr pub me s (AMine a) s'
     \<and> lookup_v1 (os_registry s') (p1_deploymentId a) = Some (entry_v1 ts a)"
proof -
  have "accepted (\<lambda>a. p1_hashVersion a \<noteq> 0) (r1_publisher (os_registry s)) (ts, me, a)"
    using assms by (simp add: accepted_def)
  then have "lookup_v1 (transact publish_v1 (os_registry s) (ts, me, a)) (p1_deploymentId a) = Some (entry_v1 ts a)"
    using reg1.transact_accepted(1) [of "os_registry s" ts me a "p1_deploymentId a"] by simp
  with op_step.mine [OF assms(2), of lib cr pub me ts] show ?thesis by fastforce
qed

lemma sent_state_mined:
  assumes "r1_publisher (os_registry s) = me" and a: "a = publish_args_of pub (job_for req h) sig"
  shows "\<exists>s'. op_step lib cr pub me (sent_state s req dep h a) (AMine a) s'
     \<and> lookup_v1 (os_registry s') (DeploymentID (rq_Namespace req) (rq_Name req)) = Some (entry_v1 ts a)"
proof -
  have "p1_hashVersion a \<noteq> 0" "p1_deploymentId a = DeploymentID (rq_Namespace req) (rq_Name req)"
    by (simp_all add: a publish_args_of_def job_for_def CurrentVersion_def V1_def)
  with mined_record [of "sent_state s req dep h a" me a lib cr pub ts] assms(1) show ?thesis
    by (simp add: sent_state_def)
qed

text \<open>A sample operator: its first run, after which the transaction is in the pool.\<close>

definition sample_hash :: hash32 where
  "sample_hash = Sum256 (v1_bytes plain_lib web_up)"

definition sample_sent_args :: publish_args_v1 where
  "sample_sent_args = publish_args_of sample_publisher (job_for web_request sample_hash) ''sig''"

definition sample_sent :: "unit opstate" where
  "sample_sent = sent_state (op_init (the (deploy_v1 1))) web_request web_up sample_hash sample_sent_args"

lemma sample_signs: "SignDigest trusting (p1_signer (with_kms sample_kms sample_publisher)) digest = Inr ''sig''"
  by (simp add: SignDigest_def sign_request_def with_kms_def sample_publisher_def New_def sample_signer_def sample_kms_def
      signingAlgorithm_def trusting_def VerifyConfigHashSignature_def)

lemma sample_auth: "cl_auth (p1_client sample_publisher) = Some ()"
  by (simp add: sample_publisher_def New_def)

lemma sample_deployed: "deploy_v1 1 = Some (the (deploy_v1 1))" "r1_publisher (the (deploy_v1 1)) = 1"
  by (simp_all add: deploy_v1_def)

lemma sample_recovery:
  "op_run plain_lib trusting sample_publisher 1 s (recovery web_request web_up sample_hash)
     (sent_state s web_request web_up sample_hash sample_sent_args)"
  unfolding sample_sent_args_def
  by (rule recovery_sends [OF web_up_converged _ sample_signs sample_auth]) (simp add: web_up_hash sample_hash_def)

lemma sample_sent_reachable:
  "op_run plain_lib trusting sample_publisher 1 (op_init (the (deploy_v1 1))) (recovery web_request web_up sample_hash)
     sample_sent"
  unfolding sample_sent_def by (rule sample_recovery)

lemma sample_mined:
  "\<exists>s as. op_run plain_lib trusting sample_publisher 1 (op_init (the (deploy_v1 1))) as s
     \<and> lookup_v1 (os_registry s) (DeploymentID ''default'' ''web'') = Some (entry_v1 100 sample_sent_args)
     \<and> set (os_seen s) = {(web_request, web_up)}"
proof -
  have own: "r1_publisher (os_registry (op_init (the (deploy_v1 1)) :: unit opstate)) = 1"
    by (simp add: op_init_def sample_deployed(2))
  have req: "DeploymentID (rq_Namespace web_request) (rq_Name web_request) = DeploymentID ''default'' ''web''"
    by (simp only: web_request_def ctrl_request.select_convs)
  obtain s where s: "op_step plain_lib trusting sample_publisher 1 sample_sent (AMine sample_sent_args) s"
    and rec: "lookup_v1 (os_registry s) (DeploymentID ''default'' ''web'') = Some (entry_v1 100 sample_sent_args)"
    using sent_state_mined [OF own sample_sent_args_def, of plain_lib trusting web_up 100]
    unfolding sample_sent_def req by blast
  have "set (os_seen s) = {(web_request, web_up)}"
    using s by (cases rule: op_step.cases) (simp add: sample_sent_def sent_state_def op_init_def)
  with op_run_append [OF sample_sent_reachable op_run_single [OF s]] rec show ?thesis by blast
qed

lemma sample_record_passes:
  assumes "getLatest_v1 reg (DeploymentID ''default'' ''web'') = entry_v1 100 sample_sent_args"
  shows "snd (runVerify plain_lib (sample_kube web_up) sample_eth (call_of reg) trusting sample_files sample_options) = None"
proof -
  let ?att = "read_v1 (entry_v1 100 sample_sent_args)"
  have att: "at_Exists ?att" "at_HashVersion ?att = CurrentVersion" "at_ConfigHash ?att = sample_hash"
    "at_SignerFingerprint ?att = Sum256 ''der''" "at_Signature ?att = ''sig''"
    by (simp_all add: read_v1_def entry_v1_def sample_sent_args_def publish_args_of_def job_for_def
        PublicKeyFingerprintBytes_def sample_publisher_def New_def PublicKeyDER_def sample_signer_def)
  have "verifier_reads (sample_kube web_up) sample_eth (call_of reg) sample_options web_up ''kind (https://127.0.0.1)'' ?att"
    using LatestAttestation_reads [of reg "DeploymentID ''default'' ''web''"] assms
    by (simp add: verifier_reads_def sample_world Let_def)
  moreover have "verify_signature trusting sample_files sample_options ?att sample_hash = Inr ()"
    unfolding verify_signature_pass_iff att
    by (simp add: sample_world ParsePublicKeyDER_def trusting_def VerifyConfigHashSignature_def)
  ultimately show ?thesis
    unfolding runVerify_pass_reads verify_record_pass_iff using att web_up_hash
    by (metis sample_hash_def)
qed

subsection \<open>Properties of the running operator\<close>

text \<open>What the record of a reachable registry carries.\<close>

lemma record_origin:
  assumes "op_inv lib cr pub s" "lookup_v1 (os_registry s) i = Some rec"
  shows "\<exists>(req, dep) \<in> set (os_seen s). rolloutConverged dep \<and> DeploymentID (rq_Namespace req) (rq_Name req) = i
     \<and> a1_hashVersion rec = V1 \<and> ConfigHashForVersion lib V1 dep = Inr (a1_configHash rec)
     \<and> a1_signerFingerprint rec = Sum256 (PublicKeyDER (p1_signer pub))
     \<and> VerifyConfigHashSignature cr (ks_pub (p1_signer pub)) (SigningDigest V1 (a1_configHash rec)) (a1_signature rec)"
proof -
  obtain ts j sig where j: "job_ok lib s j" and rec: "rec = entry_v1 ts (publish_args_of pub j sig)"
    and v: "VerifyConfigHashSignature cr (ks_pub (p1_signer pub)) (SigningDigest (j_Version j) (j_ConfigHash j)) sig"
    and i: "p1_deploymentId (publish_args_of pub j sig) = i"
    using op_invD(4) [OF assms] unfolding args_ok_def by blast
  have fields: "a1_hashVersion rec = j_Version j" "a1_configHash rec = j_ConfigHash j" "a1_signature rec = sig"
    "a1_signerFingerprint rec = Sum256 (PublicKeyDER (p1_signer pub))" "i = j_DeploymentID j"
    using i by (simp_all add: rec entry_v1_def publish_args_of_def PublicKeyFingerprintBytes_def)
  from j v show ?thesis unfolding fields job_ok_def by auto
qed

text \<open>
  C4: every record has an origin. Whatever the operator, KMS, the node, other accounts and restarts do, a record
  in the registry is for a Deployment the operator observed with its rollout converged under that id, carries
  the v1 hash of exactly that observed object and the fingerprint of the operator's key, and its signature
  verifies under that key over version and hash. KMS answers that are wrong never reach the chain.
\<close>

theorem registry_provenance:
  assumes "deploy_v1 owner = Some r" "op_run lib cr pub me (op_init r) as s"
    and "lookup_v1 (os_registry s) i = Some rec"
  shows "\<exists>(req, dep) \<in> set (os_seen s). rolloutConverged dep \<and> DeploymentID (rq_Namespace req) (rq_Name req) = i
     \<and> a1_hashVersion rec = V1 \<and> ConfigHashForVersion lib V1 dep = Inr (a1_configHash rec)
     \<and> a1_signerFingerprint rec = Sum256 (PublicKeyDER (p1_signer pub))
     \<and> VerifyConfigHashSignature cr (ks_pub (p1_signer pub)) (SigningDigest V1 (a1_configHash rec)) (a1_signature rec)"
  using record_origin [OF op_inv_reachable [OF assms(1,2)] assms(3)] .

theorem registry_provenance_witness:
  "\<exists>s as rec. op_run plain_lib trusting sample_publisher 1 (op_init (the (deploy_v1 1))) as s
     \<and> lookup_v1 (os_registry s) (DeploymentID ''default'' ''web'') = Some rec
     \<and> ConfigHashForVersion plain_lib V1 web_up = Inr (a1_configHash rec)"
proof -
  obtain s as where run: "op_run plain_lib trusting sample_publisher 1 (op_init (the (deploy_v1 1))) as s"
    and rec: "lookup_v1 (os_registry s) (DeploymentID ''default'' ''web'') = Some (entry_v1 100 sample_sent_args)"
    and seen: "set (os_seen s) = {(web_request, web_up)}"
    using sample_mined by blast
  have "ConfigHashForVersion plain_lib V1 web_up = Inr (a1_configHash (entry_v1 100 sample_sent_args))"
    using registry_provenance [OF sample_deployed(1) run rec] unfolding seen by simp
  with run rec show ?thesis by blast
qed

lemma pass_record:
  assumes "snd (runVerify lib kube eth (call_of reg) cr fs opts) = None"
    and "getDeployment kube opts (o_namespace opts) (o_name opts) = Inr (live, cluster)"
  defines "rec \<equiv> getLatest_v1 reg (DeploymentID (o_namespace opts) (o_name opts))"
  shows "a1_exists rec" "ConfigHashForVersion lib (a1_hashVersion rec) live = Inr (a1_configHash rec)"
proof -
  from assms(1) obtain dep cluster' att where
    reads: "verifier_reads kube eth (call_of reg) opts dep cluster' att"
    and ok: "at_Exists att" "ConfigHashForVersion lib (at_HashVersion att) dep = Inr (at_ConfigHash att)"
    unfolding runVerify_pass_reads verify_record_pass_iff by blast
  from reads assms(2) have "dep = live" "att = read_v1 rec"
    by (auto simp: verifier_reads_def call_of_def LatestAttestation_reads rec_def)
  with ok show "a1_exists rec" "ConfigHashForVersion lib (a1_hashVersion rec) live = Inr (a1_configHash rec)"
    by (simp_all add: read_v1_def)
qed

text \<open>
  C17: what a PASS means for a running operator. In any reachable state, if the verifier passes a live Deployment
  against the registry, then the operator has observed, under the same id and with its rollout converged, a
  Deployment with the same v1 surface as the live one, or one whose canonical text collides with
  the live one's under SHA-256.
\<close>

theorem pass_means_observed:
  assumes "deploy_v1 owner = Some r" "op_run lib cr pub me (op_init r) as s"
    and "snd (runVerify lib kube eth (call_of (os_registry s)) cr fs opts) = None"
    and "getDeployment kube opts (o_namespace opts) (o_name opts) = Inr (live, cluster)"
    and "v1_ok lib live" "\<And>req dep. (req, dep) \<in> set (os_seen s) \<Longrightarrow> v1_ok lib dep"
  shows "\<exists>(req, dep) \<in> set (os_seen s). rolloutConverged dep
     \<and> DeploymentID (rq_Namespace req) (rq_Name req) = DeploymentID (o_namespace opts) (o_name opts)
     \<and> (surfaceV1 lib live = surfaceV1 lib dep \<or> sha_collision (v1_bytes lib live) (v1_bytes lib dep))"
proof -
  let ?i = "DeploymentID (o_namespace opts) (o_name opts)" and ?rec = "getLatest_v1 (os_registry s)"
  note pass = pass_record [OF assms(3,4)]
  from pass(1) have "lookup_v1 (os_registry s) ?i = Some (?rec ?i)" by (simp add: lookup_v1_def)
  from record_origin [OF op_inv_reachable [OF assms(1,2)] this]
  obtain req dep where dep: "(req, dep) \<in> set (os_seen s)" "rolloutConverged dep"
    "DeploymentID (rq_Namespace req) (rq_Name req) = ?i" "a1_hashVersion (?rec ?i) = V1"
    "ConfigHashForVersion lib V1 dep = Inr (a1_configHash (?rec ?i))"
    by blast
  have "same_surface lib V1 live dep \<or> sha_collision (version_bytes lib V1 live) (version_bytes lib V1 dep)"
    using pass(2) dep(4,5) assms(5) assms(6) [OF dep(1)]
    by (intro same_hash_same_surface) (simp_all add: version_ok_def)
  with dep show ?thesis by (auto simp: same_surface_def version_bytes_def)
qed

theorem pass_means_observed_witness:
  "\<exists>s as. op_run plain_lib trusting sample_publisher 1 (op_init (the (deploy_v1 1))) as s
     \<and> snd (runVerify plain_lib (sample_kube web_up) sample_eth (call_of (os_registry s)) trusting sample_files
          sample_options) = None
     \<and> (\<exists>(req, dep) \<in> set (os_seen s). rolloutConverged dep)"
proof -
  obtain s as where run: "op_run plain_lib trusting sample_publisher 1 (op_init (the (deploy_v1 1))) as s"
    and rec: "lookup_v1 (os_registry s) (DeploymentID ''default'' ''web'') = Some (entry_v1 100 sample_sent_args)"
    and seen: "set (os_seen s) = {(web_request, web_up)}"
    using sample_mined by blast
  have "getLatest_v1 (os_registry s) (DeploymentID ''default'' ''web'') = entry_v1 100 sample_sent_args"
    using rec by (auto simp: lookup_v1_def split: if_splits)
  then have pass: "snd (runVerify plain_lib (sample_kube web_up) sample_eth (call_of (os_registry s)) trusting sample_files
      sample_options) = None"
    by (rule sample_record_passes)
  have live: "getDeployment (sample_kube web_up) sample_options (o_namespace sample_options) (o_name sample_options)
      = Inr (web_up, ''kind (https://127.0.0.1)'')"
    by (simp add: sample_world Let_def)
  have ok: "v1_ok plain_lib web_up" by (simp add: web_up_def example_eval)
  have "\<exists>(req, dep) \<in> set (os_seen s). rolloutConverged dep
      \<and> DeploymentID (rq_Namespace req) (rq_Name req) = DeploymentID (o_namespace sample_options) (o_name sample_options)
      \<and> (surfaceV1 plain_lib web_up = surfaceV1 plain_lib dep
         \<or> sha_collision (v1_bytes plain_lib web_up) (v1_bytes plain_lib dep))"
    by (rule pass_means_observed [OF sample_deployed(1) run pass live ok]) (use ok seen in auto)
  with run pass show ?thesis by blast
qed

text \<open>
  C36: no attested hash is made up. In any reachable state, a hash the reconciler has recorded for a Deployment,
  and so will not enqueue again, belongs to a job of that Deployment that is owed by the queue, in the hands of
  the worker, or was handed to a node. Failures of KMS and of the node keep the job owed.
\<close>

theorem attested_hash_accounted:
  assumes "deploy_v1 owner = Some r" "op_run lib cr pub me (op_init r) as s"
    and "last_of (os_reconciler s) i = Some h"
  shows "\<exists>j. j_DeploymentID j = i \<and> j_ConfigHash j = h \<and> (j \<in> os_owed s \<or> os_item s = Some j \<or> j \<in> os_sent s)"
  using op_invD(5) [OF op_inv_reachable [OF assms(1,2)] assms(3)] by (simp add: accounted_def)

theorem attested_hash_accounted_witness:
  "last_of (os_reconciler sample_sent) (DeploymentID ''default'' ''web'') = Some sample_hash
   \<and> (\<exists>j. j_ConfigHash j = sample_hash \<and> (j \<in> os_owed sample_sent \<or> os_item sample_sent = Some j \<or> j \<in> os_sent sample_sent))"
proof -
  have "last_of (os_reconciler sample_sent) (DeploymentID ''default'' ''web'') = Some sample_hash"
    by (simp add: sample_sent_def sent_state_def last_of_def web_request_def)
  with attested_hash_accounted [OF sample_deployed(1) sample_sent_reachable this] show ?thesis by blast
qed

text \<open>
  C37: v1 takes sent for published. Once the operator has recorded a hash for a Deployment and neither a job nor a
  transaction of it is left, because its transaction was dropped, say, then as long as the operator is not
  restarted and observes nothing new of this Deployment, the registry keeps what it held for it (possibly
  nothing), no job for it is made and no transaction of it is sent, whatever else happens.
\<close>

theorem dropped_never_retried:
  assumes "deploy_v1 owner = Some r" "op_run lib cr pub me (op_init r) as s"
    and "last_of (os_reconciler s) i = Some h" "nothing_under_way s i"
    and "op_run lib cr pub me s bs s'" "list_all (calm lib i (Some h)) bs"
  shows "lookup_v1 (os_registry s') i = lookup_v1 (os_registry s) i \<and> nothing_under_way s' i
     \<and> last_of (os_reconciler s') i = Some h"
proof -
  have "settled_at i (Some h) (lookup_v1 (os_registry s) i) s"
    using op_invD(1) [OF op_inv_reachable [OF assms(1,2)]] assms(3,4) by (simp add: settled_at_def)
  from settled_at_run [OF assms(5,6) this] show ?thesis by (simp add: settled_at_def)
qed

definition sample_dropped :: "unit opstate" where
  "sample_dropped = sample_sent\<lparr>os_mempool := []\<rparr>"

lemma sample_dropped_reachable:
  "op_run plain_lib trusting sample_publisher 1 (op_init (the (deploy_v1 1)))
     (recovery web_request web_up sample_hash @ [ADrop sample_sent_args]) sample_dropped"
proof -
  have "op_step plain_lib trusting sample_publisher 1 sample_sent (ADrop sample_sent_args)
      (sample_sent\<lparr>os_mempool := remove1 sample_sent_args (os_mempool sample_sent)\<rparr>)"
    by (rule op_step.drop) (simp add: sample_sent_def sent_state_def)
  also have "sample_sent\<lparr>os_mempool := remove1 sample_sent_args (os_mempool sample_sent)\<rparr> = sample_dropped"
    by (simp add: sample_dropped_def sample_sent_def sent_state_def op_init_def)
  finally show ?thesis using op_run_append [OF sample_sent_reachable op_run_single] by blast
qed

theorem dropped_never_retried_witness:
  "lookup_v1 (os_registry sample_dropped) (DeploymentID ''default'' ''web'') = None
   \<and> nothing_under_way sample_dropped (DeploymentID ''default'' ''web'')"
proof -
  have h: "last_of (os_reconciler sample_dropped) (DeploymentID ''default'' ''web'') = Some sample_hash"
    by (simp add: sample_dropped_def sample_sent_def sent_state_def last_of_def web_request_def)
  have none: "nothing_under_way sample_dropped (DeploymentID ''default'' ''web'')"
    by (simp add: nothing_under_way_def sample_dropped_def sample_sent_def sent_state_def)
  have "lookup_v1 (os_registry sample_dropped) (DeploymentID ''default'' ''web'') = None"
    by (simp add: sample_dropped_def sample_sent_def sent_state_def op_init_def deploy_v1_def lookup_v1_def
        getLatest_v1_def zero_attestation_v1_def)
  with dropped_never_retried [OF sample_deployed(1) sample_dropped_reachable h none op_run.none] show ?thesis by simp
qed

end
