(* ===== verification/Operator_V1_Order.thy ===== *)
theory Operator_V1_Order
  imports Operator_V1
begin

section \<open>The order of v1 publications\<close>

text \<open>
  When the registry agrees with the cluster, and when it does not. The operator is the one of Operator\_V1, in
  which the queue keeps one entry per distinct job, a failed job comes back later and the node may include
  transactions late. As long as the states of a Deployment come one at a time, the registry ends with the last
  one observed (\<open>registry_follows_cluster\<close>), also after a restart that lost jobs (\<open>restart_recovers\<close>). Without that
  proviso it need not: a retry that comes after a newer job overwrites it (\<open>stale_retry_overwrites\<close>), and a
  state that comes back while it is still queued is published before the state in between
  (\<open>coalesced_job_loses_order\<close>); in both cases nothing repairs the record.
\<close>

subsection \<open>States that come one at a time\<close>

text \<open>
  Everything under way for a Deployment carries one hash. A run is in turn for a Deployment when its states are
  observed one at a time: a hash is observed only when nothing under way for the Deployment carries another one;
  none of its transactions is dropped, and no restart loses one of its jobs. Failures, retries, late
  inclusion, deletions, other Deployments and other accounts are not restricted.
\<close>

definition only_under_way :: "'k opstate \<Rightarrow> hash32 \<Rightarrow> hash32 \<Rightarrow> bool" where
  "only_under_way s i h \<longleftrightarrow>
     (\<forall>j. j \<in> os_owed s \<or> os_item s = Some j \<longrightarrow> j_DeploymentID j = i \<longrightarrow> j_ConfigHash j = h)
     \<and> (\<forall>a \<in> set (os_mempool s). p1_deploymentId a = i \<longrightarrow> p1_configHash a = h)"

fun in_turn :: "'k lib \<Rightarrow> hash32 \<Rightarrow> 'k opstate \<Rightarrow> 'k op_action \<Rightarrow> bool" where
  "in_turn lib i s (AReconcile req get) \<longleftrightarrow>
     (case observe lib i (req, get) of Some (Some h) \<Rightarrow> only_under_way s i h | _ \<Rightarrow> True)"
| "in_turn lib i s (ADrop a) \<longleftrightarrow> p1_deploymentId a \<noteq> i"
| "in_turn lib i s ARestart \<longleftrightarrow> (\<forall>j. j \<in> os_owed s \<or> os_item s = Some j \<longrightarrow> j_DeploymentID j \<noteq> i)"
| "in_turn lib i s a \<longleftrightarrow> True"

inductive run_in_turn :: "'k lib \<Rightarrow> ('pub, 'key) crypto \<Rightarrow> ('key, 'ec, 'auth) publisher_v1 \<Rightarrow> address \<Rightarrow> hash32
    \<Rightarrow> 'k opstate \<Rightarrow> 'k op_action list \<Rightarrow> 'k opstate \<Rightarrow> bool" for lib cr pub me i where
  none: "run_in_turn lib cr pub me i s [] s"
| then_run: "op_step lib cr pub me s a s' \<Longrightarrow> in_turn lib i s a \<Longrightarrow> run_in_turn lib cr pub me i s' as s'' \<Longrightarrow>
     run_in_turn lib cr pub me i s (a # as) s''"

text \<open>The reconciles of a run, and the last hash a list of observations gives.\<close>

fun event_of_action :: "'k op_action \<Rightarrow> (ctrl_request \<times> (get_error + 'k deployment)) list" where
  "event_of_action (AReconcile req get) = [(req, get)]"
| "event_of_action a = []"

definition events_of :: "'k op_action list \<Rightarrow> (ctrl_request \<times> (get_error + 'k deployment)) list" where
  "events_of as = concat (map event_of_action as)"

definition last_hash :: "hash32 option \<Rightarrow> hash32 option list \<Rightarrow> hash32 option" where
  "last_hash start obs = foldl (\<lambda>acc x. case x of None \<Rightarrow> acc | Some h \<Rightarrow> Some h) start obs"

lemma run_in_turn_run: "run_in_turn lib cr pub me i s as s' \<Longrightarrow> op_run lib cr pub me s as s'"
  by (induction rule: run_in_turn.induct) (auto intro: op_run.intros)

lemma last_hash_run:
  "last_hash l (observed lib i (events_of (a # as)))
   = last_hash (last_hash l (observed lib i (event_of_action a))) (observed lib i (events_of as))"
proof -
  have "List.map_filter (observe lib i) (xs @ ys) = List.map_filter (observe lib i) xs @ List.map_filter (observe lib i) ys"
    for xs ys
    by (induction xs) (simp_all add: map_filter_simps split: option.splits)
  then show ?thesis by (simp add: events_of_def observed_def last_hash_def)
qed

fun sees_hash :: "'k lib \<Rightarrow> hash32 \<Rightarrow> 'k op_action \<Rightarrow> hash32 option" where
  "sees_hash lib i (AReconcile req get) = (case observe lib i (req, get) of Some (Some h) \<Rightarrow> Some h | _ \<Rightarrow> None)"
| "sees_hash lib i a = None"

lemma last_hash_Nil: "last_hash l (observed lib i (events_of [])) = l"
  by (simp add: observed_def events_of_def map_filter_simps last_hash_def)

lemma last_hash_event:
  "last_hash l (observed lib i (event_of_action a)) = (case sees_hash lib i a of None \<Rightarrow> l | Some h \<Rightarrow> Some h)"
  by (cases a) (simp_all add: observed_def map_filter_simps last_hash_def split: option.splits)

subsection \<open>The registry keeps up\<close>

text \<open>
  The last observed hash of a Deployment is \<open>h\<close>: nothing else is recorded or under way, and the registry holds it
  as soon as nothing is under way.
\<close>

definition tracks :: "address \<Rightarrow> hash32 \<Rightarrow> hash32 \<Rightarrow> 'k opstate \<Rightarrow> bool" where
  "tracks me i h s \<longleftrightarrow>
     ready (os_reconciler s) \<and> r1_publisher (os_registry s) = me
     \<and> last_of (os_reconciler s) i \<in> {None, Some h} \<and> only_under_way s i h
     \<and> (nothing_under_way s i \<longrightarrow> map_option a1_configHash (lookup_v1 (os_registry s) i) = Some h)"

lemma tracksD:
  assumes "tracks me i h s"
  shows "ready (os_reconciler s)" "r1_publisher (os_registry s) = me" "last_of (os_reconciler s) i \<in> {None, Some h}"
    "only_under_way s i h" "nothing_under_way s i \<Longrightarrow> map_option a1_configHash (lookup_v1 (os_registry s) i) = Some h"
  using assms by (simp_all add: tracks_def)

lemma tracksI:
  "ready (os_reconciler s) \<Longrightarrow> r1_publisher (os_registry s) = me \<Longrightarrow> last_of (os_reconciler s) i \<in> {None, Some h} \<Longrightarrow>
   only_under_way s i h \<Longrightarrow>
   (nothing_under_way s i \<Longrightarrow> map_option a1_configHash (lookup_v1 (os_registry s) i) = Some h) \<Longrightarrow> tracks me i h s"
  by (simp add: tracks_def)

lemma op_step_publisher: "op_step lib cr pub me s a s' \<Longrightarrow> r1_publisher (os_registry s') = r1_publisher (os_registry s)"
  by (erule op_step.cases) (simp_all add: reg1.transact_publisher)

lemma op_run_publisher: "op_run lib cr pub me s as s' \<Longrightarrow> r1_publisher (os_registry s') = r1_publisher (os_registry s)"
  by (induction rule: op_run.induct) (simp_all add: op_step_publisher)

text \<open>The jobs a reconcile adds for a Deployment.\<close>

lemma Reconcile_jobs:
  assumes "ready r" "Reconcile lib r req get = Inr (r', calls)"
  shows "ready r'" "last_of r' i = (case observe lib i (req, get) of None \<Rightarrow> last_of r i | Some x \<Rightarrow> x)"
    and "j \<in> set (added calls) \<Longrightarrow> j_DeploymentID j = i \<Longrightarrow> observe lib i (req, get) = Some (Some (j_ConfigHash j))"
    and "observe lib i (req, get) = Some (Some h) \<Longrightarrow> last_of r i \<noteq> Some h \<Longrightarrow>
      \<exists>j \<in> set (added calls). j_DeploymentID j = i \<and> j_ConfigHash j = h"
proof -
  have abs: "ready r'" "last_of r' i = (case observe lib i (req, get) of None \<Rightarrow> last_of r i | Some x \<Rightarrow> x)"
    "added_for i calls = (case observe lib i (req, get) of Some (Some h) \<Rightarrow> if last_of r i = Some h then [] else [h] | _ \<Rightarrow> [])"
    using Reconcile_abs [OF assms(1), of lib req get i] assms(2) by auto
  show "ready r'" "last_of r' i = (case observe lib i (req, get) of None \<Rightarrow> last_of r i | Some x \<Rightarrow> x)"
    by (fact abs)+
  show "observe lib i (req, get) = Some (Some (j_ConfigHash j))"
    if "j \<in> set (added calls)" "j_DeploymentID j = i"
    using added_added_for [OF that(1)] Reconcile_never_delays [OF assms(2)] abs(3) that(2)
    by (auto split: option.splits if_splits)
  show "\<exists>j \<in> set (added calls). j_DeploymentID j = i \<and> j_ConfigHash j = h"
    if "observe lib i (req, get) = Some (Some h)" "last_of r i \<noteq> Some h"
    using added_for_added [of h i calls] abs(3) that by simp
qed

text \<open>The first state observed when none is recorded is enqueued, so that it will be the one the registry holds.\<close>

lemma tracks_observed:
  assumes step: "op_step lib cr pub me s (AReconcile req get) s'" and obs: "observe lib i (req, get) = Some (Some h)"
    and ready: "ready (os_reconciler s)" and own: "r1_publisher (os_registry s) = me"
    and turn: "only_under_way s i h"
    and new: "last_of (os_reconciler s) i \<noteq> Some h \<or> tracks me i h s"
  shows "tracks me i h s'"
  using step
proof (cases rule: op_step.cases)
  case (reconcile r' calls)
  note jobs = Reconcile_jobs [OF ready reconcile(2)]
  have only: "only_under_way s' i h"
    using turn jobs(3) [where i = i] obs unfolding only_under_way_def reconcile(1) by auto
  have "map_option a1_configHash (lookup_v1 (os_registry s') i) = Some h" if none: "nothing_under_way s' i"
  proof -
    have "\<not> (\<exists>j \<in> set (added calls). j_DeploymentID j = i)" "nothing_under_way s i"
      using none by (auto simp: nothing_under_way_def reconcile(1))
    with new jobs(4) [OF obs] have "tracks me i h s" by blast
    from tracksD(5) [OF this] \<open>nothing_under_way s i\<close> show ?thesis by (simp add: reconcile(1))
  qed
  with only own jobs(1) jobs(2) [where i = i] obs show ?thesis by (intro tracksI) (simp_all add: reconcile(1))
qed

text \<open>Steps that keep what is under way, or move it on.\<close>

lemma tracks_moved:
  assumes "tracks me i h s"
    and "ready (os_reconciler s')" "r1_publisher (os_registry s') = r1_publisher (os_registry s)"
    and "last_of (os_reconciler s') i \<in> {None, last_of (os_reconciler s) i}"
    and "only_under_way s i h \<Longrightarrow> only_under_way s' i h" "nothing_under_way s' i \<Longrightarrow> nothing_under_way s i"
    and "lookup_v1 (os_registry s') i = lookup_v1 (os_registry s) i"
  shows "tracks me i h s'"
  using assms tracksD [OF assms(1)] by (intro tracksI) auto

lemma tracks_mined:
  assumes inv: "op_inv lib cr pub s" and old: "tracks me i h s" and a: "a \<in> set (os_mempool s)" "p1_deploymentId a = i"
  shows "map_option a1_configHash (lookup_v1 (transact publish_v1 (os_registry s) (ts, me, a)) i) = Some h"
proof -
  have "p1_hashVersion a \<noteq> 0"
    using op_invD(3) [OF inv a(1)] by (auto simp: args_ok_def job_ok_def publish_args_of_def V1_def)
  then have "accepted (\<lambda>a. p1_hashVersion a \<noteq> 0) (r1_publisher (os_registry s)) (ts, me, a)"
    using tracksD(2) [OF old] by (simp add: accepted_def)
  moreover have "p1_configHash a = h" using tracksD(4) [OF old] a by (simp add: only_under_way_def)
  ultimately show ?thesis
    using reg1.transact_accepted(1) [of "os_registry s" ts me a i] a(2) by (simp add: entry_v1_def)
qed

lemma other_tx_removed:
  "p1_deploymentId b \<noteq> i \<Longrightarrow> p1_deploymentId c = i \<Longrightarrow> c \<in> set (remove1 b xs) \<longleftrightarrow> c \<in> set xs"
  by (metis in_set_remove1)

lemma tracks_mine:
  assumes inv: "op_inv lib cr pub s" and old: "tracks me i h s" and b: "b \<in> set (os_mempool s)"
    and s': "s' = s\<lparr>os_mempool := remove1 b (os_mempool s), os_registry := transact publish_v1 (os_registry s) (ts, me, b)\<rparr>"
  shows "tracks me i h s'"
proof (cases "p1_deploymentId b = i")
  case True
  note reg = tracks_mined [OF inv old b True, of ts]
  have "only_under_way s' i h"
    using tracksD(4) [OF old] by (auto simp: only_under_way_def s' dest: set_remove1_subset [THEN subsetD])
  then show ?thesis
    using tracksD(1-3) [OF old] reg by (intro tracksI) (simp_all add: s' reg1.transact_publisher)
next
  case other: False
  show ?thesis
    using tracksD(1) [OF old] transact_v1_other [of b i] other_tx_removed [OF other] other unfolding s'
    by (intro tracks_moved [OF old]) (auto simp: only_under_way_def nothing_under_way_def reg1.transact_publisher)
qed

lemma tracks_failed:
  assumes old: "tracks me i h s" and item: "os_item s = Some j"
    and pool: "pool = os_mempool s \<or> (\<exists>a. hands_over cr (with_kms kms pub) j a \<and> pool = a # os_mempool s)"
  shows "tracks me i h (s\<lparr>os_item := None, os_owed := os_owed s \<union> {j}, os_mempool := pool\<rparr>)" (is "tracks me i h ?s")
proof -
  have txs: "set (os_mempool s) \<subseteq> set pool" "\<And>b. b \<in> set pool \<Longrightarrow>
      b \<in> set (os_mempool s) \<or> p1_deploymentId b = j_DeploymentID j \<and> p1_configHash b = j_ConfigHash j"
    using pool hands_over_fields [of cr kms pub j] by auto
  have "only_under_way ?s i h" if "only_under_way s i h"
    using that txs(2) item by (fastforce simp: only_under_way_def)
  moreover have "nothing_under_way s i" if "nothing_under_way ?s i"
    using that txs(1) item by (fastforce simp: nothing_under_way_def)
  ultimately show ?thesis
    using tracksD(1) [OF old] by (intro tracks_moved [OF old]) simp_all
qed

text \<open>A step that observes no hash of the Deployment keeps track of it.\<close>

lemma tracks_unobserved:
  assumes inv: "op_inv lib cr pub s" and old: "tracks me i h s"
    and step: "op_step lib cr pub me s a s'" and turn: "in_turn lib i s a"
    and unseen: "sees_hash lib i a = None"
  shows "tracks me i h s'"
  using step
proof (cases rule: op_step.cases)
  case (reconcile req get r' calls)
  note jobs = Reconcile_jobs [OF tracksD(1) [OF old] reconcile(3)]
  have obs: "observe lib i (req, get) \<noteq> Some (Some k)" for k using unseen by (auto simp: reconcile(1))
  have "\<not> (\<exists>j \<in> set (added calls). j_DeploymentID j = i)" using jobs(3) [where i = i] obs by blast
  then show ?thesis
    using jobs(1) jobs(2) [where i = i] obs
    by (intro tracks_moved [OF old]) (auto simp: reconcile(2) only_under_way_def nothing_under_way_def split: option.splits)
next
  case (get j)
  show ?thesis
    using tracksD(1) [OF old] get(3,4) unfolding get(2)
    by (intro tracks_moved [OF old]) (auto simp: only_under_way_def nothing_under_way_def)
next
  case (publish j kms send txHash b)
  show ?thesis
    using tracksD(1) [OF old] publish(3) hands_over_fields [OF publish(5)] unfolding publish(2)
    by (intro tracks_moved [OF old]) (auto simp: only_under_way_def nothing_under_way_def added_processNext_v1)
next
  case (fail j kms send err pool)
  then show ?thesis using tracks_failed [OF old fail(3), of pool cr kms pub] by (auto simp: added_processNext_v1)
next
  case (mine b ts)
  show ?thesis by (rule tracks_mine [OF inv old mine(3,2)])
next
  case (drop b)
  have "p1_deploymentId b \<noteq> i" using turn drop(1) by simp
  from other_tx_removed [OF this] show ?thesis
    using tracksD(1) [OF old] unfolding drop(2)
    by (intro tracks_moved [OF old]) (auto simp: only_under_way_def nothing_under_way_def)
next
  case (foreign sender b ts)
  show ?thesis
    using tracksD(1) [OF old] transact_v1_other [of b i sender "os_registry s" ts] foreign(3) unfolding foreign(2)
    by (intro tracks_moved [OF old]) (auto simp: only_under_way_def nothing_under_way_def reg1.transact_publisher)
next
  case (restart built r' err)
  have "ready r'" "last_of r' i = None" using restart(3) by (auto simp: SetupWithManager_def ready_def last_of_def)
  moreover have "j \<in> os_owed s \<or> os_item s = Some j \<Longrightarrow> j_DeploymentID j \<noteq> i" for j
    using turn restart(1) by auto
  ultimately show ?thesis
    unfolding restart(2) by (intro tracks_moved [OF old]) (auto simp: only_under_way_def nothing_under_way_def)
qed

text \<open>
  Before the first hash is observed, no hash is recorded and a state has a property \<open>P\<close> that steps keep; from then
  on the last hash is tracked.
\<close>

definition unrecorded :: "address \<Rightarrow> hash32 \<Rightarrow> 'k opstate \<Rightarrow> bool" where
  "unrecorded me i s \<longleftrightarrow>
     ready (os_reconciler s) \<and> r1_publisher (os_registry s) = me \<and> last_of (os_reconciler s) i = None"

locale until_observed =
  fixes lib :: "'k lib" and cr :: "('pub, 'key) crypto" and pub :: "('key, 'ec, 'auth) publisher_v1"
    and me :: address and i :: hash32 and P :: "'k opstate \<Rightarrow> bool"
  assumes start: "P s \<Longrightarrow> unrecorded me i s"
    and keep: "P s \<Longrightarrow> op_step lib cr pub me s a s' \<Longrightarrow> sees_hash lib i a = None \<Longrightarrow> P s'"
begin

definition tracked :: "hash32 option \<Rightarrow> 'k opstate \<Rightarrow> bool" where
  "tracked l s \<longleftrightarrow> (case l of None \<Rightarrow> P s | Some h \<Rightarrow> tracks me i h s)"

lemma tracked_step:
  assumes inv: "op_inv lib cr pub s" and old: "tracked l s"
    and step: "op_step lib cr pub me s a s'" and turn: "in_turn lib i s a"
  shows "tracked (last_hash l (observed lib i (event_of_action a))) s'"
proof (cases "sees_hash lib i a")
  case None
  then have "tracked l s'"
    using old keep [OF _ step] tracks_unobserved [OF inv _ step turn] by (auto simp: tracked_def split: option.splits)
  with None show ?thesis by (simp add: last_hash_event)
next
  case (Some h)
  then obtain req get where a: "a = AReconcile req get" and obs: "observe lib i (req, get) = Some (Some h)"
    by (cases a) (auto split: option.splits)
  have base: "ready (os_reconciler s)" "r1_publisher (os_registry s) = me"
    and new: "last_of (os_reconciler s) i \<noteq> Some h \<or> tracks me i h s"
    using old start [of s] by (auto simp: tracked_def unrecorded_def tracks_def split: option.splits)
  from turn have "only_under_way s i h" by (simp add: a obs)
  from tracks_observed [OF step [unfolded a] obs base this new] show ?thesis
    by (simp add: tracked_def last_hash_event Some)
qed

lemma tracked_run:
  "run_in_turn lib cr pub me i s as s' \<Longrightarrow> op_inv lib cr pub s \<Longrightarrow> tracked l s \<Longrightarrow>
     tracked (last_hash l (observed lib i (events_of as))) s'"
proof (induction arbitrary: l rule: run_in_turn.induct)
  case (none s)
  then show ?case by (simp add: last_hash_Nil)
next
  case (then_run s a s' as s'')
  from tracked_step [OF then_run.prems then_run.hyps(1,2)] op_inv_step [OF then_run.prems(1) then_run.hyps(1)]
  show ?case unfolding last_hash_run by (intro then_run.IH)
qed

end

lemma unrecorded_step:
  assumes "unrecorded me i s" "op_step lib cr pub me s a s'" "sees_hash lib i a = None"
  shows "unrecorded me i s'"
proof -
  note own = op_step_publisher [OF assms(2)]
  from assms(2) show ?thesis
  proof (cases rule: op_step.cases)
    case (reconcile req get r' calls)
    with assms(1,3) Reconcile_jobs(1,2) [of "os_reconciler s" lib req get r' calls] show ?thesis
      by (auto simp: unrecorded_def split: option.splits)
  next
    case (restart built r' err)
    with assms(1) show ?thesis by (auto simp: unrecorded_def SetupWithManager_def ready_def last_of_def)
  qed (use assms(1) own in \<open>auto simp: unrecorded_def\<close>)
qed

text \<open>Nothing was ever observed or published.\<close>

definition untouched :: "address \<Rightarrow> hash32 \<Rightarrow> 'k opstate \<Rightarrow> bool" where
  "untouched me i s \<longleftrightarrow> settled_at i None None s \<and> r1_publisher (os_registry s) = me"

lemma untouched_step:
  assumes "untouched me i s" "op_step lib cr pub me s a s'" "sees_hash lib i a = None"
  shows "untouched me i s'"
proof -
  have "calm lib i None a" using assms(3) by (cases a) (auto split: option.splits)
  with assms(1,2) op_step_publisher [OF assms(2)] show ?thesis
    by (auto simp: untouched_def intro: settled_at_step)
qed

lemma untouched_unrecorded: "untouched me i s \<Longrightarrow> unrecorded me i s"
  by (simp add: untouched_def settled_at_def unrecorded_def)

interpretation after_restart: until_observed lib cr pub me i "unrecorded me i" for lib cr pub me i
  by unfold_locales (auto intro: unrecorded_step)

interpretation from_start: until_observed lib cr pub me i "untouched me i" for lib cr pub me i
  by unfold_locales (auto intro: untouched_unrecorded untouched_step)

subsection \<open>Records\<close>

text \<open>A record that attests a hash: of version 1, under the operator's key, with a signature over version and hash.\<close>

definition attests :: "('pub, 'key) crypto \<Rightarrow> ('key, 'ec, 'auth) publisher_v1 \<Rightarrow> hash32 \<Rightarrow> attestation_v1 \<Rightarrow> bool" where
  "attests cr pub h rec \<longleftrightarrow>
     a1_exists rec \<and> a1_hashVersion rec = V1 \<and> a1_configHash rec = h
     \<and> a1_signerFingerprint rec = Sum256 (PublicKeyDER (p1_signer pub))
     \<and> VerifyConfigHashSignature cr (ks_pub (p1_signer pub)) (SigningDigest V1 h) (a1_signature rec)"

lemma tracks_attests:
  assumes "op_inv lib cr pub s" "tracks me i h s" "nothing_under_way s i"
  shows "\<exists>rec. lookup_v1 (os_registry s) i = Some rec \<and> attests cr pub h rec"
proof -
  from tracksD(5) [OF assms(2,3)] obtain rec where
    rec: "lookup_v1 (os_registry s) i = Some rec" "a1_configHash rec = h" by auto
  moreover have "a1_exists rec" using rec(1) by (auto simp: lookup_v1_def split: if_splits)
  ultimately show ?thesis using record_origin [OF assms(1) rec(1)] unfolding attests_def by auto
qed

subsection \<open>Rounds of the worker\<close>

text \<open>States between rounds of the worker: nothing in its hands and no transaction in the pool.\<close>

definition stands :: "address \<Rightarrow> (hash32 \<rightharpoonup> hash32) \<Rightarrow> job set \<Rightarrow> 'k opstate \<Rightarrow> bool" where
  "stands me m owed s \<longleftrightarrow>
     os_reconciler s = \<lparr>dr_lastAttested = Some m\<rparr> \<and> os_owed s = owed \<and> os_item s = None \<and> os_mempool s = []
     \<and> r1_publisher (os_registry s) = me"

lemma stands_init: "deploy_v1 me = Some r \<Longrightarrow> stands me Map.empty {} (op_init r)"
  by (auto simp: stands_def op_init_def SetupWithManager_def deploy_v1_def split: if_splits)

lemma stands_reconcile:
  assumes "stands me m owed s" "m (DeploymentID (rq_Namespace req) (rq_Name req)) \<noteq> Some h"
    and "rolloutConverged dep" "ConfigHashForVersion lib CurrentVersion dep = Inr h"
  obtains s' where "op_run lib cr pub me s [AReconcile req (Inr dep)] s'"
    "stands me (m(DeploymentID (rq_Namespace req) (rq_Name req) \<mapsto> h)) (insert (job_for req h) owed) s'"
proof -
  have "os_reconciler s = \<lparr>dr_lastAttested = Some m\<rparr>" using assms(1) by (simp add: stands_def)
  from op_run_single [OF reconcile_new [OF this assms(2-4), of cr pub me]] assms(1) that show thesis
    by (fastforce simp: stands_def)
qed

lemma stands_fail:
  assumes "stands me m owed s" "j \<in> owed"
  obtains s' where "op_run lib cr pub me s [AGet j, AFail j] s'" "stands me m owed s'"
proof -
  let ?s1 = "s\<lparr>os_item := Some j, os_owed := os_owed s - {j}\<rparr>"
  have "op_step lib cr pub me s (AGet j) ?s1" using assms by (intro op_step.get) (auto simp: stands_def)
  moreover have "op_step lib cr pub me ?s1 (AFail j) (?s1\<lparr>os_item := None, os_owed := insert j (os_owed ?s1)\<rparr>)"
    by (rule fail_unsent) simp
  ultimately have "op_run lib cr pub me s [AGet j, AFail j] (?s1\<lparr>os_item := None, os_owed := insert j (os_owed ?s1)\<rparr>)"
    by (blast intro: op_run.intros)
  with assms that show thesis by (fastforce simp: stands_def)
qed

text \<open>A round that signs, sends and sees the transaction mined.\<close>

lemma stands_publish:
  assumes stands: "stands me m owed s" and owed: "job_for req h \<in> owed" and auth: "cl_auth (p1_client pub) \<noteq> None"
    and sig: "SignDigest cr (p1_signer (with_kms kms pub)) (SigningDigest CurrentVersion h) = Inr sig"
  obtains a s' rec where "op_run lib cr pub me s [AGet (job_for req h), APublish (job_for req h), AMine a] s'"
    "stands me m (owed - {job_for req h}) s'"
    "lookup_v1 (os_registry s') (DeploymentID (rq_Namespace req) (rq_Name req)) = Some rec" "attests cr pub h rec"
proof -
  let ?j = "job_for req h"
  let ?a = "publish_args_of pub ?j sig"
  define s1 where "s1 = s\<lparr>os_item := Some ?j, os_owed := os_owed s - {?j}\<rparr>"
  define s2 where "s2 = s1\<lparr>os_item := None, os_mempool := ?a # os_mempool s1, os_sent := insert ?j (os_sent s1)\<rparr>"
  define s3 where "s3 = s2\<lparr>os_mempool := remove1 ?a (os_mempool s2),
    os_registry := transact publish_v1 (os_registry s2) (0, me, ?a)\<rparr>"
  have a: "p1_hashVersion ?a = V1" "p1_deploymentId ?a = DeploymentID (rq_Namespace req) (rq_Name req)"
    by (simp_all add: publish_args_of_def job_for_def CurrentVersion_def)
  have "op_step lib cr pub me s (AGet ?j) s1"
    unfolding s1_def using stands owed by (intro op_step.get) (auto simp: stands_def)
  moreover have "op_step lib cr pub me s1 (APublish ?j) s2"
    unfolding s2_def by (rule publish_signed [OF _ auth sig]) (simp add: s1_def)
  moreover have "op_step lib cr pub me s2 (AMine ?a) s3"
    unfolding s3_def by (rule op_step.mine) (simp add: s2_def)
  ultimately have run: "op_run lib cr pub me s [AGet ?j, APublish ?j, AMine ?a] s3" by (blast intro: op_run.intros)
  have s3: "stands me m (owed - {?j}) s3"
    using stands by (simp add: stands_def s1_def s2_def s3_def reg1.transact_publisher)
  have "accepted (\<lambda>a. p1_hashVersion a \<noteq> 0) (r1_publisher (os_registry s)) (0, me, ?a)"
    using stands by (simp add: accepted_def stands_def a V1_def)
  from reg1.transact_accepted(1) [OF this, of "p1_deploymentId ?a"]
  have rec: "lookup_v1 (os_registry s3) (DeploymentID (rq_Namespace req) (rq_Name req)) = Some (entry_v1 0 ?a)"
    by (simp add: s3_def s2_def s1_def a(2))
  have "attests cr pub h (entry_v1 0 ?a)"
    using SignDigest_valid(2) [OF sig]
    by (simp add: attests_def entry_v1_def publish_args_of_def job_for_def CurrentVersion_def PublicKeyFingerprintBytes_def
        with_kms_same)
  with that run s3 rec show thesis by blast
qed

lemma sample_auth_present: "cl_auth (p1_client sample_publisher) \<noteq> None"
  by (simp add: sample_auth)

subsection \<open>When the registry agrees with the cluster\<close>

text \<open>
  C6: the registry follows the cluster. Run an operator on a registry it has just deployed, in any interleaving
  of reconciles, signing and sending that may fail, retries, mining, other Deployments and other
  accounts. For a Deployment whose states come one at a time, once nothing is under way the registry holds a
  record that attests the last hash observed of it, and no record if it was never seen converged. A deletion
  leaves the last record standing: the registry has no tombstones.
\<close>

theorem registry_follows_cluster:
  assumes "deploy_v1 me = Some r" "run_in_turn lib cr pub me i (op_init r) as s" "nothing_under_way s i"
  shows "case last_hash None (observed lib i (events_of as)) of
     None \<Rightarrow> lookup_v1 (os_registry s) i = None
   | Some h \<Rightarrow> \<exists>rec. lookup_v1 (os_registry s) i = Some rec \<and> attests cr pub h rec"
proof -
  have "r1_publisher r = me" "lookup_v1 r i = None"
    using assms(1) by (auto simp: deploy_v1_def lookup_v1_def getLatest_v1_def zero_attestation_v1_def split: if_splits)
  then have "untouched me i (op_init r)"
    by (simp add: untouched_def settled_at_def op_init_def SetupWithManager_def ready_def last_of_def nothing_under_way_def)
  then have "from_start.tracked me i None (op_init r)" by (simp add: from_start.tracked_def)
  note track = from_start.tracked_run [OF assms(2) op_inv_init [OF assms(1)] this]
  have inv: "op_inv lib cr pub s" using op_inv_reachable [OF assms(1)] run_in_turn_run [OF assms(2)] by blast
  show ?thesis
    using track tracks_attests [OF inv _ assms(3)]
    by (auto simp: from_start.tracked_def untouched_def settled_at_def split: option.splits)
qed

text \<open>
  Runs in turn. The actions of the worker and of the node are in turn in every state; with the worker at rest, so are
  an observation and its publication; and whatever is in the pool can be mined first.
\<close>

definition always_in_turn :: "'k lib \<Rightarrow> hash32 \<Rightarrow> 'k op_action \<Rightarrow> bool" where
  "always_in_turn lib i a \<longleftrightarrow> (\<forall>s. in_turn lib i s a)"

lemma op_run_in_turn:
  "op_run lib cr pub me s as s' \<Longrightarrow> list_all (always_in_turn lib i) as \<Longrightarrow> run_in_turn lib cr pub me i s as s'"
  by (induction rule: op_run.induct) (auto simp: always_in_turn_def intro: run_in_turn.intros)

lemma run_in_turn_append:
  "run_in_turn lib cr pub me i s as s' \<Longrightarrow> run_in_turn lib cr pub me i s' bs s'' \<Longrightarrow> run_in_turn lib cr pub me i s (as @ bs) s''"
  by (induction rule: run_in_turn.induct) (auto intro: run_in_turn.intros)

definition publication :: "ctrl_request \<Rightarrow> 'k deployment \<Rightarrow> hash32 \<Rightarrow> publish_args_v1 \<Rightarrow> 'k op_action list" where
  "publication req dep h a =
     [AReconcile req (Inr dep), AGet (job_for req h), APublish (job_for req h), AMine a]"

lemma publish_in_turn:
  assumes stands: "stands me m {} s" "m (DeploymentID (rq_Namespace req) (rq_Name req)) \<noteq> Some h"
    and conv: "rolloutConverged dep" "ConfigHashForVersion lib CurrentVersion dep = Inr h"
    and auth: "cl_auth (p1_client pub) \<noteq> None"
    and sig: "SignDigest cr (p1_signer (with_kms kms pub)) (SigningDigest CurrentVersion h) = Inr sig"
  obtains a s' where "run_in_turn lib cr pub me i s (publication req dep h a) s'" "nothing_under_way s' i"
proof -
  let ?j = "job_for req h"
  obtain m' s1 where s1: "op_run lib cr pub me s [AReconcile req (Inr dep)] s1" "stands me m' {?j} s1"
    using stands_reconcile [OF stands conv, where cr = cr and pub = pub] by blast
  obtain a s2 where s2: "op_run lib cr pub me s1 [AGet ?j, APublish ?j, AMine a] s2" "stands me m' ({?j} - {?j}) s2"
    using stands_publish [OF s1(2) singletonI auth sig, where lib = lib] by blast
  from s1(1) have "op_step lib cr pub me s (AReconcile req (Inr dep)) s1"
    by (auto elim: op_run_ConsE op_run_NilE)
  moreover have "in_turn lib i s (AReconcile req (Inr dep))"
    using stands(1) by (simp add: stands_def only_under_way_def split: option.splits)
  moreover have "run_in_turn lib cr pub me i s1 [AGet ?j, APublish ?j, AMine a] s2"
    by (rule op_run_in_turn [OF s2(1)]) (simp add: always_in_turn_def)
  moreover have "nothing_under_way s2 i" using s2(2) by (simp add: stands_def nothing_under_way_def)
  ultimately show thesis using that unfolding publication_def by (blast intro: run_in_turn.then_run)
qed

lemma publication_observed:
  assumes "rolloutConverged dep" "ConfigHashForVersion lib CurrentVersion dep = Inr h"
  shows "last_hash None (observed lib (DeploymentID (rq_Namespace req) (rq_Name req)) (events_of (publication req dep h a))) = Some h"
  by (simp add: publication_def events_of_def observed_def map_filter_simps observe_def assms last_hash_def)

lemma drain_in_turn:
  assumes "os_reconciler s = \<lparr>dr_lastAttested = Some m\<rparr>" "os_owed s = {}" "os_item s = None" "r1_publisher (os_registry s) = me"
  shows "\<exists>s'. run_in_turn lib cr pub me i s (map AMine (os_mempool s)) s' \<and> stands me m {} s'"
  using assms
proof (induction "os_mempool s" arbitrary: s)
  case Nil
  then show ?case using run_in_turn.none [of lib cr pub me i s] by (auto simp: stands_def)
next
  case (Cons a pool)
  let ?s = "s\<lparr>os_mempool := remove1 a (os_mempool s), os_registry := transact publish_v1 (os_registry s) (0, me, a)\<rparr>"
  have pool: "os_mempool ?s = pool" using Cons.hyps(2) [symmetric] by simp
  have step: "op_step lib cr pub me s (AMine a) ?s" using Cons.hyps(2) [symmetric] by (intro op_step.mine) simp
  obtain s' where run: "run_in_turn lib cr pub me i ?s (map AMine (os_mempool ?s)) s'" "stands me m {} s'"
    using Cons.hyps(1) [of ?s] pool Cons.prems by (auto simp: reg1.transact_publisher)
  have "run_in_turn lib cr pub me i s (AMine a # map AMine pool) s'"
    by (rule run_in_turn.then_run [OF step _ run(1) [unfolded pool]]) simp
  with run(2) show ?case unfolding Cons.hyps(2) [symmetric] list.map by blast
qed

lemma sample_in_turn:
  assumes "stands 1 Map.empty {} s"
  obtains a s' where "run_in_turn plain_lib trusting sample_publisher 1 (DeploymentID ''default'' ''web'') s
     (publication web_request web_up sample_hash a) s'" "nothing_under_way s' (DeploymentID ''default'' ''web'')"
proof -
  have "ConfigHashForVersion plain_lib CurrentVersion web_up = Inr sample_hash" by (simp add: web_up_hash sample_hash_def)
  from publish_in_turn [OF assms _ web_up_converged this sample_auth_present sample_signs,
      where req = web_request and i = "DeploymentID ''default'' ''web''"]
  obtain a s' where "run_in_turn plain_lib trusting sample_publisher 1 (DeploymentID ''default'' ''web'') s
     (publication web_request web_up sample_hash a) s'" "nothing_under_way s' (DeploymentID ''default'' ''web'')"
    by auto
  with that show thesis by blast
qed

lemma sample_observed:
  "last_hash None (observed plain_lib (DeploymentID ''default'' ''web'') (events_of (publication web_request web_up sample_hash a)))
   = Some sample_hash"
  using publication_observed [OF web_up_converged, of plain_lib sample_hash web_request a]
  by (simp add: web_up_hash sample_hash_def web_request_def)

theorem registry_follows_cluster_witness:
  "\<exists>as s rec. run_in_turn plain_lib trusting sample_publisher 1 (DeploymentID ''default'' ''web'') (op_init (the (deploy_v1 1))) as s
     \<and> lookup_v1 (os_registry s) (DeploymentID ''default'' ''web'') = Some rec \<and> attests trusting sample_publisher sample_hash rec"
proof -
  obtain a s where run: "run_in_turn plain_lib trusting sample_publisher 1 (DeploymentID ''default'' ''web'')
      (op_init (the (deploy_v1 1))) (publication web_request web_up sample_hash a) s"
    and none: "nothing_under_way s (DeploymentID ''default'' ''web'')"
    using sample_in_turn [OF stands_init [OF sample_deployed(1)]] by blast
  from registry_follows_cluster [OF sample_deployed(1) run none] run show ?thesis
    unfolding sample_observed by auto
qed

lemma restarted:
  assumes "deploy_v1 me = Some r" "op_run lib cr pub me (op_init r) as s" "op_step lib cr pub me s ARestart s0"
  shows "op_inv lib cr pub s0" "unrecorded me i s0" "os_reconciler s0 = \<lparr>dr_lastAttested = Some Map.empty\<rparr>"
    "os_owed s0 = {}" "os_item s0 = None" "r1_publisher (os_registry s0) = me"
proof -
  have run0: "op_run lib cr pub me (op_init r) (as @ [ARestart]) s0"
    using op_run_append [OF assms(2) op_run_single [OF assms(3)]] .
  show inv: "op_inv lib cr pub s0" by (rule op_inv_reachable [OF assms(1) run0])
  show own: "r1_publisher (os_registry s0) = me"
    using op_run_publisher [OF run0] assms(1) by (auto simp: op_init_def deploy_v1_def split: if_splits)
  show rec: "os_reconciler s0 = \<lparr>dr_lastAttested = Some Map.empty\<rparr>" "os_owed s0 = {}" "os_item s0 = None"
    using assms(3) by (cases rule: op_step.cases; auto simp: SetupWithManager_def)+
  show "unrecorded me i s0" using op_invD(1) [OF inv] own rec(1) by (simp add: unrecorded_def last_of_def)
qed

text \<open>
  C38: a restart makes up for what was lost. Restart the operator in any reachable state, whatever was queued, dropped
  or recorded before. For a Deployment whose states come one at a time from then on, as soon as one has been
  observed and nothing is under way, the registry holds a record that attests the last hash observed since
  the restart. And for every Deployment whose rollout has converged and whose hash KMS signs there is such a run, with
  that Deployment as the last one observed, whatever transactions the node still has.
\<close>

theorem restart_recovers:
  assumes "deploy_v1 me = Some r" "op_run lib cr pub me (op_init r) as s" "op_step lib cr pub me s ARestart s0"
  shows "(\<forall>i bs s1 h. run_in_turn lib cr pub me i s0 bs s1 \<longrightarrow> last_hash None (observed lib i (events_of bs)) = Some h \<longrightarrow>
       nothing_under_way s1 i \<longrightarrow> (\<exists>rec. lookup_v1 (os_registry s1) i = Some rec \<and> attests cr pub h rec))
     \<and> (\<forall>i req dep h kms sig. i = DeploymentID (rq_Namespace (req :: ctrl_request)) (rq_Name req) \<longrightarrow> rolloutConverged dep \<longrightarrow>
       ConfigHashForVersion lib CurrentVersion dep = Inr h \<longrightarrow> cl_auth (p1_client pub) \<noteq> None \<longrightarrow>
       SignDigest cr (p1_signer (with_kms kms pub)) (SigningDigest CurrentVersion h) = Inr sig \<longrightarrow>
       (\<exists>bs s1. run_in_turn lib cr pub me i s0 bs s1 \<and> last_hash None (observed lib i (events_of bs)) = Some h
          \<and> nothing_under_way s1 i))"
proof (intro conjI allI impI)
  fix i bs s1 h
  assume run: "run_in_turn lib cr pub me i s0 bs s1" and last: "last_hash None (observed lib i (events_of bs)) = Some h"
    and none: "nothing_under_way s1 i"
  have "after_restart.tracked me i None s0" using restarted(2) [OF assms] by (simp add: after_restart.tracked_def)
  from after_restart.tracked_run [OF run restarted(1) [OF assms] this] have "tracks me i h s1"
    by (simp add: after_restart.tracked_def last)
  moreover have "op_inv lib cr pub s1" using op_inv_run [OF run_in_turn_run [OF run] restarted(1) [OF assms]] .
  ultimately show "\<exists>rec. lookup_v1 (os_registry s1) i = Some rec \<and> attests cr pub h rec"
    using none by (intro tracks_attests)
next
  fix i and req :: ctrl_request and dep h kms sig
  assume i: "i = DeploymentID (rq_Namespace req) (rq_Name req)" and conv: "rolloutConverged dep"
      "ConfigHashForVersion lib CurrentVersion dep = Inr h" and auth: "cl_auth (p1_client pub) \<noteq> None"
    and sig: "SignDigest cr (p1_signer (with_kms kms pub)) (SigningDigest CurrentVersion h) = Inr sig"
  obtain s1 where s1: "run_in_turn lib cr pub me i s0 (map AMine (os_mempool s0)) s1" "stands me Map.empty {} s1"
    using drain_in_turn [OF restarted(3-6) [OF assms]] by blast
  obtain a s2 where s2: "run_in_turn lib cr pub me i s1 (publication req dep h a) s2" "nothing_under_way s2 i"
    using publish_in_turn [OF s1(2) _ conv auth sig, where req = req and i = i] by auto
  have "events_of (map AMine (os_mempool s0) @ publication req dep h a) = events_of (publication req dep h a)"
    by (simp add: events_of_def)
  with run_in_turn_append [OF s1(1) s2(1)] s2(2) publication_observed [OF conv, of req a]
  show "\<exists>bs s1. run_in_turn lib cr pub me i s0 bs s1 \<and> last_hash None (observed lib i (events_of bs)) = Some h
      \<and> nothing_under_way s1 i"
    unfolding i by metis
qed

theorem restart_recovers_witness:
  "\<exists>bs s0 s1 rec. op_step plain_lib trusting sample_publisher 1 sample_dropped ARestart s0
     \<and> lookup_v1 (os_registry s0) (DeploymentID ''default'' ''web'') = None
     \<and> run_in_turn plain_lib trusting sample_publisher 1 (DeploymentID ''default'' ''web'') s0 bs s1
     \<and> lookup_v1 (os_registry s1) (DeploymentID ''default'' ''web'') = Some rec \<and> attests trusting sample_publisher sample_hash rec"
proof -
  let ?i = "DeploymentID ''default'' ''web''"
  define s0 :: "unit opstate" where
    "s0 = sample_dropped\<lparr>os_reconciler := \<lparr>dr_lastAttested = Some Map.empty\<rparr>, os_owed := {}, os_item := None\<rparr>"
  have restart: "op_step plain_lib trusting sample_publisher 1 sample_dropped ARestart s0"
    unfolding s0_def by (rule op_step.restart [of None]) (simp add: SetupWithManager_def)
  note recovers = restart_recovers [OF sample_deployed(1) sample_dropped_reachable restart]
  have "?i = DeploymentID (rq_Namespace web_request) (rq_Name web_request)" by (simp add: web_request_def)
  moreover have "ConfigHashForVersion plain_lib CurrentVersion web_up = Inr sample_hash" by (simp add: web_up_hash sample_hash_def)
  ultimately obtain bs s1 where run: "run_in_turn plain_lib trusting sample_publisher 1 ?i s0 bs s1"
      "last_hash None (observed plain_lib ?i (events_of bs)) = Some sample_hash" "nothing_under_way s1 ?i"
    using conjunct2 [OF recovers] web_up_converged sample_auth_present sample_signs by blast
  with conjunct1 [OF recovers] obtain rec where "lookup_v1 (os_registry s1) ?i = Some rec" "attests trusting sample_publisher sample_hash rec"
    by blast
  moreover have "lookup_v1 (os_registry s0) ?i = None"
    by (simp add: s0_def sample_dropped_def sample_sent_def sent_state_def op_init_def deploy_v1_def lookup_v1_def
        getLatest_v1_def zero_attestation_v1_def)
  ultimately show ?thesis using restart run(1) by blast
qed

subsection \<open>When it does not\<close>

text \<open>
  Operator and registry have parted: the operator has \<open>h\<close> as the attested state of the Deployment and nothing to do
  for it, while the registry attests \<open>k\<close>, now and for as long as nothing else than \<open>h\<close> is observed and the operator
  is not restarted.
\<close>

definition parted :: "'k lib \<Rightarrow> ('pub, 'key) crypto \<Rightarrow> ('key, 'ec, 'auth) publisher_v1 \<Rightarrow> address \<Rightarrow> hash32
    \<Rightarrow> hash32 \<Rightarrow> hash32 \<Rightarrow> 'k opstate \<Rightarrow> bool" where
  "parted lib cr pub me i h k s \<longleftrightarrow>
     last_of (os_reconciler s) i = Some h \<and> nothing_under_way s i
     \<and> (\<forall>bs s'. op_run lib cr pub me s bs s' \<longrightarrow> list_all (calm lib i (Some h)) bs \<longrightarrow>
          (\<exists>rec. lookup_v1 (os_registry s') i = Some rec \<and> attests cr pub k rec))"

lemma stands_parted:
  assumes "stands me m {} s" "m i = Some h" "lookup_v1 (os_registry s) i = Some rec" "attests cr pub k rec"
  shows "parted lib cr pub me i h k s"
proof -
  have base: "last_of (os_reconciler s) i = Some h" "nothing_under_way s i"
    using assms by (simp_all add: stands_def last_of_def nothing_under_way_def)
  then have "settled_at i (Some h) (Some rec) s" using assms(1,3) by (simp add: settled_at_def stands_def ready_def)
  then have "lookup_v1 (os_registry s') i = Some rec"
    if "op_run lib cr pub me s bs s'" "list_all (calm lib i (Some h)) bs" for bs s'
    using settled_at_run [OF that] by (simp add: settled_at_def)
  with base assms(4) show ?thesis by (auto simp: parted_def)
qed

lemma different_surfaces:
  assumes "v1_ok lib A" "v1_ok lib B" "surfaceV1 lib A \<noteq> surfaceV1 lib B" "\<not> sha_collision (v1_bytes lib A) (v1_bytes lib B)"
    and "ConfigHashForVersion lib CurrentVersion A = Inr hA" "ConfigHashForVersion lib CurrentVersion B = Inr hB"
  shows "hA \<noteq> hB" "job_for req hA \<noteq> job_for req hB"
  using same_hash_same_surface [of lib CurrentVersion A hA B] assms
  by (auto simp: same_surface_def version_bytes_def version_ok_def CurrentVersion_def job_for_def)

text \<open>
  C35: v1 retries are not ordered. Take any two states \<open>A\<close> and \<open>B\<close> of one Deployment that differ in their surface. The
  first attempt to publish \<open>A\<close> fails; while its retry waits out its backoff, \<open>B\<close> is observed, published and mined; then
  the retry of \<open>A\<close> succeeds. Unless the two collide under SHA-256, the operator ends up with \<open>B\<close> as the attested
  state and nothing left to do for the Deployment, and a registry that attests \<open>A\<close>; and so it remains until
  something else than \<open>B\<close> is observed or the operator is restarted.
\<close>

theorem stale_retry_overwrites:
  assumes "deploy_v1 me = Some r" "cl_auth (p1_client pub) \<noteq> None"
    and "rolloutConverged A" "ConfigHashForVersion lib CurrentVersion A = Inr hA"
    and "rolloutConverged B" "ConfigHashForVersion lib CurrentVersion B = Inr hB"
    and "v1_ok lib A" "v1_ok lib B" "surfaceV1 lib A \<noteq> surfaceV1 lib B"
    and "SignDigest cr (p1_signer (with_kms kms pub)) (SigningDigest CurrentVersion hA) = Inr sigA"
    and "SignDigest cr (p1_signer (with_kms kms pub)) (SigningDigest CurrentVersion hB) = Inr sigB"
  shows "sha_collision (v1_bytes lib A) (v1_bytes lib B) \<or> (\<exists>a b s.
     op_run lib cr pub me (op_init r)
       [AReconcile req (Inr A), AGet (job_for req hA), AFail (job_for req hA),
        AReconcile req (Inr B), AGet (job_for req hB), APublish (job_for req hB), AMine b,
        AGet (job_for req hA), APublish (job_for req hA), AMine a] s
     \<and> parted lib cr pub me (DeploymentID (rq_Namespace req) (rq_Name req)) hB hA s)"
proof (cases "sha_collision (v1_bytes lib A) (v1_bytes lib B)")
  case False
  let ?i = "DeploymentID (rq_Namespace req) (rq_Name req)" and ?A = "job_for req hA" and ?B = "job_for req hB"
  note diff = different_surfaces [OF assms(7-9) False assms(4,6)]
  obtain s1 where s1: "op_run lib cr pub me (op_init r) [AReconcile req (Inr A)] s1" "stands me [?i \<mapsto> hA] {?A} s1"
    using stands_reconcile [OF stands_init [OF assms(1)] _ assms(3,4), where req = req and cr = cr and pub = pub] by auto
  obtain s2 where s2: "op_run lib cr pub me s1 [AGet ?A, AFail ?A] s2" "stands me [?i \<mapsto> hA] {?A} s2"
    using stands_fail [OF s1(2)] by blast
  obtain s3 where s3: "op_run lib cr pub me s2 [AReconcile req (Inr B)] s3" "stands me [?i \<mapsto> hB] {?B, ?A} s3"
    using stands_reconcile [OF s2(2) _ assms(5,6), where req = req and cr = cr and pub = pub] diff(1) by auto
  obtain b s4 where s4: "op_run lib cr pub me s3 [AGet ?B, APublish ?B, AMine b] s4" "stands me [?i \<mapsto> hB] ({?B, ?A} - {?B}) s4"
    using stands_publish [OF s3(2) _ assms(2,11)] by blast
  have "{?B, ?A} - {?B} = {?A}" using diff(2) by auto
  with s4(2) have s4': "stands me [?i \<mapsto> hB] {?A} s4" by simp
  obtain a s5 rec where s5: "op_run lib cr pub me s4 [AGet ?A, APublish ?A, AMine a] s5" "stands me [?i \<mapsto> hB] {} s5"
    "lookup_v1 (os_registry s5) ?i = Some rec" "attests cr pub hA rec"
    using stands_publish [OF s4' _ assms(2,10), where req = req and lib = lib] by auto
  note run = op_run_append [OF op_run_append [OF op_run_append [OF op_run_append [OF s1(1) s2(1)] s3(1)] s4(1)] s5(1)]
  from stands_parted [OF s5(2) _ s5(3,4), where lib = lib] run show ?thesis by auto
qed simp

definition web_next :: "unit deployment" where
  "web_next = (one_container ''default'' ''web'' (nginx ''nginx:1.26''))
     \<lparr>d_Status := \<lparr>st_ObservedGeneration = 0, st_Replicas = 1, st_UpdatedReplicas = 1, st_ReadyReplicas = 1,
         st_AvailableReplicas = 1\<rparr>\<rparr>"

definition next_hash :: hash32 where
  "next_hash = Sum256 (v1_bytes plain_lib web_next)"

lemma web_next_facts:
  "rolloutConverged web_next" "ConfigHashForVersion plain_lib CurrentVersion web_next = Inr next_hash"
  "ConfigHashForVersion plain_lib CurrentVersion web_up = Inr sample_hash"
  "v1_ok plain_lib web_up" "v1_ok plain_lib web_next" "surfaceV1 plain_lib web_up \<noteq> surfaceV1 plain_lib web_next"
proof -
  show "rolloutConverged web_next" by (simp add: rolloutConverged_def web_next_def one_container_def zero_defs)
  show "ConfigHashForVersion plain_lib CurrentVersion web_next = Inr next_hash"
    by (simp add: ConfigHashForVersion_def CurrentVersion_def ConfigHash_v1_bytes next_hash_def)
  show "ConfigHashForVersion plain_lib CurrentVersion web_up = Inr sample_hash"
    by (simp add: web_up_hash sample_hash_def)
  show "v1_ok plain_lib web_up" "v1_ok plain_lib web_next"
    by (simp_all add: web_up_def web_next_def example_eval)
  show "surfaceV1 plain_lib web_up \<noteq> surfaceV1 plain_lib web_next"
    by (simp add: web_up_def web_next_def surfaceV1_def surface_container_def example_eval)
qed

theorem stale_retry_overwrites_witness:
  "sha_collision (v1_bytes plain_lib web_up) (v1_bytes plain_lib web_next)
   \<or> (\<exists>as s. op_run plain_lib trusting sample_publisher 1 (op_init (the (deploy_v1 1))) as s
        \<and> parted plain_lib trusting sample_publisher 1 (DeploymentID ''default'' ''web'') next_hash sample_hash s)"
  using stale_retry_overwrites [OF sample_deployed(1) sample_auth_present web_up_converged web_next_facts(3,1,2,4,5,6)
      sample_signs sample_signs, of web_request]
  by (auto simp: web_request_def)

text \<open>
  The queue keeps one entry per distinct job, so a state that comes back while its first entry is still queued
  keeps the place of the first.
\<close>

text \<open>
  C15: a coalesced job loses its place. For any two states \<open>A\<close> and \<open>B\<close> of one Deployment that differ in their surface:
  when \<open>A\<close>, \<open>B\<close> and again \<open>A\<close> are observed before the worker takes the first job, the queue holds two jobs; taken in
  the order they were added, signed, sent and mined without a single failure, they leave a registry that attests \<open>B\<close>
  while the operator has \<open>A\<close> as the attested state (unless the two collide under SHA-256); and so it remains until
  something else than \<open>A\<close> is observed or the operator is restarted.
\<close>

theorem coalesced_job_loses_order:
  assumes "deploy_v1 me = Some r" "cl_auth (p1_client pub) \<noteq> None"
    and "rolloutConverged A" "ConfigHashForVersion lib CurrentVersion A = Inr hA"
    and "rolloutConverged B" "ConfigHashForVersion lib CurrentVersion B = Inr hB"
    and "v1_ok lib A" "v1_ok lib B" "surfaceV1 lib A \<noteq> surfaceV1 lib B"
    and "SignDigest cr (p1_signer (with_kms kms pub)) (SigningDigest CurrentVersion hA) = Inr sigA"
    and "SignDigest cr (p1_signer (with_kms kms pub)) (SigningDigest CurrentVersion hB) = Inr sigB"
  shows "sha_collision (v1_bytes lib A) (v1_bytes lib B) \<or> (\<exists>a b s.
     op_run lib cr pub me (op_init r)
       [AReconcile req (Inr A), AReconcile req (Inr B), AReconcile req (Inr A),
        AGet (job_for req hA), APublish (job_for req hA), AMine a,
        AGet (job_for req hB), APublish (job_for req hB), AMine b] s
     \<and> parted lib cr pub me (DeploymentID (rq_Namespace req) (rq_Name req)) hA hB s)"
proof (cases "sha_collision (v1_bytes lib A) (v1_bytes lib B)")
  case False
  let ?i = "DeploymentID (rq_Namespace req) (rq_Name req)" and ?A = "job_for req hA" and ?B = "job_for req hB"
  note diff = different_surfaces [OF assms(7-9) False assms(4,6)]
  obtain s1 where s1: "op_run lib cr pub me (op_init r) [AReconcile req (Inr A)] s1" "stands me [?i \<mapsto> hA] {?A} s1"
    using stands_reconcile [OF stands_init [OF assms(1)] _ assms(3,4), where req = req and cr = cr and pub = pub] by auto
  obtain s2 where s2: "op_run lib cr pub me s1 [AReconcile req (Inr B)] s2" "stands me [?i \<mapsto> hB] {?B, ?A} s2"
    using stands_reconcile [OF s1(2) _ assms(5,6), where req = req and cr = cr and pub = pub] diff(1) by auto
  obtain s3 where s3: "op_run lib cr pub me s2 [AReconcile req (Inr A)] s3" "stands me [?i \<mapsto> hA] {?A, ?B} s3"
    using stands_reconcile [OF s2(2) _ assms(3,4), where req = req and cr = cr and pub = pub] diff(1) by (auto simp: insert_commute)
  obtain a s4 where s4: "op_run lib cr pub me s3 [AGet ?A, APublish ?A, AMine a] s4" "stands me [?i \<mapsto> hA] ({?A, ?B} - {?A}) s4"
    using stands_publish [OF s3(2) _ assms(2,10)] by blast
  have "{?A, ?B} - {?A} = {?B}" using diff(2) by auto
  with s4(2) have s4': "stands me [?i \<mapsto> hA] {?B} s4" by simp
  obtain b s5 rec where s5: "op_run lib cr pub me s4 [AGet ?B, APublish ?B, AMine b] s5" "stands me [?i \<mapsto> hA] {} s5"
    "lookup_v1 (os_registry s5) ?i = Some rec" "attests cr pub hB rec"
    using stands_publish [OF s4' _ assms(2,11), where req = req and lib = lib] by auto
  note run = op_run_append [OF op_run_append [OF op_run_append [OF op_run_append [OF s1(1) s2(1)] s3(1)] s4(1)] s5(1)]
  from stands_parted [OF s5(2) _ s5(3,4), where lib = lib] run show ?thesis by auto
qed simp

theorem coalesced_job_loses_order_witness:
  "sha_collision (v1_bytes plain_lib web_up) (v1_bytes plain_lib web_next)
   \<or> (\<exists>as s. op_run plain_lib trusting sample_publisher 1 (op_init (the (deploy_v1 1))) as s
        \<and> parted plain_lib trusting sample_publisher 1 (DeploymentID ''default'' ''web'') sample_hash next_hash s)"
  using coalesced_job_loses_order [OF sample_deployed(1) sample_auth_present web_up_converged web_next_facts(3,1,2,4,5,6)
      sample_signs sample_signs, of web_request]
  by (auto simp: web_request_def)

end
