(* ===== verification/Registry_ABI.thy ===== *)
theory Registry_ABI
  imports Chain_Client
begin

section \<open>The ABI constants: registry.go and registry\_v2.go\<close>

text \<open>
  \<^verbatim>\<open>internal/chain/registry.go\<close> and \<^verbatim>\<open>registry_v2.go\<close> declare, as JSON text, what go-ethereum encodes and
  decodes for the contracts. Here the two constants are given as the data they denote, and the values the
  clients send and accept are checked against them: names, order and types.
\<close>

record abi_param =
  ap_name :: string
  ap_type :: string

datatype abi_entry =
    AbiFunction string string "abi_param list" "abi_param list"
  | AbiEvent string bool "(abi_param \<times> bool) list"

definition param :: "string \<Rightarrow> string \<Rightarrow> abi_param" where
  "param n t = \<lparr>ap_name = n, ap_type = t\<rparr>"

definition RegistryABI :: "abi_entry list" where
  "RegistryABI =
     [AbiFunction ''publish'' ''nonpayable''
        [param ''deploymentId'' ''bytes32'', param ''hashVersion'' ''uint16'', param ''configHash'' ''bytes32'',
         param ''signature'' ''bytes'', param ''signerFingerprint'' ''bytes32'']
        [],
      AbiFunction ''getLatest'' ''view''
        [param ''deploymentId'' ''bytes32'']
        [param ''configHash'' ''bytes32'', param ''signature'' ''bytes'', param ''signerFingerprint'' ''bytes32'',
         param ''blockTimestamp'' ''uint64'', param ''hashVersion'' ''uint16'', param ''exists'' ''bool''],
      AbiEvent ''AttestationPublished'' False
        [(param ''deploymentId'' ''bytes32'', True), (param ''hashVersion'' ''uint16'', True),
         (param ''configHash'' ''bytes32'', False), (param ''signerFingerprint'' ''bytes32'', False),
         (param ''blockTimestamp'' ''uint64'', False)]]"

definition RegistryV2ABI :: "abi_entry list" where
  "RegistryV2ABI =
     [AbiEvent ''AttestationPublished'' False
        [(param ''workloadId'' ''bytes32'', True), (param ''hashVersion'' ''uint16'', True),
         (param ''configHash'' ''bytes32'', False), (param ''incarnation'' ''bytes32'', False),
         (param ''signerFingerprint'' ''bytes32'', False), (param ''signature'' ''bytes'', False),
         (param ''blockTimestamp'' ''uint64'', False)],
      AbiFunction ''getLatest'' ''view''
        [param ''workloadId'' ''bytes32'']
        [param ''configHash'' ''bytes32'', param ''signature'' ''bytes'', param ''signerFingerprint'' ''bytes32'',
         param ''incarnation'' ''bytes32'', param ''blockTimestamp'' ''uint64'', param ''hashVersion'' ''uint16'',
         param ''exists'' ''bool''],
      AbiFunction ''publish'' ''nonpayable''
        [param ''workloadId'' ''bytes32'', param ''hashVersion'' ''uint16'', param ''configHash'' ''bytes32'',
         param ''incarnation'' ''bytes32'', param ''signature'' ''bytes'', param ''signerFingerprint'' ''bytes32'']
        [],
      AbiFunction ''publisher'' ''view'' [] [param [] ''address'']]"

text \<open>The inputs and outputs of a function, by name.\<close>

fun fun_entry :: "abi_entry list \<Rightarrow> string \<Rightarrow> (abi_param list \<times> abi_param list) option" where
  "fun_entry [] f = None"
| "fun_entry (AbiFunction n m ins outs # es) f = (if n = f then Some (ins, outs) else fun_entry es f)"
| "fun_entry (AbiEvent n an ps # es) f = fun_entry es f"

definition inputs_of :: "abi_entry list \<Rightarrow> string \<Rightarrow> abi_param list" where
  "inputs_of abi f = (case fun_entry abi f of None \<Rightarrow> [] | Some (ins, outs) \<Rightarrow> ins)"

definition outputs_of :: "abi_entry list \<Rightarrow> string \<Rightarrow> abi_param list" where
  "outputs_of abi f = (case fun_entry abi f of None \<Rightarrow> [] | Some (ins, outs) \<Rightarrow> outs)"

text \<open>The Solidity type go-ethereum decodes into a Go value.\<close>

fun abi_type_of :: "abi_value \<Rightarrow> string" where
  "abi_type_of (ABytes32 _) = ''bytes32''"
| "abi_type_of (ABytes _) = ''bytes''"
| "abi_type_of (AUint64 _) = ''uint64''"
| "abi_type_of (AUint16 _) = ''uint16''"
| "abi_type_of (ABool _) = ''bool''"
| "abi_type_of (AAddress _) = ''address''"
| "abi_type_of (AOther _) = ''other''"

lemma typed_bind:
  "bindE (typed n (as_bytes32 v)) g = (if abi_type_of v = ''bytes32'' then g (the (as_bytes32 v)) else Inl (ErrABIType n))"
  "bindE (typed n (as_bytes v)) h = (if abi_type_of v = ''bytes'' then h (the (as_bytes v)) else Inl (ErrABIType n))"
  "bindE (typed n (as_uint64 v)) i = (if abi_type_of v = ''uint64'' then i (the (as_uint64 v)) else Inl (ErrABIType n))"
  "bindE (typed n (as_uint16 v)) j = (if abi_type_of v = ''uint16'' then j (the (as_uint16 v)) else Inl (ErrABIType n))"
  "bindE (typed n (as_bool v)) k = (if abi_type_of v = ''bool'' then k (the (as_bool v)) else Inl (ErrABIType n))"
  by (cases v; simp)+

text \<open>The first output whose value has another type than declared.\<close>

definition first_mismatch :: "abi_param list \<Rightarrow> abi_value list \<Rightarrow> string option" where
  "first_mismatch ps vs = map_option (\<lambda>(p, v). ap_name p) (find (\<lambda>(p, v). abi_type_of v \<noteq> ap_type p) (zip ps vs))"

lemmas abi_eval = RegistryABI_def RegistryV2ABI_def outputs_of_def inputs_of_def param_def first_mismatch_def

text \<open>The two decoders stop at the first output that does not fit, with its name.\<close>

lemma decodeAttestation_typed:
  assumes "length out = 6"
  shows "case first_mismatch (outputs_of RegistryABI ''getLatest'') out of
     Some f \<Rightarrow> decodeAttestation out = Inl (ErrABIType f)
   | None \<Rightarrow> \<exists>att. decodeAttestation out = Inr att"
proof -
  from assms obtain a b c d e f where "out = [a, b, c, d, e, f]" by (auto simp: length_6)
  then show ?thesis
    by (auto simp: abi_eval decodeAttestation_def typed_bind)
qed

lemma decodeAttestationV2_typed:
  assumes "length out = 7"
  shows "case first_mismatch (outputs_of RegistryV2ABI ''getLatest'') out of
     Some f \<Rightarrow> decodeAttestationV2 out = Inl (ErrABIType f)
   | None \<Rightarrow> \<exists>att. decodeAttestationV2 out = Inr att"
proof -
  from assms obtain a b c d e f g where "out = [a, b, c, d, e, f, g]" by (auto simp: length_7)
  then show ?thesis
    by (auto simp: abi_eval decodeAttestationV2_def typed_bind)
qed

lemma first_mismatch_None:
  "length vs = length ps \<Longrightarrow> first_mismatch ps vs = None \<longleftrightarrow> map abi_type_of vs = map ap_type ps"
proof (induction vs arbitrary: ps)
  case (Cons v vs)
  then show ?case by (cases ps) (auto simp: first_mismatch_def)
qed (simp add: first_mismatch_def)

lemma getLatest_outputs:
  "length (outputs_of RegistryABI ''getLatest'') = 6" "length (outputs_of RegistryV2ABI ''getLatest'') = 7"
  by (simp_all add: abi_eval)

lemma decodeAttestation_accepts:
  "(\<exists>att. decodeAttestation out = Inr att) \<longleftrightarrow>
     map abi_type_of out = map ap_type (outputs_of RegistryABI ''getLatest'')"
proof (cases "length out = 6")
  case True
  with decodeAttestation_typed [OF True] first_mismatch_None [of out "outputs_of RegistryABI ''getLatest''"]
    getLatest_outputs(1) show ?thesis
    by (auto split: option.splits)
next
  case False
  then have "map abi_type_of out \<noteq> map ap_type (outputs_of RegistryABI ''getLatest'')"
    using getLatest_outputs(1) map_eq_imp_length_eq by metis
  with False show ?thesis by (simp add: decodeAttestation_def)
qed

lemma decodeAttestationV2_accepts:
  "(\<exists>att. decodeAttestationV2 out = Inr att) \<longleftrightarrow>
     map abi_type_of out = map ap_type (outputs_of RegistryV2ABI ''getLatest'')"
proof (cases "length out = 7")
  case True
  with decodeAttestationV2_typed [OF True] first_mismatch_None [of out "outputs_of RegistryV2ABI ''getLatest''"]
    getLatest_outputs(2) show ?thesis
    by (auto split: option.splits)
next
  case False
  then have "map abi_type_of out \<noteq> map ap_type (outputs_of RegistryV2ABI ''getLatest'')"
    using getLatest_outputs(2) map_eq_imp_length_eq by metis
  with False show ?thesis by (simp add: decodeAttestationV2_def)
qed

text \<open>
  C40: the decoders are typed by the ABI. A decoder accepts a list of values if and only if their types are,
  in order, those the ABI declares for the outputs of \<^verbatim>\<open>getLatest\<close>; if one differs, the error names the first
  such output by its ABI name; and what the clients pass to \<^verbatim>\<open>publish\<close> has the types of its inputs.
\<close>

theorem clients_typed_by_abi:
  "((\<exists>att. decodeAttestation out = Inr att) \<longleftrightarrow>
      map abi_type_of out = map ap_type (outputs_of RegistryABI ''getLatest''))
   \<and> ((\<exists>att. decodeAttestationV2 out = Inr att) \<longleftrightarrow>
      map abi_type_of out = map ap_type (outputs_of RegistryV2ABI ''getLatest''))
   \<and> (length out = 6 \<longrightarrow> first_mismatch (outputs_of RegistryABI ''getLatest'') out = Some f \<longrightarrow>
        decodeAttestation out = Inl (ErrABIType f))
   \<and> (length out = 7 \<longrightarrow> first_mismatch (outputs_of RegistryV2ABI ''getLatest'') out = Some f \<longrightarrow>
        decodeAttestationV2 out = Inl (ErrABIType f))
   \<and> map abi_type_of (publish_values_v1 a1) = map ap_type (inputs_of RegistryABI ''publish'')
   \<and> map abi_type_of (publish_values_v2 a2) = map ap_type (inputs_of RegistryV2ABI ''publish'')"
  using decodeAttestation_accepts [of out] decodeAttestationV2_accepts [of out] decodeAttestation_typed [of out]
    decodeAttestationV2_typed [of out]
  by (auto simp: publish_values_v1_def publish_values_v2_def split: option.splits) (simp_all add: abi_eval)

theorem clients_typed_by_abi_witness:
  "decodeAttestation [ABytes32 7, ABytes ''sig'', ABytes32 9, AUint16 1, AUint16 1, ABool True]
     = Inl (ErrABIType ''blockTimestamp'')"
proof -
  have "first_mismatch (outputs_of RegistryABI ''getLatest'')
      [ABytes32 7, ABytes ''sig'', ABytes32 9, AUint16 1, AUint16 1, ABool True] = Some ''blockTimestamp''"
    by (simp add: abi_eval)
  with clients_typed_by_abi [of "[ABytes32 7, ABytes ''sig'', ABytes32 9, AUint16 1, AUint16 1, ABool True]" "''blockTimestamp''"]
  show ?thesis by simp
qed

end
