(* ===== verification/Registry_Runtime.thy ===== *)
theory Registry_Runtime
  imports Prelude
begin

section \<open>The pinned runtime: registry\_v2\_runtime.go\<close>

text \<open>
  \<^verbatim>\<open>internal/chain/registry_v2_runtime.go\<close>: the bytecode template startup validation compares the deployed
  code with, as the hex text the constant holds, and the places of the publisher's address in it.
\<close>

record immutable_ref =
  ir_Start :: int
  ir_Length :: int

definition RegistryV2PublisherImmutables :: "immutable_ref list" where
  "RegistryV2PublisherImmutables =
     [\<lparr>ir_Start = 122, ir_Length = 32\<rparr>, \<lparr>ir_Start = 468, ir_Length = 32\<rparr>]"

definition RegistryV2DeployedTemplate :: string where
  "RegistryV2DeployedTemplate =
     ''608060405234801561001057600080fd5b50600436106100415760003560e01c806328a66702146100465780638c72c5''
     @ ''4e14610075578063f3889782146100b4575b600080fd5b6100596100543660046103c1565b6100c9565b60405161006c''
     @ ''97969594939291906103da565b60405180910390f35b61009c7f00000000000000000000000000000000000000000000''
     @ ''0000000000000000000081565b6040516001600160a01b03909116815260200161006c565b6100c76100c23660046104''
     @ ''6e565b6101c9565b005b6000818152602081905260408120805460018201546002830154600484015460038501805460''
     @ ''609688968796879687968796949593949367ffffffffffffffff821691600160401b810461ffff1691600160501b9091''
     @ ''0460ff1690869061012f90610521565b80601f0160208091040260200160405190810160405280929190818152602001''
     @ ''82805461015b90610521565b80156101a85780601f1061017d576101008083540402835291602001916101a8565b8201''
     @ ''91906000526020600020905b81548152906001019060200180831161018b57829003601f168201915b50505050509550''
     @ ''975097509750975097509750975050919395979092949650565b336001600160a01b037f000000000000000000000000''
     @ ''0000000000000000000000000000000000000000161461021257604051633664441d60e11b8152600401604051809103''
     @ ''90fd5b8561ffff16600003610237576040516305f3193f60e51b815260040160405180910390fd5b6000829003610259''
     @ ''5760405163ac241e1160e01b815260040160405180910390fd5b60004290506040518060e00160405280878152602001''
     @ ''83815260200186815260200185858080601f016020809104026020016040519081016040528093929190818152602001''
     @ ''838380828437600092018290525093855250505067ffffffffffffffff841660208084019190915261ffff8b16604080''
     @ ''850191909152600160609485018190528d84528383529281902085518155918501519282019290925590830151600282''
     @ ''015590820151600382019061031490826105c2565b506080820151600491909101805460a084015160c09094015167ff''
     @ ''ffffffffffffff90931669ffffffffffffffffffff1990911617600160401b61ffff948516021760ff60501b19166001''
     @ ''60501b921515929092029190911790556040519088169089907f9a434bccf0a4bd47bedbcfedc441f2f1eed2daa2e0df''
     @ ''ac2d1d824b96da685bbd906103af908a908a9088908b908b908a90610682565b60405180910390a35050505050505050''
     @ ''565b6000602082840312156103d357600080fd5b5035919050565b8781526000602060e0602084015288518060e08501''
     @ ''5260005b81811015610410578a8101830151858201610100015282016103f3565b506101009150600082828601015281''
     @ ''601f19601f83011685010192505050866040830152856060830152610450608083018667ffffffffffffffff16905256''
     @ ''5b61ffff841660a083015282151560c083015298975050505050505050565b600080600080600080600060c0888a0312''
     @ ''1561048957600080fd5b87359650602088013561ffff811681146104a257600080fd5b95506040880135945060608801''
     @ ''359350608088013567ffffffffffffffff808211156104cd57600080fd5b818a0191508a601f8301126104e157600080''
     @ ''fd5b8135818111156104f057600080fd5b8b602082850101111561050257600080fd5b60208301955080945050505060''
     @ ''a0880135905092959891949750929550565b600181811c9082168061053557607f821691505b60208210810361055557''
     @ ''634e487b7160e01b600052602260045260246000fd5b50919050565b634e487b7160e01b600052604160045260246000''
     @ ''fd5b601f8211156105bd576000816000526020600020601f850160051c8101602086101561059a5750805b601f850160''
     @ ''051c820191505b818110156105b9578281556001016105a6565b5050505b505050565b815167ffffffffffffffff8111''
     @ ''156105dc576105dc61055b565b6105f0816105ea8454610521565b84610571565b602080601f83116001811461062557''
     @ ''6000841561060d5750858301515b600019600386901b1c1916600185901b1785556105b9565b60008581526020812060''
     @ ''1f198616915b8281101561065457888601518255948401946001909101908401610635565b5085821015610672578785''
     @ ''0151600019600388901b60f8161c191681555b5050505050600190811b01905550565b86815285602082015284604082''
     @ ''015260a060608201528260a0820152828460c0830137600060c08483010152600060c0601f19601f8601168301019050''
     @ ''67ffffffffffffffff8316608083015297965050505050505056fea264697066735822122067ba413c09e33e478adf0e''
     @ ''7b8bf199910a9df34a5c80f0a1d006c92d7964cb0a64736f6c63430008180033''"

end
