(* ===== verification/Chain_Validate.thy ===== *)
theory Chain_Validate
  imports Chain_Client Registry_Runtime
begin

section \<open>Startup validation: validate.go\<close>

text \<open>
  \<^verbatim>\<open>internal/chain/validate.go\<close>: the checks the operator makes of its chain configuration before it
  publishes. The answers of the RPC endpoint, and of parsing the ABI for the call to it, are the record \<open>rpc\<close>, an
  argument; so are the URL parser and
  go-ethereum's key functions. The pinned bytecode template and the offsets of the publisher in it are
  those of Registry\_Runtime.

  The lemmas show what a successful validation establishes: in particular that the code found is the
  template with one publisher in every recorded slot, and that this publisher is determined by the code.
\<close>

subsection \<open>Types\<close>

record config =
  cf_RPCURL :: string
  cf_ContractAddress :: string
  cf_ChainID :: int64
  cf_PrivateKeyHex :: string

record validation_report =
  vr_ChainID :: int64
  vr_Contract :: address
  vr_Publisher :: address
  vr_Signer :: address

datatype validate_error =
    ErrConfigInvalid string
  | ErrChainUnreachable string
  | ErrChainIDMismatch int64 int
  | ErrNoContractCode address
  | ErrCodeMismatch string
  | ErrPublisherMismatch address address
  | ErrRuntimeTemplate string

text \<open>
  \<open>url_Parse\<close> gives scheme and host of a URL; \<open>key_address\<close> is the address of a parsed key. A report
  accompanies every error, with what was established until then.
\<close>

record 'k validate_lib =
  url_Parse :: "string \<Rightarrow> (string \<times> string) option"
  vl_HexToAddress :: "string \<Rightarrow> address"
  vl_HexToECDSA :: "string \<Rightarrow> string + 'k"
  key_address :: "'k \<Rightarrow> address"

record rpc =
  rpc_Dial :: "string \<Rightarrow> string + unit"
  rpc_ChainID :: "string + int"
  rpc_CodeAt :: "address \<Rightarrow> string + bytes"
  rpc_RegistryV2ABI :: "string + unit"
  rpc_publisher :: "address \<Rightarrow> string + abi_value list"

type_synonym 'a reported = "validation_report \<times> validate_error + 'a"

subsection \<open>Configuration\<close>

definition is_hex_char :: "char \<Rightarrow> bool" where
  "is_hex_char c \<longleftrightarrow> byte_in c 0x30 0x39 \<or> byte_in c 0x61 0x66 \<or> byte_in c 0x41 0x46"

text \<open>The regular expression \<^verbatim>\<open>^0x[0-9a-fA-F]{40}$\<close>.\<close>

definition hexAddress :: "string \<Rightarrow> bool" where
  "hexAddress s \<longleftrightarrow> length s = 42 \<and> take 2 s = ''0x'' \<and> list_all is_hex_char (drop 2 s)"

definition ParseAddress :: "'k validate_lib \<Rightarrow> string \<Rightarrow> validate_error + address" where
  "ParseAddress vl s =
     (if \<not> hexAddress s then Inl (ErrConfigInvalid (''address '' @ s))
      else let addr = vl_HexToAddress vl s
           in if addr = 0 then Inl (ErrConfigInvalid ''address is the zero address'') else Inr addr)"

definition empty_report :: validation_report where
  "empty_report = \<lparr>vr_ChainID = 0, vr_Contract = 0, vr_Publisher = 0, vr_Signer = 0\<rparr>"

definition ValidateConfig :: "'k validate_lib \<Rightarrow> config \<Rightarrow> validation_report reported" where
  "ValidateConfig vl cfg =
     (let rep = empty_report in
      if cf_RPCURL cfg = [] then Inl (rep, ErrConfigInvalid ''RPC URL is empty'')
      else case url_Parse vl (cf_RPCURL cfg) of
          None \<Rightarrow> Inl (rep, ErrConfigInvalid ''RPC URL'')
        | Some (scheme, host) \<Rightarrow>
            (if scheme = [] \<or> host = [] then Inl (rep, ErrConfigInvalid ''RPC URL'')
             else if scheme \<notin> {''http'', ''https'', ''ws'', ''wss''} then Inl (rep, ErrConfigInvalid ''RPC URL scheme'')
             else case ParseAddress vl (cf_ContractAddress cfg) of
                 Inl err \<Rightarrow> Inl (rep, err)
               | Inr addr \<Rightarrow>
                   (let rep = rep\<lparr>vr_Contract := addr\<rparr> in
                    if sint (cf_ChainID cfg) \<le> 0 then Inl (rep, ErrConfigInvalid ''chain id must be positive'')
                    else let rep = rep\<lparr>vr_ChainID := cf_ChainID cfg\<rparr> in
                         if cf_PrivateKeyHex cfg = [] then Inr rep
                         else case vl_HexToECDSA vl (TrimPrefix (cf_PrivateKeyHex cfg) ''0x'') of
                             Inl err \<Rightarrow> Inl (rep, ErrConfigInvalid ''private key is not a valid secp256k1 key'')
                           | Inr key \<Rightarrow> Inr (rep\<lparr>vr_Signer := key_address vl key\<rparr>))))"

subsection \<open>The expected runtime\<close>

definition hex_nibble :: "char \<Rightarrow> nat" where
  "hex_nibble c =
     (if byte_in c 0x30 0x39 then of_char c - 0x30
      else if byte_in c 0x61 0x66 then of_char c - 0x57
      else of_char c - 0x37)"

text \<open>\<^verbatim>\<open>hex.DecodeString\<close>: an error for a character that is no hex digit or for an odd length.\<close>

fun hex_DecodeString :: "string \<Rightarrow> bytes option" where
  "hex_DecodeString [] = Some []"
| "hex_DecodeString [c] = None"
| "hex_DecodeString (a # b # s) =
     (if is_hex_char a \<and> is_hex_char b
      then map_option (\<lambda>bs. char_of (16 * hex_nibble a + hex_nibble b) # bs) (hex_DecodeString s)
      else None)"

definition address_bytes :: "address \<Rightarrow> bytes" where
  "address_bytes a = be_bytes 20 (unat a)"

text \<open>One pass of the loop: zero the slot, then copy the address into its last twenty bytes.\<close>

definition splice_ref :: "immutable_ref \<Rightarrow> address \<Rightarrow> bytes \<Rightarrow> validate_error + bytes" where
  "splice_ref ref publisher out =
     (if ir_Start ref < 0 \<or> ir_Length ref \<le> 0 \<or> int (length out) < ir_Start ref + ir_Length ref
      then Inl (ErrRuntimeTemplate ''immutable reference is outside the runtime'')
      else if ir_Length ref < 20
      then Inl (ErrRuntimeTemplate ''immutable slot cannot hold an address'')
      else Inr (take (nat (ir_Start ref)) out
                @ replicate (nat (ir_Length ref) - 20) (CHR 0x00) @ address_bytes publisher
                @ drop (nat (ir_Start ref + ir_Length ref)) out))"

fun splice_all :: "immutable_ref list \<Rightarrow> address \<Rightarrow> bytes \<Rightarrow> validate_error + bytes" where
  "splice_all [] publisher out = Inr out"
| "splice_all (ref # refs) publisher out = bindE (splice_ref ref publisher out) (splice_all refs publisher)"

definition ExpectedRuntime :: "address \<Rightarrow> validate_error + bytes" where
  "ExpectedRuntime publisher =
     (case hex_DecodeString (TrimPrefix RegistryV2DeployedTemplate ''0x'') of
        None \<Rightarrow> Inl (ErrRuntimeTemplate ''pinned runtime template is not hex'')
      | Some tmpl \<Rightarrow> splice_all RegistryV2PublisherImmutables publisher tmpl)"

subsection \<open>Validation against the chain\<close>

definition readPublisher :: "rpc \<Rightarrow> address \<Rightarrow> string + address" where
  "readPublisher rpc addr =
     bindE (rpc_RegistryV2ABI rpc) (\<lambda>parsed.
     bindE (rpc_publisher rpc addr) (\<lambda>out.
       if length out \<noteq> 1 then Inl ''publisher() returned the wrong number of values''
       else case as_address (out ! 0) of
           None \<Rightarrow> Inl ''publisher() returned no address''
         | Some a \<Rightarrow> Inr a))"

definition chain_Validate ::
  "'k validate_lib \<Rightarrow> rpc \<Rightarrow> config \<Rightarrow> bool \<Rightarrow> validation_report reported" where
  "chain_Validate vl rpc cfg requireSigner =
     bindE (ValidateConfig vl cfg) (\<lambda>rep.
       if requireSigner \<and> cf_PrivateKeyHex cfg = []
       then Inl (rep, ErrConfigInvalid ''a signing key is required to publish'')
       else case rpc_Dial rpc (cf_RPCURL cfg) of
           Inl err \<Rightarrow> Inl (rep, ErrChainUnreachable err)
         | Inr _ \<Rightarrow>
       case rpc_ChainID rpc of
           Inl err \<Rightarrow> Inl (rep, ErrChainUnreachable err)
         | Inr observed \<Rightarrow>
       if observed \<noteq> sint (cf_ChainID cfg) then Inl (rep, ErrChainIDMismatch (cf_ChainID cfg) observed)
       else case rpc_CodeAt rpc (vr_Contract rep) of
           Inl err \<Rightarrow> Inl (rep, ErrChainUnreachable err)
         | Inr code \<Rightarrow>
       if length code = 0 then Inl (rep, ErrNoContractCode (vr_Contract rep))
       else case readPublisher rpc (vr_Contract rep) of
           Inl err \<Rightarrow> Inl (rep, ErrCodeMismatch err)
         | Inr publisher \<Rightarrow>
       let rep = rep\<lparr>vr_Publisher := publisher\<rparr> in
       case ExpectedRuntime publisher of
           Inl err \<Rightarrow> Inl (rep, err)
         | Inr expected \<Rightarrow>
       if code \<noteq> expected then Inl (rep, ErrCodeMismatch ''code'')
       else if requireSigner \<and> publisher \<noteq> vr_Signer rep
       then Inl (rep, ErrPublisherMismatch publisher (vr_Signer rep))
       else Inr rep)"

subsection \<open>The spliced runtime\<close>

lemma length_address_bytes [simp]: "length (address_bytes a) = 20"
  by (simp add: address_bytes_def)

lemma address_bytes_inject: "address_bytes a = address_bytes b \<longleftrightarrow> a = b"
proof -
  have "unat x < 2 ^ LENGTH(160)" for x :: address by (rule unsigned_less)
  then have "unat x < 256 ^ 20" for x :: address by simp
  then show ?thesis by (simp add: address_bytes_def be_bytes_inject word_unat_eq_iff)
qed

definition slot_of :: "immutable_ref \<Rightarrow> bytes \<Rightarrow> bytes" where
  "slot_of ref code = take (nat (ir_Length ref)) (drop (nat (ir_Start ref)) code)"

definition padded :: "immutable_ref \<Rightarrow> address \<Rightarrow> bytes" where
  "padded ref publisher = replicate (nat (ir_Length ref) - 20) (CHR 0x00) @ address_bytes publisher"

lemma splice_ok:
  assumes "splice_ref ref p out = Inr code"
  shows "length code = length out" "slot_of ref code = padded ref p"
    "i < nat (ir_Start ref) \<or> nat (ir_Start ref + ir_Length ref) \<le> i \<Longrightarrow> i < length out \<Longrightarrow> code ! i = out ! i"
proof -
  from assms have b: "0 \<le> ir_Start ref" "20 \<le> ir_Length ref" "ir_Start ref + ir_Length ref \<le> int (length out)"
    and code: "code = take (nat (ir_Start ref)) out @ padded ref p @ drop (nat (ir_Start ref + ir_Length ref)) out"
    by (auto simp: splice_ref_def padded_def split: if_splits)
  have len: "nat (ir_Start ref) \<le> length out" "length (padded ref p) = nat (ir_Length ref)"
    "nat (ir_Start ref + ir_Length ref) = nat (ir_Start ref) + nat (ir_Length ref)"
    "nat (ir_Start ref) + nat (ir_Length ref) \<le> length out"
    using b by (auto simp: padded_def)
  show "length code = length out" "slot_of ref code = padded ref p"
    using len by (simp_all add: code slot_of_def)
  show "code ! i = out ! i" if "i < nat (ir_Start ref) \<or> nat (ir_Start ref + ir_Length ref) \<le> i" "i < length out"
    using that len by (auto simp: code nth_append)
qed

abbreviation ref1 :: immutable_ref where "ref1 \<equiv> \<lparr>ir_Start = 122, ir_Length = 32\<rparr>"
abbreviation ref2 :: immutable_ref where "ref2 \<equiv> \<lparr>ir_Start = 468, ir_Length = 32\<rparr>"

text \<open>The two slots of the registry lie apart, so the second pass leaves the first slot alone.\<close>

lemma slot_of_frame:
  assumes "length code = length out" "\<And>i. i < length out \<Longrightarrow> i < 468 \<Longrightarrow> code ! i = out ! i"
  shows "slot_of ref1 code = slot_of ref1 out"
  using assms by (auto simp: slot_of_def intro!: nth_equalityI)

lemma splice_all_registry:
  assumes "splice_all RegistryV2PublisherImmutables p tmpl = Inr code"
  shows "length code = length tmpl" "slot_of ref1 code = padded ref1 p" "slot_of ref2 code = padded ref2 p"
    "i < length tmpl \<Longrightarrow> i \<notin> {122..<154} \<union> {468..<500} \<Longrightarrow> code ! i = tmpl ! i"
proof -
  from assms obtain mid where mid: "splice_ref ref1 p tmpl = Inr mid" and code: "splice_ref ref2 p mid = Inr code"
    by (auto simp: RegistryV2PublisherImmutables_def bindE_Inr_iff)
  note m = splice_ok [OF mid] and c = splice_ok [OF code]
  show "length code = length tmpl" "slot_of ref2 code = padded ref2 p" using m(1) c(1,2) by simp_all
  have "slot_of ref1 code = slot_of ref1 mid"
    by (rule slot_of_frame) (use c(1,3) in auto)
  then show "slot_of ref1 code = padded ref1 p" using m(2) by simp
  show "code ! i = tmpl ! i" if "i < length tmpl" "i \<notin> {122..<154} \<union> {468..<500}"
    using that m(1) m(3) [of i] c(3) [of i] by auto
qed

subsection \<open>The pinned template\<close>

lemma hex_chars:
  "is_hex_char (CHR ''0'')"
  "is_hex_char (CHR ''1'')"
  "is_hex_char (CHR ''2'')"
  "is_hex_char (CHR ''3'')"
  "is_hex_char (CHR ''4'')"
  "is_hex_char (CHR ''5'')"
  "is_hex_char (CHR ''6'')"
  "is_hex_char (CHR ''7'')"
  "is_hex_char (CHR ''8'')"
  "is_hex_char (CHR ''9'')"
  "is_hex_char (CHR ''a'')"
  "is_hex_char (CHR ''b'')"
  "is_hex_char (CHR ''c'')"
  "is_hex_char (CHR ''d'')"
  "is_hex_char (CHR ''e'')"
  "is_hex_char (CHR ''f'')"
  by (simp_all add: is_hex_char_def byte_in_def)

lemma template_hex: "list_all is_hex_char RegistryV2DeployedTemplate"
  unfolding RegistryV2DeployedTemplate_def list_all_append by (simp only: list.pred_inject hex_chars simp_thms)

lemma template_length: "length RegistryV2DeployedTemplate = 3616"
  unfolding RegistryV2DeployedTemplate_def length_append by simp

lemma template_unprefixed: "TrimPrefix RegistryV2DeployedTemplate ''0x'' = RegistryV2DeployedTemplate"
proof -
  have "hd RegistryV2DeployedTemplate = CHR ''6''" by (simp add: RegistryV2DeployedTemplate_def)
  moreover have "take 2 s = ''0x'' \<Longrightarrow> hd s = CHR ''0''" for s by (cases s) auto
  ultimately have "take 2 RegistryV2DeployedTemplate \<noteq> ''0x''" by fastforce
  then show ?thesis by (simp add: TrimPrefix_def numeral_2_eq_2)
qed

text \<open>Hex text of even length decodes, to half as many bytes.\<close>

lemma hex_DecodeString_total:
  "list_all is_hex_char s \<Longrightarrow> even (length s) \<Longrightarrow> \<exists>bs. hex_DecodeString s = Some bs \<and> 2 * length bs = length s"
  by (induction s rule: hex_DecodeString.induct) auto

text \<open>Both references of the registry fit any template of at least 500 bytes.\<close>

lemma splice_all_total:
  assumes "500 \<le> length tmpl"
  shows "\<exists>code. splice_all RegistryV2PublisherImmutables p tmpl = Inr code"
proof -
  have "\<exists>mid. splice_ref ref1 p tmpl = Inr mid" using assms by (simp add: splice_ref_def)
  then obtain mid where mid: "splice_ref ref1 p tmpl = Inr mid" by blast
  with splice_ok(1) have "length mid = length tmpl" by blast
  then have "\<exists>code. splice_ref ref2 p mid = Inr code" using assms by (simp add: splice_ref_def)
  with mid show ?thesis by (auto simp: RegistryV2PublisherImmutables_def)
qed

lemma ValidateConfig_error: "ValidateConfig vl cfg \<noteq> Inl (rep, ErrRuntimeTemplate msg)"
  by (auto simp: ValidateConfig_def ParseAddress_def Let_def split: option.splits sum.splits)

lemma template_decodes:
  obtains tmpl where "hex_DecodeString RegistryV2DeployedTemplate = Some tmpl" "length tmpl = 1808"
    "\<And>p. ExpectedRuntime p = splice_all RegistryV2PublisherImmutables p tmpl"
proof -
  obtain tmpl where tmpl: "hex_DecodeString RegistryV2DeployedTemplate = Some tmpl" "length tmpl = 1808"
    using hex_DecodeString_total [OF template_hex] by (auto simp: template_length)
  then have "ExpectedRuntime p = splice_all RegistryV2PublisherImmutables p tmpl" for p
    by (simp add: ExpectedRuntime_def template_unprefixed)
  with tmpl show ?thesis by (rule that)
qed

lemma ExpectedRuntime_succeeds: "\<exists>code. ExpectedRuntime p = Inr code \<and> length code = 1808"
proof -
  obtain tmpl where tmpl: "length tmpl = 1808" "ExpectedRuntime p = splice_all RegistryV2PublisherImmutables p tmpl"
    by (rule template_decodes) blast
  with splice_all_total [of tmpl p] obtain code where code: "splice_all RegistryV2PublisherImmutables p tmpl = Inr code"
    by auto
  with splice_all_registry(1) [OF code] tmpl show ?thesis by simp
qed

subsection \<open>Properties of startup validation\<close>

text \<open>
  C24: the expected runtime of a publisher is the pinned template with that publisher in both slots. The
  template is hex text of 1808 bytes in which both slots lie, so the computation succeeds for every
  address; each slot of the result holds twelve zero bytes and the address, every byte outside the slots is
  the template's; different publishers give different code; and startup validation never reports a broken
  template.
\<close>

theorem ExpectedRuntime_splices:
  "\<exists>tmpl code. hex_DecodeString RegistryV2DeployedTemplate = Some tmpl \<and> ExpectedRuntime p = Inr code
     \<and> length tmpl = 1808 \<and> length code = 1808
     \<and> slot_of ref1 code = replicate 12 (CHR 0x00) @ address_bytes p
     \<and> slot_of ref2 code = replicate 12 (CHR 0x00) @ address_bytes p
     \<and> (\<forall>i. i < 1808 \<longrightarrow> i \<notin> {122..<154} \<union> {468..<500} \<longrightarrow> code ! i = tmpl ! i)
     \<and> (\<forall>q. ExpectedRuntime q = Inr code \<longrightarrow> q = p)
     \<and> chain_Validate vl rpc cfg requireSigner \<noteq> Inl (rep, ErrRuntimeTemplate msg)"
proof -
  obtain tmpl where tmpl: "hex_DecodeString RegistryV2DeployedTemplate = Some tmpl" "length tmpl = 1808"
    "\<And>q. ExpectedRuntime q = splice_all RegistryV2PublisherImmutables q tmpl" by (rule template_decodes) blast
  obtain code where code: "ExpectedRuntime p = Inr code" using ExpectedRuntime_succeeds by blast
  note r = splice_all_registry [OF code [unfolded tmpl(3)]]
  have inj: "q = p" if "ExpectedRuntime q = Inr code" for q
    using splice_all_registry(2) [OF that [unfolded tmpl(3)]] r(2) by (simp add: padded_def address_bytes_inject)
  have never: "ExpectedRuntime q \<noteq> Inl e" for q e
    using ExpectedRuntime_succeeds [of q] by auto
  have "chain_Validate vl rpc cfg requireSigner \<noteq> Inl (rep, ErrRuntimeTemplate msg)"
    using ValidateConfig_error [of vl cfg rep msg]
    by (auto simp: chain_Validate_def Let_def bindE_Inl_iff never split: sum.splits)
  moreover have "slot_of ref1 code = replicate 12 (CHR 0x00) @ address_bytes p"
    "slot_of ref2 code = replicate 12 (CHR 0x00) @ address_bytes p" "length code = 1808"
    using r(1-3) tmpl(2) by (simp_all add: padded_def)
  moreover have "\<forall>i. i < 1808 \<longrightarrow> i \<notin> {122..<154} \<union> {468..<500} \<longrightarrow> code ! i = tmpl ! i"
    using r(4) unfolding tmpl(2) by blast
  ultimately show ?thesis using tmpl(1,2) code inj by blast
qed

text \<open>
  C23: what a successful validation establishes. The URL has a supported scheme and a host; the address is
  0x with forty hex digits and not zero; the chain id is positive and the one the RPC reports; the code
  at the address is exactly the expected registry for the publisher it reports; and for a writer that
  publisher is the account of the configured key.
\<close>

theorem chain_Validate_sound:
  assumes "chain_Validate vl rpc cfg requireSigner = Inr rep"
  shows "(\<exists>scheme host. url_Parse vl (cf_RPCURL cfg) = Some (scheme, host) \<and> host \<noteq> []
         \<and> scheme \<in> {''http'', ''https'', ''ws'', ''wss''})
     \<and> hexAddress (cf_ContractAddress cfg) \<and> vr_Contract rep = vl_HexToAddress vl (cf_ContractAddress cfg)
     \<and> vr_Contract rep \<noteq> 0 \<and> 0 < sint (cf_ChainID cfg) \<and> vr_ChainID rep = cf_ChainID cfg
     \<and> rpc_ChainID rpc = Inr (sint (cf_ChainID cfg))
     \<and> (\<exists>code. rpc_CodeAt rpc (vr_Contract rep) = Inr code \<and> code \<noteq> []
         \<and> ExpectedRuntime (vr_Publisher rep) = Inr code)
     \<and> rpc_publisher rpc (vr_Contract rep) = Inr [AAddress (vr_Publisher rep)]
     \<and> (requireSigner \<longrightarrow> (\<exists>key. vl_HexToECDSA vl (TrimPrefix (cf_PrivateKeyHex cfg) ''0x'') = Inr key
         \<and> vr_Publisher rep = key_address vl key))"
proof -
  obtain rep0 where cfgok: "ValidateConfig vl cfg = Inr rep0"
    using assms by (auto simp: chain_Validate_def bindE_Inr_iff)
  have conf: "(\<exists>scheme host. url_Parse vl (cf_RPCURL cfg) = Some (scheme, host) \<and> host \<noteq> []
      \<and> scheme \<in> {''http'', ''https'', ''ws'', ''wss''})"
    "hexAddress (cf_ContractAddress cfg)" "vr_Contract rep0 = vl_HexToAddress vl (cf_ContractAddress cfg)"
    "vr_Contract rep0 \<noteq> 0" "0 < sint (cf_ChainID cfg)" "vr_ChainID rep0 = cf_ChainID cfg"
    "cf_PrivateKeyHex cfg \<noteq> [] \<Longrightarrow> \<exists>key. vl_HexToECDSA vl (TrimPrefix (cf_PrivateKeyHex cfg) ''0x'') = Inr key
       \<and> vr_Signer rep0 = key_address vl key"
    using cfgok
    by (auto simp: ValidateConfig_def ParseAddress_def Let_def split: if_splits option.splits sum.splits)
  obtain out parsed where out: "rpc_publisher rpc (vr_Contract rep0) = Inr out" "length out = 1"
    "as_address (out ! 0) = Some (vr_Publisher rep)" "rep = rep0\<lparr>vr_Publisher := vr_Publisher rep\<rparr>"
    "rpc_RegistryV2ABI rpc = Inr parsed"
    using assms cfgok
    by (auto simp: chain_Validate_def readPublisher_def Let_def bindE_Inr_iff bindE_Inl_iff
        split: if_splits option.splits sum.splits)
  then have pub: "rpc_publisher rpc (vr_Contract rep0) = Inr [AAddress (vr_Publisher rep)]"
    by (cases out) (auto simp: as_value_iff)
  have "readPublisher rpc (vr_Contract rep0) = Inr (vr_Publisher rep)"
    using pub out(5) by (simp add: readPublisher_def)
  then have chain: "rpc_ChainID rpc = Inr (sint (cf_ChainID cfg))"
    "\<exists>code. rpc_CodeAt rpc (vr_Contract rep0) = Inr code \<and> code \<noteq> []
         \<and> ExpectedRuntime (vr_Publisher rep) = Inr code"
    "requireSigner \<Longrightarrow> cf_PrivateKeyHex cfg \<noteq> [] \<and> vr_Publisher rep = vr_Signer rep0"
    using assms cfgok
    by (auto simp: chain_Validate_def Let_def split: if_splits option.splits sum.splits)
  have same: "vr_Contract rep = vr_Contract rep0" "vr_ChainID rep = vr_ChainID rep0"
    by (subst out(4), simp)+
  show ?thesis unfolding same using conf chain pub by auto
qed

definition sample_vl :: "unit validate_lib" where
  "sample_vl =
     \<lparr>url_Parse = \<lambda>_. Some (''https'', ''rpc''), vl_HexToAddress = \<lambda>_. 3, vl_HexToECDSA = \<lambda>_. Inr (), key_address = \<lambda>_. 5\<rparr>"

definition sample_rpc :: rpc where
  "sample_rpc =
     \<lparr>rpc_Dial = \<lambda>_. Inr (), rpc_ChainID = Inr 84532, rpc_CodeAt = \<lambda>_. Inr (projr (ExpectedRuntime 5)),
      rpc_RegistryV2ABI = Inr (), rpc_publisher = \<lambda>_. Inr [AAddress 5]\<rparr>"

definition sample_config :: config where
  "sample_config =
     \<lparr>cf_RPCURL = ''https://rpc'', cf_ContractAddress = ''0x1111111111111111111111111111111111111111'',
      cf_ChainID = 84532, cf_PrivateKeyHex = ''0xkey''\<rparr>"

lemma sample_validates:
  "chain_Validate sample_vl sample_rpc sample_config True
     = Inr \<lparr>vr_ChainID = 84532, vr_Contract = 3, vr_Publisher = 5, vr_Signer = 5\<rparr>"
proof -
  obtain code where code: "ExpectedRuntime 5 = Inr code" "code \<noteq> []"
    using ExpectedRuntime_succeeds [of 5] by fastforce
  have "hexAddress (cf_ContractAddress sample_config)"
    by (simp add: hexAddress_def sample_config_def is_hex_char_def byte_in_def)
  then have "ParseAddress sample_vl (cf_ContractAddress sample_config) = Inr 3"
    by (simp add: ParseAddress_def sample_vl_def)
  then have "ValidateConfig sample_vl sample_config
      = Inr \<lparr>vr_ChainID = 84532, vr_Contract = 3, vr_Publisher = 0, vr_Signer = 5\<rparr>"
    unfolding ValidateConfig_def Let_def
    by simp (simp add: sample_vl_def sample_config_def empty_report_def)
  with code show ?thesis
    unfolding chain_Validate_def Let_def
    by (simp add: sample_rpc_def readPublisher_def) (simp add: sample_config_def)
qed

theorem ExpectedRuntime_splices_witness:
  "\<exists>code. ExpectedRuntime 5 = Inr code \<and> slot_of ref1 code = replicate 12 (CHR 0x00) @ address_bytes 5
     \<and> (\<forall>q. ExpectedRuntime q = Inr code \<longrightarrow> q = 5)"
  using ExpectedRuntime_splices [of 5 sample_vl sample_rpc sample_config True empty_report "[]"] by blast

theorem chain_Validate_sound_witness:
  "hexAddress (cf_ContractAddress sample_config)
   \<and> (\<exists>code. rpc_CodeAt sample_rpc 3 = Inr code \<and> ExpectedRuntime 5 = Inr code)"
  using chain_Validate_sound [OF sample_validates] by auto

end
