(* ===== verification/Spec2Isabelle.thy ===== *)
theory Spec2Isabelle
  imports Sha256_Vector Publisher_V2_Settle Operator_V1_Order Registry_ABI Chain_Validate
begin

text \<open>
  \<^bold>\<open>Verification of proof-of-deploy.\<close>

  The repository is a Kubernetes operator that attests Deployments on a blockchain, and a command that
  verifies them. The operator watches Deployments (\<^verbatim>\<open>internal/controller\<close>); when a rollout has converged it
  normalises and hashes the object (\<^verbatim>\<open>internal/attest\<close>), has AWS KMS sign a digest that binds hash and
  protocol version (\<^verbatim>\<open>internal/signer\<close>, \<^verbatim>\<open>internal/publisher\<close>) and publishes the record on a registry
  contract (\<^verbatim>\<open>internal/chain\<close>, \<^verbatim>\<open>contracts/\<close>). The verifier (\<^verbatim>\<open>cmd/verify\<close>) reads the record, hashes the live
  object with the same code and checks hash, key and signature. A second protocol version (a wider hash
  surface, a workload identity, a signed envelope, a publisher with per-workload state) stands beside the
  first. Its parts are there, but not yet put together: the manager (\<^verbatim>\<open>cmd/main.go\<close>) runs version 1, and nothing
  under \<^verbatim>\<open>src/\<close> connects the v2 publisher's interface \<^verbatim>\<open>ChainV2\<close> with the client \<^verbatim>\<open>ClientV2\<close>. Where the two are
  composed here, three definitions of \<^verbatim>\<open>Publisher_Chain\<close> (\<open>view_v2\<close>, \<open>registry_latest\<close>, \<open>publish_args_for\<close>) stand for the
  missing adapter; they follow the comments of the interface.

  \<^bold>\<open>Theories and sources.\<close> Paths are below \<^verbatim>\<open>src/\<close>.

  \<^item> \<^verbatim>\<open>Prelude\<close>: Go's built-in types in HOL (strings are byte lists, \<^verbatim>\<open>[32]byte\<close> a 256-bit word, nil slices and
    maps options, Go maps association lists in visiting order), the result type and its bind, big-endian
    encodings, sorting by a less-function. \<^verbatim>\<open>Sha256\<close>, \<^verbatim>\<open>Sha256_Vector\<close>: the digest, computed,
    and computed on a standard test vector. \<^verbatim>\<open>Go_Json\<close>: the part of
    \<^verbatim>\<open>encoding/json\<close> the hashes use, with a proof that rendering is injective. \<^verbatim>\<open>Go_Flag\<close>: \<^verbatim>\<open>flag.Parse\<close> and the
    number parsers of \<^verbatim>\<open>strconv\<close>. \<^verbatim>\<open>Kube_Types\<close>: the fields of Kubernetes objects the program reads.
  \<^item> \<^verbatim>\<open>Normalize_V1\<close>, \<^verbatim>\<open>Quantity\<close>, \<^verbatim>\<open>Surface_V1\<close>: \<^verbatim>\<open>internal/attest/normalize.go\<close>, \<^verbatim>\<open>types.go\<close>, \<^verbatim>\<open>hash.go\<close>. The abstract
    surface of a Deployment (\<open>surfaceV1\<close>: labels as maps, containers as multisets) is what the canonical JSON
    depends on, no more and no less. Which labels count and how a quantity is written is decided by the code's own
    \<open>isGeneratedLabel\<close> and \<open>canonicalQuantity\<close>; that two quantities are written alike exactly when they are the same
    number is a theorem of its own (\<open>canonicalQuantity_by_value\<close>).
  \<^item> \<^verbatim>\<open>Normalize_V2\<close>, \<^verbatim>\<open>Surface_V2\<close>: \<^verbatim>\<open>normalize_v2.go\<close>, \<^verbatim>\<open>types_v2.go\<close>: the same for version 2 (\<open>surfaceV2\<close>), the values
    it never looks at, and that it covers version 1.
  \<^item> \<^verbatim>\<open>Identity\<close>: \<^verbatim>\<open>identity.go\<close>: validation in any map order, the self-delimiting encoding, the on-chain key.
  \<^item> \<^verbatim>\<open>Envelope\<close>: \<^verbatim>\<open>version.go\<close>, \<^verbatim>\<open>envelope.go\<close>, \<^verbatim>\<open>verify.go\<close>: version dispatch, signing digests and their domains,
    keys and signatures.
  \<^item> \<^verbatim>\<open>Kms_Signer\<close>: \<^verbatim>\<open>internal/signer/kms.go\<close>. The locale \<open>signer_contract\<close> is what publishers and verifiers need
    of a signer; the KMS signer is its interpretation.
  \<^item> \<^verbatim>\<open>Registry\<close>: \<^verbatim>\<open>contracts/contracts/*.sol\<close>. The locale \<open>registry\<close> is the promise of a log only its publisher
    writes; both contracts are interpretations.
  \<^item> \<^verbatim>\<open>Chain_Client\<close>, \<^verbatim>\<open>Registry_ABI\<close>, \<^verbatim>\<open>Chain_Validate\<close>, \<^verbatim>\<open>Registry_Runtime\<close>: \<^verbatim>\<open>internal/chain\<close>: clients and decoders, the
    ABI constants, startup validation, the pinned bytecode. The values of a \<^verbatim>\<open>publish\<close> call go from the client to the
    contract as a list, in the client's order, and are bound to the parameters in the contract's.
  \<^item> \<^verbatim>\<open>Publisher_V1\<close>: \<^verbatim>\<open>internal/publisher/publisher.go\<close>. \<^verbatim>\<open>Publisher_V2\<close>, \<^verbatim>\<open>Publisher_V2_Inv\<close>, \<^verbatim>\<open>Publisher_V2_Once\<close>,
    \<^verbatim>\<open>Publisher_V2_Props\<close>: \<^verbatim>\<open>publisher_v2.go\<close>: the critical sections as functions, the worker as a machine, the
    interleavings with \<^verbatim>\<open>Enqueue\<close> as an inductive step relation, invariants over its reachable states.
    \<^verbatim>\<open>Publisher_Chain\<close>: the locale \<open>chain_v2\<close>, the chain as the publisher sees it, interpreted on the registry.
    \<^verbatim>\<open>Publisher_V2_World\<close>: the worker on the registry contract itself, with a node that keeps, includes and drops
    transactions and other accounts that send theirs; its steps refine those of \<^verbatim>\<open>Publisher_V2_Inv\<close>.
    \<^verbatim>\<open>Publisher_V2_Stale\<close>, \<^verbatim>\<open>Publisher_V2_Settle\<close>: what becomes there of transactions that come too late or lose their
    nonce, and of those that do not.
    \<^verbatim>\<open>Publisher_Loop\<close>: \<^verbatim>\<open>Start\<close> and \<^verbatim>\<open>processNext\<close> of both publishers; the locale \<open>worker_loop\<close> is what a queue asks of a
    worker, both publishers are interpretations; and the v2 loop interleaved with \<^verbatim>\<open>Enqueue\<close>, the queue being
    the set of items it owes.
  \<^item> \<^verbatim>\<open>Controller\<close>: \<^verbatim>\<open>internal/controller/deployment_controller.go\<close>. \<^verbatim>\<open>Pod_Verify\<close>: \<^verbatim>\<open>cmd/verify/main.go\<close>.
    \<^verbatim>\<open>Manager_Main\<close>: \<^verbatim>\<open>cmd/main.go\<close>. \<^verbatim>\<open>Build_Info\<close>: \<^verbatim>\<open>internal/buildinfo\<close>.
  \<^item> \<^verbatim>\<open>Operator_Verifier\<close>: reconciler, publisher, registry and verifier composed. \<^verbatim>\<open>Operator_V1\<close>: the running operator
    as one machine of reconciles, queue, worker, pending transactions, blocks, other accounts and restarts.
    \<^verbatim>\<open>Operator_V1_Order\<close>: on that machine, when the registry agrees with the cluster and when the order of
    publications keeps it from doing so; the locale \<open>until_observed\<close> is what the argument needs of a state before
    the first observation, interpreted for a fresh operator and for a restarted one.

  \<^bold>\<open>State and operations.\<close> A Go struct is a record with the fields of the source, an operation is one
  function with the source's guards in the source's order, an error return is \<open>Inl\<close> of an error datatype
  and a panic a value of it. State is passed explicitly. The reconciler's state is its deduplication map
  (which may be nil); the v2 publisher's is the map from workloads to their state with the sequence
  counter; a contract's is its publisher, its mapping and its events; everything else is stateless.
  Calls to a work queue are returned as the list of calls made.

  \<^bold>\<open>What is shown.\<close>

  \<^item> Hash surfaces: equal hashes mean equal attested fields, and conversely, for both versions.
  \<^item> Digests, identities and domains bind everything they are computed from.
  \<^item> The v2 publisher, under every interleaving and every answer of chain and signer: a confirmed revision
    has evidence on the chain, at most one live transaction per revision, only signed content is sent,
    the chain is read before anything is prepared, runs end, the good path confirms, a restart does not
    publish twice. With its queue: no unconfirmed revision is lost.
  \<^item> The v2 publisher on the registry contract: a revision takes effect at most once, through lost
    acknowledgements, time-outs, reverts and retries; a confirmed revision is in the registry's log, and entries of
    its workload that come after it are of revisions desired before it; every entry of the log was enqueued and
    is signed; a revision that has no attempt, or one that was reverted or has the next nonce, can be published from
    every state. The signer is taken to keep its contract (shown of the KMS signer), the
    account's transactions to be included in the order of their nonces, a new transaction to be prepared with a
    nonce that is still free, and the account to be the publisher's alone.
  \<^item> The reconciler enqueues exactly the changes of each Deployment's converged hash.
  \<^item> The running v1 operator, whatever KMS, node, other accounts and restarts do: every record in the registry is
    of a Deployment observed converged and is signed by the operator's key, so a PASS means such an
    observation; every hash recorded as attested has a job or was sent. For a Deployment whose states are observed
    one at a time (a new one only when nothing under way carries another) and whose transactions are not dropped,
    the registry ends with a record of the last hash observed; a restart makes up for what was lost before it.
  \<^item> Signer, clients and validation return success only when their conditions hold, and report uncertainty
    as uncertainty.
  \<^item> The verifier passes exactly under its conditions, and end to end it passes a live Deployment if and
    only if it has the surface of the one the operator attested.
  \<^item> Where the code departs from its intent: a rollback to the confirmed revision is dropped, a failed
    preparation forgets its signature (both v2 publisher), a retried v1 job overwrites a newer one, a v1 job that is
    queued already keeps its place when the same state comes back, so that the state in between is published
    last, and a v1 transaction that was sent and dropped is not sent again. On the registry contract, a v2 attempt
    whose nonce another transaction used is resent for ever and never replaced, and the late inclusion of a superseded
    transaction overwrites a confirmed revision, which is then neither noticed nor repaired.

  SHA-256 is never assumed injective: every theorem that separates two digests has the disjunct that the
  two preimages, which it names, are a collision.

  \<^bold>\<open>Parameters.\<close> Code outside the repository is an argument of the definitions: \<open>lib\<close> (JSON of upstream
  Kubernetes values, decimal printing of \<^verbatim>\<open>inf.Dec\<close>), \<open>crypto\<close> (x509 and ECDSA), \<open>kmsAPI\<close> (AWS), \<open>eth\<close>, \<open>rpc\<close>
  and the send, wait and call functions (go-ethereum), \<open>kube\<close> (client-go), \<open>manager\<close> (controller-runtime),
  \<open>files\<close> (file system, PEM). Hypotheses on them are few and stated where they are used: that the decimal
  printer prints by value (\<open>dec_printer\<close>), and that upstream values encode to well-formed JSON.

  \<^bold>\<open>Bounds and fuel.\<close> No definition takes fuel. Recursion is structural or has a measure; the worker's run
  ends after at most eight answers. Integers keep their widths: versions 16 bits, generations and chain
  ids 64 bits signed, replicas 32 bits, block timestamps and sequence numbers 64 bits. The step relation of
  the v2 publisher excludes the step that would wrap the sequence counter.

  \<^bold>\<open>Simplified.\<close> A signature that is nil and one that is empty are the same empty list. A nil connection is a value
  only where the code tests for it.

  \<^bold>\<open>Not modelled.\<close> Logging; cobra's reading of the command line (its result is an argument) and the flags other
  libraries define; the delays of the work queue (when it hands out what it owes); controller-runtime's caches
  and leader election (that a publisher asks for it is \<open>NeedLeaderElection\<close>); the price of
  gas (that a transaction may run out of it is) and reorganisations; \<^verbatim>\<open>WorkloadIdentityV2.String\<close>, which nothing calls; time-outs, which appear as
  the errors and unknown outcomes they lead to; Kubernetes manifests, contract tooling and tests.
\<close>

end
